(* ===== verification/Js_Prelude.thy ===== *)
theory Js_Prelude
  imports Main "HOL-Library.Sublist"
begin

text \<open>
  The part of the JavaScript language and of its standard library that the components share:
  strings with \<open>indexOf\<close>, \<open>lastIndexOf\<close>, \<open>substring\<close>, \<open>split\<close>, \<open>replace\<close> and their kin, decimal
  printing and \<open>parseInt\<close>, and insertion-ordered objects.  A JavaScript string is a list of
  code units; the model uses \<^typ>\<open>string\<close>, so only the code units below 256 are represented.
  The collections \<open>js_str\<close> and \<open>js_obj\<close> gather the facts that component proofs rewrite with.
\<close>

named_theorems js_str "facts about the string operations"
named_theorems js_obj "facts about insertion-ordered objects"

section \<open>Searching strings\<close>

text \<open>The position of the first occurrence of a pattern, if there is one.\<close>

fun find_sub :: "'a list \<Rightarrow> 'a list \<Rightarrow> nat option" where
  "find_sub p [] = (if p = [] then Some 0 else None)"
| "find_sub p (x # xs) = (if prefix p (x # xs) then Some 0 else map_option Suc (find_sub p xs))"

fun find_last_sub :: "'a list \<Rightarrow> 'a list \<Rightarrow> nat option" where
  "find_last_sub p [] = (if p = [] then Some 0 else None)"
| "find_last_sub p (x # xs) =
     (case find_last_sub p xs of
        Some i \<Rightarrow> Some (Suc i)
      | None \<Rightarrow> if prefix p (x # xs) then Some 0 else None)"

definition occurs :: "'a list \<Rightarrow> 'a list \<Rightarrow> bool" where
  "occurs p s \<longleftrightarrow> find_sub p s \<noteq> None"

lemma find_sub_Nil [simp]: "find_sub [] s = Some 0"
  by (cases s) auto

lemma find_sub_SomeD:
  "find_sub p s = Some i \<Longrightarrow> i + length p \<le> length s \<and> s = take i s @ p @ drop (i + length p) s"
proof (induction s arbitrary: i)
  case Nil
  then show ?case by (auto split: if_splits)
next
  case (Cons x xs)
  show ?case
  proof (cases "prefix p (x # xs)")
    case True
    then obtain zs where zs: "x # xs = p @ zs" by (auto simp: prefix_def)
    then have "length p \<le> length (x # xs)" by simp
    moreover from True Cons.prems have "i = 0" by simp
    ultimately show ?thesis using zs by simp
  next
    case False
    with Cons.prems obtain j where "find_sub p xs = Some j" and "i = Suc j" by auto
    with Cons.IH [of j] show ?thesis by simp
  qed
qed

lemma find_sub_bound: "find_sub p s = Some i \<Longrightarrow> i + length p \<le> length s"
  using find_sub_SomeD by blast

lemma find_sub_None_iff: "find_sub p s = None \<longleftrightarrow> \<not> (\<exists>a b. s = a @ p @ b)"
proof (induction s)
  case Nil
  then show ?case by auto
next
  case (Cons x xs)
  have "(\<exists>a b. x # xs = a @ p @ b) \<longleftrightarrow> prefix p (x # xs) \<or> (\<exists>a b. xs = a @ p @ b)"
    by (auto simp: prefix_def Cons_eq_append_conv)
  with Cons.IH show ?case by auto
qed

lemma occurs_iff: "occurs p s \<longleftrightarrow> (\<exists>a b. s = a @ p @ b)"
  using find_sub_None_iff [of p s] by (auto simp: occurs_def)

lemma occurs_infix [js_str]: "occurs p s \<longleftrightarrow> sublist p s"
  by (simp add: occurs_iff sublist_def)

lemma occurs_middle [simp, js_str]: "occurs p (a @ p @ b)"
  by (auto simp: occurs_iff)

lemma occurs_suffix [simp, js_str]: "occurs p (a @ p)"
  using occurs_middle [of p a "[]"] by simp

lemma occurs_single [simp, js_str]: "occurs [c] s \<longleftrightarrow> c \<in> set s"
  by (auto simp: occurs_iff in_set_conv_decomp)

lemma find_sub_single_None [simp, js_str]: "find_sub [c] s = None \<longleftrightarrow> c \<notin> set s"
  unfolding occurs_single [of c s, symmetric] occurs_def by simp

lemma find_sub_single [js_str]: "c \<notin> set a \<Longrightarrow> find_sub [c] (a @ c # b) = Some (length a)"
  by (induction a) auto

lemma find_sub_single_Some: "find_sub [c] s = Some i \<Longrightarrow> i < length s \<and> s ! i = c \<and> c \<notin> set (take i s)"
proof (induction s arbitrary: i)
  case (Cons x xs)
  then show ?case by (auto split: if_splits)
qed simp

lemma find_last_sub_None [simp]: "find_last_sub p s = None \<longleftrightarrow> \<not> occurs p s"
  by (induction s) (auto simp: occurs_def simp del: find_sub_single_None split: option.splits)

lemma find_last_sub_single [js_str]: "c \<notin> set b \<Longrightarrow> find_last_sub [c] (a @ c # b) = Some (length a)"
proof (induction a)
  case Nil
  then have "find_last_sub [c] b = None" by simp
  then show ?case by (simp del: find_last_sub_None)
qed simp

section \<open>The methods of JavaScript strings\<close>

definition indexOf :: "'a list \<Rightarrow> 'a list \<Rightarrow> int" where
  "indexOf s p = (case find_sub p s of None \<Rightarrow> -1 | Some i \<Rightarrow> int i)"

definition lastIndexOf :: "'a list \<Rightarrow> 'a list \<Rightarrow> int" where
  "lastIndexOf s p = (case find_last_sub p s of None \<Rightarrow> -1 | Some i \<Rightarrow> int i)"

text \<open>\<open>s.substring(a, b)\<close> clamps both positions to the string and swaps them when they are in
  the wrong order; \<open>s.substring(a)\<close> goes on to the end.\<close>

definition clamp :: "'a list \<Rightarrow> int \<Rightarrow> nat" where
  "clamp s a = nat (min (max a 0) (int (length s)))"

definition substring :: "'a list \<Rightarrow> int \<Rightarrow> int \<Rightarrow> 'a list" where
  "substring s a b =
     (let a' = clamp s a; b' = clamp s b
      in take (max a' b' - min a' b') (drop (min a' b') s))"

definition substring_from :: "'a list \<Rightarrow> int \<Rightarrow> 'a list" where
  "substring_from s a = substring s a (int (length s))"

definition endsWith :: "'a list \<Rightarrow> 'a list \<Rightarrow> bool" where
  "endsWith s p = suffix p s"

lemma indexOf_neg_iff [js_str]: "indexOf s p < 0 \<longleftrightarrow> \<not> occurs p s"
  by (auto simp: indexOf_def occurs_def split: option.splits)

lemma indexOf_nonneg_iff [js_str]: "0 \<le> indexOf s p \<longleftrightarrow> occurs p s"
  using indexOf_neg_iff [of s p] by linarith

lemma indexOf_minus1_iff [js_str]: "indexOf s p = - 1 \<longleftrightarrow> \<not> occurs p s"
  by (auto simp: indexOf_def occurs_def split: option.splits)

lemma lastIndexOf_minus1_iff [js_str]: "lastIndexOf s p = - 1 \<longleftrightarrow> \<not> occurs p s"
  using find_last_sub_None [of p s]
  by (auto simp: lastIndexOf_def simp del: find_last_sub_None split: option.splits)

lemma indexOf_first [js_str]: "c \<notin> set a \<Longrightarrow> indexOf (a @ c # b) [c] = int (length a)"
  by (simp add: indexOf_def find_sub_single)

lemma lastIndexOf_last [js_str]: "c \<notin> set b \<Longrightarrow> lastIndexOf (a @ c # b) [c] = int (length a)"
  by (simp add: lastIndexOf_def find_last_sub_single)

lemma substring_prefix [js_str]: "substring s 0 (int n) = take n s"
  by (simp add: substring_def clamp_def min_def)

lemma substring_from_nat [js_str]: "substring_from s (int n) = drop n s"
  by (simp add: substring_from_def substring_def clamp_def min_def max_def)

lemma substring_from_Suc [js_str]: "substring_from s (int n + 1) = drop (Suc n) s"
  using substring_from_nat [of s "Suc n"] by (simp add: add.commute)

lemma substring_to_end [js_str]: "substring s (int n + 1) (int (length s)) = drop (Suc n) s"
  using substring_from_Suc [of s n] by (simp add: substring_from_def)

lemma substring_minus1 [js_str]: "substring s 0 (- 1) = []"
  by (simp add: substring_def clamp_def)

lemma substring_from_neg [js_str]: "a \<le> 0 \<Longrightarrow> substring_from s a = s"
  by (simp add: substring_from_def substring_def clamp_def)

section \<open>Splitting and joining\<close>

function split :: "'a list \<Rightarrow> 'a list \<Rightarrow> 'a list list" where
  "split s sep =
     (if sep = [] then map (\<lambda>c. [c]) s
      else case find_sub sep s of
             None \<Rightarrow> [s]
           | Some i \<Rightarrow> take i s # split (drop (i + length sep) s) sep)"
  by pat_completeness auto
termination
proof (relation "measure (\<lambda>(s, sep). length s)")
  fix s sep :: "'a list" and i
  assume "sep \<noteq> []" and "find_sub sep s = Some i"
  then show "((drop (i + length sep) s, sep), (s, sep)) \<in> measure (\<lambda>(s, sep). length s)"
    using find_sub_bound [of sep s i] by (cases sep) auto
qed simp

declare split.simps [simp del]

fun join :: "'a list \<Rightarrow> 'a list list \<Rightarrow> 'a list" where
  "join sep [] = []"
| "join sep [x] = x"
| "join sep (x # xs) = x @ sep @ join sep xs"

lemma join_Cons: "xs \<noteq> [] \<Longrightarrow> join sep (x # xs) = x @ sep @ join sep xs"
  by (cases xs) auto

lemma split_no_sep [js_str]: "c \<notin> set s \<Longrightarrow> split s [c] = [s]"
  using find_sub_single_None [of c s] by (simp add: split.simps del: find_sub_single_None)

lemma split_single [js_str]: "c \<notin> set a \<Longrightarrow> split (a @ c # b) [c] = a # split b [c]"
  by (subst split.simps) (simp add: find_sub_single)

text \<open>Splitting undoes joining when no part holds the separator.\<close>

lemma split_join [js_str]:
  "xs \<noteq> [] \<Longrightarrow> (\<And>x. x \<in> set xs \<Longrightarrow> c \<notin> set x) \<Longrightarrow> split (join [c] xs) [c] = xs"
proof (induction xs)
  case (Cons x xs)
  then show ?case
    by (cases xs) (auto simp: split_no_sep split_single)
qed simp

lemma join_split: "sep \<noteq> [] \<Longrightarrow> join sep (split s sep) = s"
proof (induction s sep rule: split.induct)
  case (1 s sep)
  show ?case
  proof (cases "find_sub sep s")
    case None
    with "1.prems" show ?thesis by (simp add: split.simps [of s sep])
  next
    case (Some i)
    have ne: "split (drop (i + length sep) s) sep \<noteq> []"
      using "1.prems" by (subst split.simps) (simp split: option.splits)
    have "join sep (split s sep) = take i s @ sep @ join sep (split (drop (i + length sep) s) sep)"
      using Some "1.prems" ne by (simp add: split.simps [of s sep] join_Cons)
    also have "\<dots> = s"
      using "1.IH" [OF "1.prems" Some "1.prems"] find_sub_SomeD [OF Some] by simp
    finally show ?thesis .
  qed
qed

lemma set_join: "set (join sep xs) \<subseteq> set sep \<union> \<Union> (set ` set xs)"
  by (induction sep xs rule: join.induct) auto

lemma split_nonempty [simp]: "sep \<noteq> [] \<Longrightarrow> split s sep \<noteq> []"
  by (subst split.simps) (simp split: option.splits)

lemma set_split_subset: "x \<in> set (split s sep) \<Longrightarrow> set x \<subseteq> set s"
proof (induction s sep rule: split.induct)
  case (1 s sep)
  from "1.prems" show ?case
    by (subst (asm) split.simps)
      (auto split: if_splits option.splits dest!: "1.IH" dest: in_set_takeD in_set_dropD)
qed

section \<open>Replacing\<close>

text \<open>\<open>s.replace(p, r)\<close> with a string pattern replaces the first occurrence.  In the replacement
  text \<open>$$\<close> stands for a dollar sign, \<open>$&\<close> for the matched text, and a dollar sign followed by a
  back quote or by a quote for the text before or after the match.\<close>

fun expand_dollar :: "string \<Rightarrow> string \<Rightarrow> string \<Rightarrow> string \<Rightarrow> string" where
  "expand_dollar m pre post [] = []"
| "expand_dollar m pre post [c] = [c]"
| "expand_dollar m pre post (c # d # r) =
     (if c = CHR ''$'' \<and> d = CHR ''$'' then CHR ''$'' # expand_dollar m pre post r
      else if c = CHR ''$'' \<and> d = CHR ''&'' then m @ expand_dollar m pre post r
      else if c = CHR ''$'' \<and> d = CHR 0x60 then pre @ expand_dollar m pre post r
      else if c = CHR ''$'' \<and> d = CHR 0x27 then post @ expand_dollar m pre post r
      else c # expand_dollar m pre post (d # r))"

definition replace_first :: "string \<Rightarrow> string \<Rightarrow> string \<Rightarrow> string" where
  "replace_first s p r =
     (case find_sub p s of
        None \<Rightarrow> s
      | Some i \<Rightarrow>
          take i s @ expand_dollar p (take i s) (drop (i + length p) s) r @ drop (i + length p) s)"

text \<open>\<open>s.replace(/p/g, r)\<close> for a pattern and a replacement without special characters.\<close>

definition replace_all :: "string \<Rightarrow> string \<Rightarrow> string \<Rightarrow> string" where
  "replace_all s p r = join r (split s p)"

lemma replace_all_absent [js_str]: "\<not> occurs p s \<Longrightarrow> p \<noteq> [] \<Longrightarrow> replace_all s p r = s"
  by (simp add: replace_all_def split.simps [of s p] occurs_def)

lemma replace_all_Nil [simp]: "p \<noteq> [] \<Longrightarrow> replace_all [] p r = []"
  by (simp add: replace_all_def split.simps [of "[]" p])

lemma join_head: "xs \<noteq> [] \<Longrightarrow> join r ((c # hd xs) # tl xs) = c # join r xs"
  by (cases xs; cases "tl xs") auto

lemma replace_all_Cons:
  assumes "p \<noteq> []"
  shows "replace_all (c # s) p r =
    (if prefix p (c # s) then r @ replace_all (drop (length p) (c # s)) p r else c # replace_all s p r)"
proof (cases "prefix p (c # s)")
  case True
  then show ?thesis
    using assms by (simp add: replace_all_def split.simps [of "c # s" p] join_Cons)
next
  case False
  have "split (c # s) p = (c # hd (split s p)) # tl (split s p)"
    using assms False by (simp add: split.simps [of "c # s" p] split.simps [of s p] split: option.splits)
  then show ?thesis using False assms by (simp add: replace_all_def join_head)
qed

lemma replace_all_skip: "c \<notin> set v \<Longrightarrow> replace_all (v @ s) (c # p) r = v @ replace_all s (c # p) r"
  by (induction v) (auto simp: replace_all_Cons)

lemma not_occurs_hd: "c \<in> set p \<Longrightarrow> c \<notin> set s \<Longrightarrow> \<not> occurs p s"
  by (auto simp: occurs_iff)

lemma expand_dollar_plain [simp, js_str]:
  "CHR ''$'' \<notin> set r \<Longrightarrow> expand_dollar m pre post r = r"
  by (induction m pre post r rule: expand_dollar.induct) auto

lemma replace_first_absent [js_str]: "\<not> occurs p s \<Longrightarrow> replace_first s p r = s"
  by (simp add: replace_first_def occurs_def)

lemma replace_first_present:
  assumes "occurs p s" and "CHR ''$'' \<notin> set r"
  obtains a b where "s = a @ p @ b" and "replace_first s p r = a @ r @ b"
proof -
  from assms(1) obtain i where i: "find_sub p s = Some i" by (auto simp: occurs_def)
  show thesis
  proof (rule that)
    show "s = take i s @ p @ drop (i + length p) s" using find_sub_SomeD [OF i] by blast
    show "replace_first s p r = take i s @ r @ drop (i + length p) s"
      using i assms(2) by (simp add: replace_first_def)
  qed
qed

lemma occurs_replace_first [js_str]:
  "occurs p s \<Longrightarrow> CHR ''$'' \<notin> set r \<Longrightarrow> occurs r (replace_first s p r)"
  by (elim replace_first_present) auto

lemma replace_first_length:
  assumes "occurs p s" and "CHR ''$'' \<notin> set r"
  shows "length (replace_first s p r) + length p = length s + length r"
proof -
  from assms obtain a b where "s = a @ p @ b" and "replace_first s p r = a @ r @ b"
    by (rule replace_first_present)
  then show ?thesis by simp
qed

section \<open>Decimal numbers\<close>

definition digit_char :: "nat \<Rightarrow> char" where
  "digit_char d = char_of (48 + d)"

fun nat_str :: "nat \<Rightarrow> string" where
  "nat_str n = (if n < 10 then [digit_char n] else nat_str (n div 10) @ [digit_char (n mod 10)])"

declare nat_str.simps [simp del]

text \<open>\<open>n + ''\<close> for an integral number.\<close>

definition int_str :: "int \<Rightarrow> string" where
  "int_str n = (if n < 0 then CHR ''-'' # nat_str (nat (- n)) else nat_str (nat n))"

definition is_digit :: "char \<Rightarrow> bool" where
  "is_digit c \<longleftrightarrow> of_char c \<ge> (48::nat) \<and> of_char c \<le> (57::nat)"

definition digit_val :: "char \<Rightarrow> nat" where
  "digit_val c = of_char c - 48"

fun digits_val :: "nat \<Rightarrow> string \<Rightarrow> nat" where
  "digits_val acc [] = acc"
| "digits_val acc (c # cs) = digits_val (10 * acc + digit_val c) cs"

definition is_space :: "char \<Rightarrow> bool" where
  "is_space c \<longleftrightarrow> of_char c \<in> {9, 10, 11, 12, 13, 32, 160 :: nat}"

text \<open>\<open>parseInt(s, 10)\<close>: white space, a sign, then the longest run of digits; \<^const>\<open>None\<close> is NaN.\<close>

definition parse_digits :: "string \<Rightarrow> int option" where
  "parse_digits s =
     (let ds = takeWhile is_digit s in if ds = [] then None else Some (int (digits_val 0 ds)))"

definition parseInt :: "string \<Rightarrow> int option" where
  "parseInt s =
     (case dropWhile is_space s of
        [] \<Rightarrow> None
      | c # cs \<Rightarrow>
          if c = CHR ''-'' then map_option uminus (parse_digits cs)
          else if c = CHR ''+'' then parse_digits cs
          else parse_digits (c # cs))"

lemma of_char_digit_char: "d < 10 \<Longrightarrow> of_char (digit_char d) = (48 + d :: nat)"
  by (simp add: digit_char_def)

lemma digit_char_facts [simp]:
  assumes "d < 10"
  shows "is_digit (digit_char d)" and "digit_val (digit_char d) = d"
    and "\<not> is_space (digit_char d)" and "digit_char d \<noteq> CHR ''-''" and "digit_char d \<noteq> CHR ''+''"
proof -
  note code = of_char_digit_char [OF assms]
  show "is_digit (digit_char d)" "digit_val (digit_char d) = d" "\<not> is_space (digit_char d)"
    using assms by (auto simp: is_digit_def digit_val_def is_space_def code)
  have "of_char (CHR ''-'') = (45 :: nat)" "of_char (CHR ''+'') = (43 :: nat)" by simp_all
  then show "digit_char d \<noteq> CHR ''-''" "digit_char d \<noteq> CHR ''+''"
    using code by fastforce+
qed

lemma nat_str_digits: "\<forall>c \<in> set (nat_str n). is_digit c"
proof (induction n rule: nat_str.induct)
  case (1 n)
  then show ?case by (cases "n < 10") (auto simp: nat_str.simps [of n])
qed

lemma nat_str_nonempty [simp]: "nat_str n \<noteq> []"
  by (subst nat_str.simps) simp

lemma digits_val_append: "digits_val acc (xs @ ys) = digits_val (digits_val acc xs) ys"
  by (induction xs arbitrary: acc) auto

lemma digits_val_nat_str [simp]: "digits_val 0 (nat_str n) = n"
proof (induction n rule: nat_str.induct)
  case (1 n)
  then show ?case
    by (cases "n < 10") (auto simp: nat_str.simps [of n] digits_val_append)
qed

lemma nat_str_inject [simp]: "nat_str m = nat_str n \<longleftrightarrow> m = n"
  by (metis digits_val_nat_str)

lemma is_digit_not: "is_digit c \<Longrightarrow> \<not> is_space c \<and> c \<noteq> CHR ''-'' \<and> c \<noteq> CHR ''+''"
  by (auto simp: is_digit_def is_space_def)

lemma not_digits [simp]:
  "\<not> is_digit (CHR ''/'')" "\<not> is_digit (CHR ''-'')" "\<not> is_digit (CHR '' '')" "\<not> is_digit (CHR '','')"
  by (simp_all add: is_digit_def)

lemma nat_str_no_sep: "\<not> is_digit c \<Longrightarrow> c \<notin> set (nat_str n)"
  using nat_str_digits by blast

lemma parse_digits_nat_str [js_str]: "parse_digits (nat_str n) = Some (int n)"
proof -
  have run: "takeWhile is_digit (nat_str n) = nat_str n"
    using nat_str_digits by simp
  show ?thesis unfolding parse_digits_def Let_def run by simp
qed

text \<open>Parsing the printed form of an integer gives it back.\<close>

lemma parseInt_int_str [js_str]: "parseInt (int_str n) = Some n"
proof (cases "n < 0")
  case True
  then show ?thesis
    by (simp add: int_str_def parseInt_def is_space_def parse_digits_nat_str)
next
  case False
  obtain c cs where s: "nat_str (nat n) = c # cs"
    by (cases "nat_str (nat n)") auto
  then have c: "is_digit c" using nat_str_digits [of "nat n"] by simp
  have "parse_digits (c # cs) = Some n"
    using False parse_digits_nat_str [of "nat n"] s by simp
  with False s is_digit_not [OF c] show ?thesis
    by (simp add: int_str_def parseInt_def)
qed

lemma int_str_inject [simp]: "int_str m = int_str n \<longleftrightarrow> m = n"
  by (metis option.inject parseInt_int_str)

section \<open>Lists\<close>

lemma list_update_nth: "xs[i := v] ! j = (if i = j \<and> j < length xs then v else xs ! j)"
  by (cases "i < length xs") (auto simp: nth_list_update list_update_beyond)

text \<open>What \<open>+\<close> makes of \<open>undefined\<close> next to a text.\<close>

definition undef_text :: "string option \<Rightarrow> string" where
  "undef_text x = (case x of None \<Rightarrow> ''undefined'' | Some t \<Rightarrow> t)"

section \<open>Exceptions\<close>

text \<open>A handler that throws ends with \<^const>\<open>Inl\<close> and the error; what the code did before the
  throw stays done in the browser, but none of the properties below look at a page after a throw.
  \<open>Thrown\<close> is an \<open>Error\<close> that the code throws itself.\<close>

datatype js_error = TypeError | ReferenceError | SyntaxError | RangeError | Thrown

type_synonym 'a result = "js_error + 'a"

definition and_then :: "'a result \<Rightarrow> ('a \<Rightarrow> 'b result) \<Rightarrow> 'b result" where
  "and_then r f = (case r of Inl e \<Rightarrow> Inl e | Inr a \<Rightarrow> f a)"

fun each_result :: "('a \<Rightarrow> 's \<Rightarrow> 's result) \<Rightarrow> 'a list \<Rightarrow> 's \<Rightarrow> 's result" where
  "each_result f [] s = Inr s"
| "each_result f (x # xs) s = and_then (f x s) (each_result f xs)"

lemma and_then_simps [simp]: "and_then (Inl e) f = Inl e" "and_then (Inr a) f = f a"
  by (simp_all add: and_then_def)

lemma and_then_Inr: "and_then r f = Inr b \<longleftrightarrow> (\<exists>a. r = Inr a \<and> f a = Inr b)"
  by (cases r) auto

lemma each_result_append:
  "each_result f (xs @ ys) s = and_then (each_result f xs s) (each_result f ys)"
  by (induction xs arbitrary: s) (auto simp: and_then_def split: sum.splits)

lemma each_result_keeps:
  assumes "\<And>x s. x \<in> set xs \<Longrightarrow> P s \<Longrightarrow> \<exists>s'. f x s = Inr s' \<and> P s'"
  shows "P s \<Longrightarrow> \<exists>s'. each_result f xs s = Inr s' \<and> P s'"
  using assms
proof (induction xs arbitrary: s)
  case (Cons x xs)
  then obtain t where "f x s = Inr t" "P t" by (meson list.set_intros(1))
  then show ?case using Cons by simp
qed simp

lemma each_result_total:
  "(\<And>x s. x \<in> set xs \<Longrightarrow> f x s = Inr (g x s)) \<Longrightarrow> each_result f xs s = Inr (fold g xs s)"
  by (induction xs arbitrary: s) auto

section \<open>Matching without regard to case\<close>

definition upper :: "char \<Rightarrow> char" where
  "upper c =
     (let n = of_char c :: nat
      in if 97 \<le> n \<and> n \<le> 122 \<or> 224 \<le> n \<and> n \<le> 254 \<and> n \<noteq> 247 then char_of (n - 32) else c)"

definition ci_eq :: "string \<Rightarrow> string \<Rightarrow> bool" where
  "ci_eq s t \<longleftrightarrow> map upper s = map upper t"

definition ci_prefix :: "string \<Rightarrow> string \<Rightarrow> bool" where
  "ci_prefix p s \<longleftrightarrow> prefix (map upper p) (map upper s)"

text \<open>\<open>s.split(/sep/i)\<close> for a separator without special characters.\<close>

function split_ci :: "string \<Rightarrow> string \<Rightarrow> string list" where
  "split_ci sep s =
     (case s of
        [] \<Rightarrow> [[]]
      | c # cs \<Rightarrow>
          if sep \<noteq> [] \<and> ci_prefix sep s then [] # split_ci sep (drop (length sep) s)
          else (case split_ci sep cs of [] \<Rightarrow> [[c]] | p # ps \<Rightarrow> (c # p) # ps))"
  by pat_completeness auto
termination
  by (relation "measure (\<lambda>(sep, s). length s)") (auto simp: neq_Nil_conv)

declare split_ci.simps [simp del]

section \<open>Insertion-ordered objects\<close>

text \<open>A plain object used as a dictionary, as the list of its properties in the order in which they
  were first set.  The keys the code uses are never array indices, so insertion order is the order
  in which \<open>for \<dots> in\<close> and \<open>jQuery.each\<close> visit them.\<close>

type_synonym 'v obj = "(string \<times> 'v) list"

fun obj_set :: "string \<Rightarrow> 'v \<Rightarrow> 'v obj \<Rightarrow> 'v obj" where
  "obj_set k v [] = [(k, v)]"
| "obj_set k v ((k', v') # o') = (if k' = k then (k, v) # o' else (k', v') # obj_set k v o')"

definition obj_delete :: "string \<Rightarrow> 'v obj \<Rightarrow> 'v obj" where
  "obj_delete k ob = filter (\<lambda>(k', _). k' \<noteq> k) ob"

definition obj_wf :: "'v obj \<Rightarrow> bool" where
  "obj_wf ob \<longleftrightarrow> distinct (map fst ob)"

lemma map_of_obj_set [simp, js_obj]: "map_of (obj_set k v ob) = (map_of ob)(k \<mapsto> v)"
  by (induction k v ob rule: obj_set.induct) auto

lemma keys_obj_set [js_obj]:
  "map fst (obj_set k v ob) = (if k \<in> fst ` set ob then map fst ob else map fst ob @ [k])"
  by (induction k v ob rule: obj_set.induct) auto

lemma length_obj_set [js_obj]:
  "length (obj_set k v ob) = (if k \<in> fst ` set ob then length ob else Suc (length ob))"
  by (induction k v ob rule: obj_set.induct) auto

lemma obj_wf_set [simp, intro]: "obj_wf ob \<Longrightarrow> obj_wf (obj_set k v ob)"
  by (auto simp: obj_wf_def keys_obj_set)

lemma map_of_obj_delete [simp, js_obj]: "map_of (obj_delete k ob) = (map_of ob)(k := None)"
  by (induction ob) (auto simp: obj_delete_def fun_eq_iff)

lemma obj_wf_delete [simp, intro]: "obj_wf ob \<Longrightarrow> obj_wf (obj_delete k ob)"
proof -
  have "map fst (obj_delete k ob) = filter (\<lambda>k'. k' \<noteq> k) (map fst ob)"
    by (simp add: obj_delete_def filter_map comp_def split_def)
  then show "obj_wf ob \<Longrightarrow> ?thesis" by (simp add: obj_wf_def)
qed

end
