(* ===== verification/Url_Params.thy ===== *)
theory Url_Params
  imports Js_Prelude
begin

text \<open>
  Query strings: \<open>replaceQueryParam\<close> and \<open>submitPagination\<close> of \<open>OfbizUtil.js\<close>, the view-name
  separator and the popup addresses of \<open>fieldlookup.js\<close>, the request splitting of
  \<open>lookupAjaxRequest\<close>, \<open>lookupPaginationAjaxRequest\<close> and \<open>prepareAjaxData\<close>, and the JSON prefix
  filter of \<open>util.js\<close>.
\<close>

section \<open>Replacing a parameter of a link\<close>

definition replaceQueryParam :: "string \<Rightarrow> string \<Rightarrow> string \<Rightarrow> string" where
  "replaceQueryParam queryString currentParam newParam =
     (let result = replace_first queryString currentParam newParam in
      if indexOf result newParam < 0 then
        if indexOf result ''?'' < 0 then result @ ''?'' @ newParam
        else if endsWith result ''#'' then replace_first result ''#'' (''&'' @ newParam @ ''#'')
        else if endsWith result '';'' then
          replace_first result '';'' ('' + '&'' @ newParam @ CHR 0x27 # '';'')
        else result @ ''&'' @ newParam
      else result)"

lemma occurs_replace_wrap:
  assumes "occurs p s" and "CHR ''$'' \<notin> set (u @ n @ v)"
  shows "occurs n (replace_first s p (u @ n @ v))"
proof -
  from assms obtain a b where "replace_first s p (u @ n @ v) = a @ (u @ n @ v) @ b"
    by (rule replace_first_present)
  then have "replace_first s p (u @ n @ v) = (a @ u) @ n @ (v @ b)" by simp
  then show ?thesis by (metis occurs_middle)
qed

lemma endsWith_occurs: "endsWith s p \<Longrightarrow> occurs p s"
  by (auto simp: endsWith_def suffix_def)

lemma occurs_append_sep: "occurs n (s @ c # n)"
  using occurs_suffix [of n "s @ [c]"] by simp

lemma replaceQueryParam_occurs:
  assumes "CHR ''$'' \<notin> set n"
  shows "occurs n (replaceQueryParam q c n)"
proof -
  let ?r = "replace_first q c n"
  have hash: "occurs n (replace_first ?r ''#'' (''&'' @ n @ ''#''))" if "endsWith ?r ''#''"
    using that assms by (intro occurs_replace_wrap) (auto dest: endsWith_occurs)
  have semi: "occurs n (replace_first ?r '';'' ('' + '&'' @ n @ CHR 0x27 # '';''))" if "endsWith ?r '';''"
    using that assms by (intro occurs_replace_wrap) (auto dest: endsWith_occurs)
  show ?thesis
    using hash semi by (auto simp: replaceQueryParam_def Let_def indexOf_neg_iff occurs_append_sep)
qed

lemma replaceQueryParam_stable:
  assumes "occurs n q" and "\<not> occurs c q"
  shows "replaceQueryParam q c n = q"
  using assms by (simp add: replaceQueryParam_def Let_def replace_first_absent indexOf_neg_iff)

lemma replaceQueryParam_at:
  assumes "find_sub c (a @ c @ b) = Some (length a)" and "CHR ''$'' \<notin> set n"
  shows "replaceQueryParam (a @ c @ b) c n = a @ n @ b"
  using assms by (simp add: replaceQueryParam_def Let_def replace_first_def indexOf_neg_iff)

section \<open>Pagination\<close>

text \<open>What a click on a pagination link or a choice in a pagination menu does, and whether the
  browser goes on to follow the link.\<close>

datatype nav_action =
    LookupAjax string string
  | PostForm string "(string \<times> string) list"
  | SetLocation string
  | SetHref string

record pager =
  lookupajax :: "string option"
  pagerTag :: string

text \<open>The parameters a long address is posted with: \<open>keyValue[0]\<close> and \<open>keyValue[1]\<close>.\<close>

definition hidden_field :: "string \<Rightarrow> (string \<times> string) list" where
  "hidden_field param =
     (if param \<noteq> [] \<and> indexOf param ''='' > 0
      then let keyValue = split param ''='' in [(keyValue ! 0, keyValue ! 1)]
      else [])"

definition submitPagination :: "bool \<Rightarrow> pager \<Rightarrow> string \<Rightarrow> nav_action \<times> bool" where
  "submitPagination lookup_loaded ob url =
     (if lookupajax ob = Some ''true'' \<and> lookup_loaded
      then (LookupAjax url (if pagerTag ob = ''SELECT'' then ''select'' else ''link''), False)
      else if length url > 2000 then
        let request = substring url 0 (indexOf url ''?'');
            params = substring url (indexOf url ''?'' + 1) (int (length url));
            paramsArray = split params ''&''
        in (PostForm request (concat (map hidden_field paramsArray)), False)
      else if pagerTag ob = ''SELECT'' then (SetLocation url, False)
      else (SetHref url, True))"

text \<open>Reading a query string back, and printing one.\<close>

definition query_pair :: "string \<times> string \<Rightarrow> string" where
  "query_pair kv = fst kv @ ''='' @ snd kv"

definition plain_pair :: "string \<times> string \<Rightarrow> bool" where
  "plain_pair kv \<longleftrightarrow> fst kv \<noteq> [] \<and> CHR ''='' \<notin> set (fst kv) \<and> CHR ''&'' \<notin> set (fst kv)
     \<and> CHR ''='' \<notin> set (snd kv) \<and> CHR ''&'' \<notin> set (snd kv)"

lemma hidden_field_first_two:
  assumes "k \<noteq> []" and "CHR ''='' \<notin> set k" and "CHR ''='' \<notin> set v"
  shows "hidden_field (k @ ''='' @ v @ rest) = [(k, hd (split (v @ rest) ''=''))]"
  using assms
  by (simp add: hidden_field_def indexOf_first split_single Let_def hd_conv_nth)

lemma hidden_field_pair: "plain_pair kv \<Longrightarrow> hidden_field (query_pair kv) = [kv]"
  using hidden_field_first_two [of "fst kv" "snd kv" "[]"]
  by (simp add: plain_pair_def query_pair_def split_no_sep)

lemma query_pairs_split:
  assumes "kvs \<noteq> []" and "\<And>kv. kv \<in> set kvs \<Longrightarrow> plain_pair kv"
  shows "concat (map hidden_field (split (join ''&'' (map query_pair kvs)) ''&'')) = kvs"
proof -
  have "split (join ''&'' (map query_pair kvs)) ''&'' = map query_pair kvs"
    using assms by (intro split_join) (auto simp: query_pair_def plain_pair_def)
  moreover have "concat (map hidden_field (map query_pair kvs)) = kvs"
    using assms(2) by (induction kvs) (simp_all add: hidden_field_pair)
  ultimately show ?thesis by simp
qed

lemma split_at_query:
  assumes "CHR ''?'' \<notin> set base"
  shows "substring (base @ ''?'' @ q) 0 (indexOf (base @ ''?'' @ q) ''?'') = base"
    and "substring (base @ ''?'' @ q) (indexOf (base @ ''?'' @ q) ''?'' + 1)
           (int (length (base @ ''?'' @ q))) = q"
  using assms substring_to_end [of "base @ ''?'' @ q" "length base"]
  by (simp_all add: indexOf_first substring_prefix)

lemma long_post:
  assumes "CHR ''?'' \<notin> set base" and "length (base @ ''?'' @ q) > 2000"
    and "lookupajax ob \<noteq> Some ''true'' \<or> \<not> lookup_loaded"
  shows "submitPagination lookup_loaded ob (base @ ''?'' @ q)
    = (PostForm base (concat (map hidden_field (split q ''&''))), False)"
  unfolding submitPagination_def split_at_query [OF assms(1)] Let_def using assms by auto

section \<open>Lookup windows and lookup requests\<close>

definition getViewNameWithSeparator :: "string \<Rightarrow> string" where
  "getViewNameWithSeparator view_name =
     view_name @ (if indexOf view_name ''?'' \<ge> 0 then ''&'' else ''?'')"

definition lookup_popup1_url :: "string \<Rightarrow> string \<Rightarrow> string \<Rightarrow> string \<Rightarrow> string" where
  "lookup_popup1_url presentation lid view_name form_name =
     getViewNameWithSeparator view_name @ ''formName='' @ form_name @ ''&presentation='' @ presentation
     @ ''&id='' @ lid"

text \<open>The arguments after the second are passed on, numbered from \<open>-1\<close>: the loop runs from 2 and
  the index is \<open>i - 3\<close>.\<close>

fun popup2_args :: "nat \<Rightarrow> string list \<Rightarrow> string" where
  "popup2_args i [] = []"
| "popup2_args i (a # as) =
     (if 2 \<le> i then ''&parm'' @ int_str (int i - 3) @ ''='' @ a else []) @ popup2_args (Suc i) as"

definition lookup_popup2_url :: "string \<Rightarrow> string \<Rightarrow> string list option \<Rightarrow> string \<Rightarrow> string" where
  "lookup_popup2_url presentation lid args view_name =
     (let argString = (case args of None \<Rightarrow> [] | Some as \<Rightarrow> popup2_args 0 as) in
      getViewNameWithSeparator view_name @ ''presentation='' @ presentation @ ''&id='' @ lid @ argString)"

lemma getViewNameWithSeparator_one_query:
  "count_list (getViewNameWithSeparator v) (CHR ''?'') = max 1 (count_list v (CHR ''?''))"
proof (cases "CHR ''?'' \<in> set v")
  case True
  then have "count_list v (CHR ''?'') \<noteq> 0" by (simp add: count_list_0_iff)
  with True show ?thesis by (simp add: getViewNameWithSeparator_def indexOf_nonneg_iff max_def)
next
  case False
  then show ?thesis by (simp add: getViewNameWithSeparator_def indexOf_nonneg_iff count_list_0_iff)
qed

text \<open>\<open>lookupAjaxRequest\<close> cuts a request into the address and its arguments.\<close>

definition split_request :: "string \<Rightarrow> string \<times> string" where
  "split_request request =
     (substring request 0 (indexOf request ''?''),
      substring request (indexOf request ''?'' + 1) (int (length request)))"

lemma split_request_join:
  "CHR ''?'' \<notin> set base \<Longrightarrow> split_request (base @ ''?'' @ q) = (base, q)"
  using split_at_query by (simp add: split_request_def)

lemma split_request_no_query: "CHR ''?'' \<notin> set r \<Longrightarrow> split_request r = ([], r)"
  using indexOf_minus1_iff [of r "''?''"]
  by (simp add: split_request_def substring_minus1 substring_def clamp_def)

text \<open>\<open>prepareAjaxData\<close> turns the arguments after the first into name and value pairs; a name
  without a value gets \<open>undefined\<close>.\<close>

fun prepare_pairs :: "string list \<Rightarrow> (string \<times> string option) list" where
  "prepare_pairs [] = []"
| "prepare_pairs [n] = [(n, None)]"
| "prepare_pairs (n # v # ps) = (n, Some v) # prepare_pairs ps"

definition prepareAjaxData :: "string list \<Rightarrow> (string \<times> string option) list" where
  "prepareAjaxData params = (if length params > 1 then prepare_pairs (tl params) else [])"

lemma prepare_pairs_flatten:
  "prepare_pairs (concat (map (\<lambda>(n, v). [n, v]) kvs)) = map (\<lambda>(n, v). (n, Some v)) kvs"
  by (induction kvs) auto

lemma length_prepare_pairs: "length (prepare_pairs ps) = (length ps + 1) div 2"
  by (induction ps rule: prepare_pairs.induct) auto

section \<open>The JSON prefix filter\<close>

definition json_prefixes :: "string list" where
  "json_prefixes = [''//'', ''while(true);'', ''for(;;);'']"

fun strip_prefixes :: "string list \<Rightarrow> string \<Rightarrow> string" where
  "strip_prefixes [] data = data"
| "strip_prefixes (p # ps) data =
     (if indexOf data p = 0 then substring_from data (int (length p)) else strip_prefixes ps data)"

definition dataFilter :: "string \<Rightarrow> string \<Rightarrow> string" where
  "dataFilter data type =
     (if type \<noteq> ''json'' \<and> type \<noteq> ''jsonp'' then data else strip_prefixes json_prefixes data)"

lemma indexOf_0_iff: "indexOf s p = 0 \<longleftrightarrow> prefix p s"
  by (cases s) (auto simp: indexOf_def split: option.splits)

lemma strip_prefixes_hit:
  assumes "p \<in> set ps" and "\<And>q. q \<in> set ps \<Longrightarrow> prefix q (p @ body) \<Longrightarrow> q = p"
  shows "strip_prefixes ps (p @ body) = body"
  using assms
proof (induction ps)
  case (Cons a ps)
  show ?case
  proof (cases "prefix a (p @ body)")
    case True
    with Cons.prems(2) [of a] have "a = p" by simp
    then show ?thesis by (simp add: indexOf_0_iff substring_from_nat)
  next
    case False
    then have "p \<in> set ps" using Cons.prems(1) by auto
    with Cons.IH Cons.prems(2) False show ?thesis by (simp add: indexOf_0_iff)
  qed
qed simp

lemma json_prefixes_apart:
  "p \<in> set json_prefixes \<Longrightarrow> q \<in> set json_prefixes \<Longrightarrow> prefix q (p @ body) \<Longrightarrow> q = p"
  unfolding json_prefixes_def by (simp, elim disjE; simp)

lemma dataFilter_strips:
  assumes "type = ''json'' \<or> type = ''jsonp''" and "p \<in> set json_prefixes"
  shows "dataFilter (p @ body) type = body"
  using assms strip_prefixes_hit [OF assms(2) json_prefixes_apart [OF assms(2)]]
  by (auto simp: dataFilter_def)

lemma dataFilter_other:
  assumes "\<And>p. p \<in> set json_prefixes \<Longrightarrow> \<not> prefix p data"
  shows "dataFilter data type = data"
  using assms by (simp add: dataFilter_def json_prefixes_def indexOf_0_iff)

section \<open>Properties\<close>

text \<open>Whatever the link, after a parameter has been replaced the new parameter text stands in it,
  and replacing again changes nothing once the old parameter is gone.\<close>

lemma replaceQueryParam_sets_param:
  assumes "CHR ''$'' \<notin> set newParam"
  shows "occurs newParam (replaceQueryParam queryString currentParam newParam)
    \<and> (\<not> occurs currentParam (replaceQueryParam queryString currentParam newParam) \<longrightarrow>
        replaceQueryParam (replaceQueryParam queryString currentParam newParam) currentParam newParam
          = replaceQueryParam queryString currentParam newParam)"
  using replaceQueryParam_occurs [OF assms] by (simp add: replaceQueryParam_stable)

lemma replaceQueryParam_sets_param_witness:
  "occurs ''s_collapsed=true'' (replaceQueryParam ''http://h/p?a=1#'' ''s_collapsed=false'' ''s_collapsed=true'')
   \<and> replaceQueryParam ''http://h/p?a=1#'' ''s_collapsed=false'' ''s_collapsed=true''
       = ''http://h/p?a=1&s_collapsed=true#''"
proof
  show "occurs ''s_collapsed=true'' (replaceQueryParam ''http://h/p?a=1#'' ''s_collapsed=false'' ''s_collapsed=true'')"
    using replaceQueryParam_sets_param [of "''s_collapsed=true''" "''http://h/p?a=1#''" "''s_collapsed=false''"]
    by simp
  show "replaceQueryParam ''http://h/p?a=1#'' ''s_collapsed=false'' ''s_collapsed=true''
       = ''http://h/p?a=1&s_collapsed=true#''" by code_simp
qed

text \<open>Replacing a parameter and then replacing it back gives the link it started from, when the two
  texts occur first at the same place.\<close>

lemma replaceQueryParam_toggles_back:
  assumes "find_sub c (a @ c @ b) = Some (length a)" and "find_sub n (a @ n @ b) = Some (length a)"
    and "CHR ''$'' \<notin> set n" and "CHR ''$'' \<notin> set c"
  shows "replaceQueryParam (replaceQueryParam (a @ c @ b) c n) n c = a @ c @ b"
  using assms by (simp add: replaceQueryParam_at)

lemma replaceQueryParam_toggles_back_witness:
  "replaceQueryParam (replaceQueryParam ''/p?s=false&x=1'' ''s=false'' ''s=true'') ''s=true'' ''s=false''
     = ''/p?s=false&x=1''"
  using replaceQueryParam_toggles_back [of "''s=false''" "''/p?''" "''&x=1''" "''s=true''"] by simp

text \<open>A pagination address of more than 2000 characters is posted: the form goes to the part before
  the question mark and carries exactly the name and value pairs of the query string, and the
  browser does not follow the link.\<close>

lemma long_address_posted:
  assumes "CHR ''?'' \<notin> set base" and "kvs \<noteq> []" and "\<forall>kv \<in> set kvs. plain_pair kv"
    and "length (base @ ''?'' @ join ''&'' (map query_pair kvs)) > 2000"
    and "lookupajax ob \<noteq> Some ''true'' \<or> \<not> lookup_loaded"
  shows "submitPagination lookup_loaded ob (base @ ''?'' @ join ''&'' (map query_pair kvs))
    = (PostForm base kvs, False)"
  using long_post [OF assms(1,4,5)] query_pairs_split [of kvs] assms(2,3) by simp

lemma long_address_posted_witness:
  "submitPagination True \<lparr>lookupajax = None, pagerTag = ''A''\<rparr>
     (replicate 2000 (CHR ''b'') @ ''?'' @ join ''&'' (map query_pair [(''VIEW_INDEX'', ''2''), (''x'', [])]))
   = (PostForm (replicate 2000 (CHR ''b'')) [(''VIEW_INDEX'', ''2''), (''x'', [])], False)"
  by (rule long_address_posted) (simp_all add: plain_pair_def)

text \<open>A posted value stops at its second equals sign: of \<open>k=v=rest\<close> only \<open>v\<close> is sent, so a value
  that holds an equals sign itself does not survive the switch from a link to a form.\<close>

theorem posted_value_truncated:
  assumes "CHR ''?'' \<notin> set base" and "plain_pair (k, v)" and "CHR ''&'' \<notin> set rest"
    and "length (base @ ''?'' @ k @ ''='' @ v @ ''='' @ rest) > 2000"
    and "lookupajax ob \<noteq> Some ''true''"
  shows "submitPagination loaded ob (base @ ''?'' @ k @ ''='' @ v @ ''='' @ rest) = (PostForm base [(k, v)], False)"
proof -
  let ?q = "k @ ''='' @ v @ ''='' @ rest"
  have "split ?q ''&'' = [?q]"
    using assms(2,3) by (intro split_no_sep) (auto simp: plain_pair_def)
  moreover have "hidden_field ?q = [(k, v)]"
    using assms(2) hidden_field_first_two [of k v "''='' @ rest"]
    by (simp add: plain_pair_def split_single)
  ultimately show ?thesis
    using long_post [OF assms(1,4)] assms(5) by simp
qed

theorem posted_value_truncated_witness:
  "submitPagination False \<lparr>lookupajax = None, pagerTag = ''A''\<rparr>
     (replicate 2000 (CHR ''b'') @ ''?'' @ ''f'' @ ''='' @ ''a'' @ ''='' @ ''b'')
   = (PostForm (replicate 2000 (CHR ''b'')) [(''f'', ''a'')], False)"
  by (rule posted_value_truncated) (simp_all add: plain_pair_def)

text \<open>Data of type JSON that arrives with one of the guarding prefixes loses exactly that prefix,
  and data without any of them is passed on unchanged.\<close>

lemma json_guard_stripped:
  "(type = ''json'' \<or> type = ''jsonp'' \<longrightarrow> p \<in> set json_prefixes \<longrightarrow> dataFilter (p @ body) type = body)
   \<and> ((\<forall>p \<in> set json_prefixes. \<not> prefix p data) \<longrightarrow> dataFilter data type = data)"
  using dataFilter_strips dataFilter_other by blast

lemma json_guard_stripped_witness:
  "dataFilter (''for(;;);'' @ ''[1]'') ''json'' = ''[1]'' \<and> dataFilter ''[1]'' ''json'' = ''[1]''"
  using json_guard_stripped [of "''json''" "''for(;;);''" "''[1]''" "''[1]''"]
  by (simp add: json_prefixes_def)

end
