(* ===== verification/Ajax_Areas.thy ===== *)
theory Ajax_Areas
  imports Complex_Main Js_Prelude
begin

text \<open>
  The part of \<open>OfbizUtil.js\<close> that refreshes areas of a page: \<open>ajaxUpdateArea\<close>,
  \<open>ajaxUpdateAreas\<close> with its brace-aware splitting of the area description,
  \<open>ajaxUpdateAreaPeriodic\<close>, \<open>ajaxSubmitRequestUpdateAreas\<close>, \<open>submitFormInBackground\<close>,
  \<open>ajaxSubmitFormUpdateAreas\<close>, the wait spinner and the message box that \<open>showjGrowl\<close> turns into a notification.
  The last three functions assign their handler to one global variable, \<open>updateFunction\<close>, and the answer to a form
  calls whatever is in it by then.  A request is a value
  in the list of pending requests that says which handlers it carries; the server's answer to any
  pending request, in any order, is a step of the relation \<open>page_step\<close>.
\<close>

section \<open>The state of a page\<close>

record viewport =
  bodyWidth :: rat
  winHeight :: rat
  scrollTop :: rat

record spinner =
  spWidth :: rat
  spHeight :: rat
  spLeft :: rat
  spTop :: rat
  spShown :: bool

text \<open>The message box \<open>#content-messages\<close>; \<^const>\<open>None\<close> as its class means that the element has
  no class attribute.\<close>

record message_box =
  boxHtml :: string
  boxClass :: "string list option"
  boxHidden :: bool

record growl =
  growlText :: string
  growlTheme :: string
  growlSticky :: bool

datatype request =
    AreaRequest string string string
  | BareRequest string string
  | LoadRequest string string
  | FormRequest string string

text \<open>What the global variable \<open>updateFunction\<close> holds: the function of a request, of a background submission or
  of a form, with the variables it closes over.\<close>

datatype update_handler =
    Request_Handler string
  | Background_Handler string string
  | Form_Handler string

record page =
  areas :: "string \<Rightarrow> string option"
  spinner :: "spinner option"
  view :: viewport
  messages :: "message_box option"
  mainSection :: bool
  growls :: "growl list"
  pending :: "request list"
  assigned :: "string list"
  update_var :: "update_handler option"

definition set_area :: "string \<Rightarrow> string \<Rightarrow> page \<Rightarrow> page" where
  "set_area a h p =
     (case areas p a of None \<Rightarrow> p | Some _ \<Rightarrow> p\<lparr>areas := (areas p)(a \<mapsto> h)\<rparr>)"

definition send :: "request \<Rightarrow> page \<Rightarrow> page" where
  "send r p = p\<lparr>pending := pending p @ [r]\<rparr>"

section \<open>The wait spinner\<close>

definition waitSpinnerShow :: "page \<Rightarrow> page" where
  "waitSpinnerShow p =
     (case spinner p of
        None \<Rightarrow> p
      | Some sp \<Rightarrow>
          let lookupLeft = bodyWidth (view p) / 2 - spWidth sp / 2;
              lookupTop = (scrollTop (view p) + winHeight (view p) / 2) - spHeight sp / 2
          in p\<lparr>spinner := Some (sp\<lparr>spLeft := lookupLeft, spTop := lookupTop, spShown := True\<rparr>)\<rparr>)"

definition waitSpinnerHide :: "page \<Rightarrow> page" where
  "waitSpinnerHide p = p\<lparr>spinner := map_option (\<lambda>sp. sp\<lparr>spShown := False\<rparr>) (spinner p)\<rparr>"

definition spinner_shown :: "page \<Rightarrow> bool" where
  "spinner_shown p = (case spinner p of None \<Rightarrow> False | Some sp \<Rightarrow> spShown sp)"

section \<open>Updating areas\<close>

definition ajaxUpdateArea :: "string \<Rightarrow> string \<Rightarrow> string \<Rightarrow> page \<Rightarrow> page" where
  "ajaxUpdateArea areaId target targetParams p =
     (if areaId = ''window'' then
        let targetUrl = target @ ''?'' @ replace_first targetParams ''?'' []
        in p\<lparr>assigned := assigned p @ [targetUrl]\<rparr>
      else send (AreaRequest areaId target targetParams) (waitSpinnerShow p))"

text \<open>The expression \<open>/,(?=(?:[^{}]*{[^{}]*})*[^{}]*$)/g\<close> matches a comma when the braces in the
  rest of the text open and close alternately, beginning with an opening one.\<close>

fun flat_braces :: "bool \<Rightarrow> string \<Rightarrow> bool" where
  "flat_braces inside [] = (\<not> inside)"
| "flat_braces inside (c # cs) =
     (if c = CHR ''{'' then \<not> inside \<and> flat_braces True cs
      else if c = CHR ''}'' then inside \<and> flat_braces False cs
      else flat_braces inside cs)"

fun split_areas :: "string \<Rightarrow> string \<Rightarrow> string list" where
  "split_areas cur [] = [rev cur]"
| "split_areas cur (c # cs) =
     (if c = CHR '','' \<and> flat_braces False cs then rev cur # split_areas [] cs
      else split_areas (c # cur) cs)"

fun update_triples :: "string list \<Rightarrow> page \<Rightarrow> page" where
  "update_triples (areaId # target # targetParams # rest) p =
     (let ps = replace_first (replace_first targetParams ''#'' []) ''?'' []
      in update_triples rest (ajaxUpdateArea areaId target ps p))"
| "update_triples _ p = p"

definition ajaxUpdateAreas :: "string \<Rightarrow> page \<Rightarrow> page" where
  "ajaxUpdateAreas areaCsvString p = update_triples (split_areas [] areaCsvString) p"

text \<open>One tick of the timer that \<open>ajaxUpdateAreaPeriodic\<close> starts.\<close>

definition periodicTick :: "string \<Rightarrow> string \<Rightarrow> string \<Rightarrow> page \<Rightarrow> page" where
  "periodicTick areaId target targetParams p = send (AreaRequest areaId target targetParams) p"

text \<open>\<open>success: updateFunction()\<close> calls the function while the options object is built, so the
  areas are requested before the request they are meant to follow, which has no handler left.\<close>

definition ajaxSubmitRequestUpdateAreas :: "string \<Rightarrow> string \<Rightarrow> string \<Rightarrow> page \<Rightarrow> page" where
  "ajaxSubmitRequestUpdateAreas target targetParams areaCsvString p =
     send (BareRequest target targetParams)
       (ajaxUpdateAreas areaCsvString (p\<lparr>update_var := Some (Request_Handler areaCsvString)\<rparr>))"

text \<open>\<open>load\<close> requests the text of an element that is there.  \<open>submitFormInBackground\<close> calls its handler at once, too.\<close>

definition load_area :: "string \<Rightarrow> string \<Rightarrow> page \<Rightarrow> page" where
  "load_area areaId url p = (if areas p areaId = None then p else send (LoadRequest areaId url) p)"

definition submitFormInBackground :: "string \<Rightarrow> string \<Rightarrow> string \<Rightarrow> string \<Rightarrow> page \<Rightarrow> page" where
  "submitFormInBackground action data areaId submitUrl p =
     send (BareRequest action data)
       (load_area areaId submitUrl (p\<lparr>update_var := Some (Background_Handler areaId submitUrl)\<rparr>))"

section \<open>Messages\<close>

definition addClass :: "string \<Rightarrow> string list option \<Rightarrow> string list option" where
  "addClass c cls =
     (case cls of None \<Rightarrow> Some [c] | Some cs \<Rightarrow> Some (if c \<in> set cs then cs else cs @ [c]))"

definition removeClass :: "string \<Rightarrow> string list option \<Rightarrow> string list option" where
  "removeClass c cls = map_option (filter (\<lambda>d. d \<noteq> c)) cls"

fun class_event :: "string \<Rightarrow> string list \<Rightarrow> string" where
  "class_event ev [] = ev"
| "class_event ev (c # cs) =
     class_event (if c = ''eventMessage'' \<or> c = ''errorMessage'' then c @ ''JGrowl'' else ev) cs"

text \<open>The text of the box is taken as it was put in; a browser may give it back with its mark-up in another form.\<close>

definition showjGrowl :: "page \<Rightarrow> page result" where
  "showjGrowl p =
     (case messages p of
        None \<Rightarrow> Inr p
      | Some b \<Rightarrow>
          (case boxClass b of
             None \<Rightarrow> Inl TypeError
           | Some classList \<Rightarrow>
               let errMessage = boxHtml b;
                   classEvent = class_event [] classList;
                   stickyValue = (classEvent = ''errorMessageJGrowl'')
               in if errMessage = [] then Inr (p\<lparr>messages := Some (b\<lparr>boxHidden := True\<rparr>)\<rparr>)
                  else Inr (p\<lparr>growls := growls p
                                @ [\<lparr>growlText = errMessage, growlTheme = classEvent,
                                    growlSticky = stickyValue\<rparr>],
                             messages := None\<rparr>)))"

section \<open>Submitting a form\<close>

text \<open>The fields of the server's answer that the handler looks at.  A list joined to a text has commas between its
  parts; a list given to \<open>html\<close> is appended part by part.\<close>

record answer =
  errorList :: "string list option"
  error :: "string option"

definition ensure_box :: "page \<Rightarrow> page" where
  "ensure_box p =
     (if messages p = None \<and> mainSection p
      then p\<lparr>messages := Some \<lparr>boxHtml = [], boxClass = None, boxHidden = False\<rparr>\<rparr> else p)"

definition error_text :: "answer \<Rightarrow> string" where
  "error_text a =
     (case (errorList a, error a) of
        (Some l, Some e) \<Rightarrow> join '','' l @ '' '' @ e
      | (Some l, None) \<Rightarrow> concat l
      | (None, Some e) \<Rightarrow> e
      | (None, None) \<Rightarrow> [])"

text \<open>The handler of a form.\<close>

definition updateFunction :: "string \<Rightarrow> answer \<Rightarrow> page \<Rightarrow> page result" where
  "updateFunction areaCsvString data p =
     and_then
       (if errorList data \<noteq> None \<or> error data \<noteq> None then
          let p1 = ensure_box p;
              p2 = p1\<lparr>messages := map_option (\<lambda>b. b\<lparr>boxClass := addClass ''errorMessage'' (boxClass b),
                                                  boxHtml := error_text data\<rparr>) (messages p1)\<rparr>
          in showjGrowl p2
        else
          let p1 = p\<lparr>messages := map_option (\<lambda>b. b\<lparr>boxHtml := [],
                                                 boxClass := removeClass ''errorMessage'' (boxClass b),
                                                 boxHidden := False\<rparr>) (messages p)\<rparr>
          in Inr (ajaxUpdateAreas areaCsvString p1))
       (\<lambda>p3. Inr (waitSpinnerHide p3))"

definition ajaxSubmitFormUpdateAreas :: "string \<Rightarrow> string \<Rightarrow> string \<Rightarrow> page \<Rightarrow> page" where
  "ajaxSubmitFormUpdateAreas action data areaCsvString p =
     send (FormRequest action data) ((waitSpinnerShow p)\<lparr>update_var := Some (Form_Handler areaCsvString)\<rparr>)"

text \<open>The answer to a form calls the function that the global variable holds at that moment.\<close>

definition call_updateFunction :: "answer \<Rightarrow> page \<Rightarrow> page result" where
  "call_updateFunction data p =
     (case update_var p of
        None \<Rightarrow> Inl ReferenceError
      | Some (Request_Handler csv) \<Rightarrow> Inr (ajaxUpdateAreas csv p)
      | Some (Background_Handler a url) \<Rightarrow> Inr (load_area a url p)
      | Some (Form_Handler csv) \<Rightarrow> updateFunction csv data p)"

section \<open>Answers from the server\<close>

text \<open>The handlers of \<open>ajaxUpdateArea\<close> and of the periodic tick.\<close>

definition area_success :: "string \<Rightarrow> string \<Rightarrow> page \<Rightarrow> page" where
  "area_success areaId data p = waitSpinnerHide (set_area areaId data p)"

definition area_error :: "page \<Rightarrow> page" where
  "area_error p = waitSpinnerHide p"

definition remove_nth :: "nat \<Rightarrow> 'a list \<Rightarrow> 'a list" where
  "remove_nth i xs = take i xs @ drop (Suc i) xs"

definition take_request :: "nat \<Rightarrow> page \<Rightarrow> page" where
  "take_request i p = p\<lparr>pending := remove_nth i (pending p)\<rparr>"

text \<open>The answer to the request at a position of the pending list.  The flag records whether a form request has
  failed, for which \<open>ajaxSubmitFormUpdateAreas\<close> installs no handler, or has lost its handler while it was pending.\<close>

inductive answer_step :: "nat \<Rightarrow> page \<times> bool \<Rightarrow> page \<times> bool \<Rightarrow> bool" where
  area_ok: "i < length (pending p) \<Longrightarrow> pending p ! i = AreaRequest a t ps \<Longrightarrow>
    answer_step i (p, f) (area_success a html (take_request i p), f)"
| area_fail: "i < length (pending p) \<Longrightarrow> pending p ! i = AreaRequest a t ps \<Longrightarrow>
    answer_step i (p, f) (area_error (take_request i p), f)"
| bare_done: "i < length (pending p) \<Longrightarrow> pending p ! i = BareRequest t ps \<Longrightarrow>
    answer_step i (p, f) (take_request i p, f)"
| load_ok: "i < length (pending p) \<Longrightarrow> pending p ! i = LoadRequest a url \<Longrightarrow>
    answer_step i (p, f) (set_area a html (take_request i p), f)"
| load_fail: "i < length (pending p) \<Longrightarrow> pending p ! i = LoadRequest a url \<Longrightarrow>
    answer_step i (p, f) (take_request i p, f)"
| form_ok: "i < length (pending p) \<Longrightarrow> pending p ! i = FormRequest act d \<Longrightarrow>
    call_updateFunction ans (take_request i p) = Inr q \<Longrightarrow> answer_step i (p, f) (q, f)"
| form_fail: "i < length (pending p) \<Longrightarrow> pending p ! i = FormRequest act d \<Longrightarrow>
    answer_step i (p, f) (take_request i p, True)"

definition form_pending :: "page \<Rightarrow> bool" where
  "form_pending p \<longleftrightarrow> (\<exists>act d. FormRequest act d \<in> set (pending p))"

text \<open>Every way a page moves on: a call of one of the functions above, or an answer.\<close>

inductive page_step :: "page \<times> bool \<Rightarrow> page \<times> bool \<Rightarrow> bool" where
  update_area: "page_step (p, f) (ajaxUpdateArea a t ps p, f)"
| update_areas: "page_step (p, f) (ajaxUpdateAreas csv p, f)"
| tick: "page_step (p, f) (periodicTick a t ps p, f)"
| submit_request: "page_step (p, f) (ajaxSubmitRequestUpdateAreas t ps csv p, f \<or> form_pending p)"
| submit_background: "page_step (p, f) (submitFormInBackground act d a url p, f \<or> form_pending p)"
| submit_form: "page_step (p, f) (ajaxSubmitFormUpdateAreas act d csv p, f)"
| answered: "answer_step i s t \<Longrightarrow> page_step s t"

inductive page_reach :: "page \<times> bool \<Rightarrow> page \<times> bool \<Rightarrow> bool" where
  here: "page_reach s s"
| there: "page_reach s t \<Longrightarrow> page_step t u \<Longrightarrow> page_reach s u"

inductive_cases page_stepE: "page_step (p, f) (q, g)"
inductive_cases answer_stepE: "answer_step i (p, f) (q, g)"

section \<open>Splitting the area description\<close>

text \<open>A field of the description: its braces alternate, and its own commas stand inside braces.\<close>

fun commas_guarded :: "string \<Rightarrow> bool" where
  "commas_guarded [] = True"
| "commas_guarded (c # cs) = ((c = CHR '','' \<longrightarrow> \<not> flat_braces False cs) \<and> commas_guarded cs)"

definition area_field :: "string \<Rightarrow> bool" where
  "area_field x \<longleftrightarrow> flat_braces False x \<and> commas_guarded x"

lemma flat_not_inside: "flat_braces False b \<Longrightarrow> \<not> flat_braces True b"
  by (induction b) (auto split: if_splits)

lemma flat_braces_append:
  "flat_braces False b \<Longrightarrow> flat_braces q (a @ b) = flat_braces q a"
proof (induction a arbitrary: q)
  case Nil
  then show ?case using flat_not_inside by (cases q) auto
qed simp

lemma flat_braces_comma [simp]: "flat_braces q (CHR '','' # b) = flat_braces q b"
  by simp

lemma split_areas_plain: "commas_guarded x \<Longrightarrow> split_areas cur x = [rev cur @ x]"
  by (induction x arbitrary: cur) auto

lemma split_areas_first:
  "commas_guarded x \<Longrightarrow> flat_braces False rest \<Longrightarrow>
   split_areas cur (x @ CHR '','' # rest) = (rev cur @ x) # split_areas [] rest"
proof (induction x arbitrary: cur)
  case (Cons c cs)
  have "flat_braces False (cs @ CHR '','' # rest) = flat_braces False cs"
    using Cons.prems(2) by (intro flat_braces_append) simp
  with Cons show ?case by simp
qed simp

lemma flat_braces_join:
  "(\<And>x. x \<in> set xs \<Longrightarrow> flat_braces False x) \<Longrightarrow> flat_braces False (join '','' xs)"
proof (induction xs)
  case (Cons x xs)
  then have "flat_braces False (join '','' xs)" and "flat_braces False x" by auto
  then show ?case by (cases "xs = []") (simp_all add: join_Cons flat_braces_append)
qed simp

lemma split_areas_join:
  "xs \<noteq> [] \<Longrightarrow> (\<And>x. x \<in> set xs \<Longrightarrow> area_field x) \<Longrightarrow> split_areas [] (join '','' xs) = xs"
proof (induction xs)
  case (Cons x xs)
  have x: "commas_guarded x" and flat: "flat_braces False (join '','' xs)"
    using Cons.prems(2) by (auto simp: area_field_def intro!: flat_braces_join)
  show ?case
  proof (cases "xs = []")
    case True
    with x show ?thesis by (simp add: split_areas_plain)
  next
    case False
    with Cons.IH Cons.prems(2) x flat show ?thesis
      by (simp add: join_Cons split_areas_first)
  qed
qed simp

definition area_params :: "string \<Rightarrow> string" where
  "area_params ps = replace_first (replace_first ps ''#'' []) ''?'' []"

fun update_listed :: "(string \<times> string \<times> string) list \<Rightarrow> page \<Rightarrow> page" where
  "update_listed [] p = p"
| "update_listed ((a, t, ps) # ts) p = update_listed ts (ajaxUpdateArea a t (area_params ps) p)"

lemma update_triples_listed:
  "update_triples (concat (map (\<lambda>(a, t, ps). [a, t, ps]) ts)) p = update_listed ts p"
  by (induction ts p rule: update_listed.induct) (auto simp: area_params_def Let_def)

lemma ajaxUpdateAreas_listed:
  assumes "ts \<noteq> []"
    and "\<forall>(a, t, ps) \<in> set ts. area_field a \<and> area_field t \<and> area_field ps"
  shows "ajaxUpdateAreas (join '','' (concat (map (\<lambda>(a, t, ps). [a, t, ps]) ts))) p
           = update_listed ts p"
proof -
  let ?fs = "concat (map (\<lambda>(a, t, ps). [a, t, ps]) ts)"
  have "split_areas [] (join '','' ?fs) = ?fs"
    using assms by (intro split_areas_join) (cases ts, auto)
  then show ?thesis by (simp add: ajaxUpdateAreas_def update_triples_listed)
qed

lemma spinner_shown_frame [simp]:
  "spinner_shown (send r p) = spinner_shown p"
  "spinner_shown (take_request i p) = spinner_shown p"
  "pending (waitSpinnerShow p) = pending p"
  "pending (send r p) = pending p @ [r]"
  by (simp_all add: spinner_shown_def send_def take_request_def waitSpinnerShow_def Let_def
      split: option.splits)

lemma pending_update_area [simp]:
  "pending (ajaxUpdateArea a t ps p) =
     (if a = ''window'' then pending p else pending p @ [AreaRequest a t ps])"
  by (simp add: ajaxUpdateArea_def)

lemma update_listed_pending:
  "\<forall>x \<in> set ts. fst x \<noteq> ''window'' \<Longrightarrow>
   pending (update_listed ts p) = pending p @ map (\<lambda>(a, t, ps). AreaRequest a t (area_params ps)) ts"
  by (induction ts p rule: update_listed.induct) auto

section \<open>The spinner invariant\<close>

text \<open>A visible spinner means that some request that will hide it is still on its way; for the answer to a form
  this takes the handler of a form in the global variable.\<close>

fun hides_spinner :: "request \<Rightarrow> bool" where
  "hides_spinner (AreaRequest _ _ _) = True"
| "hides_spinner (BareRequest _ _) = False"
| "hides_spinner (LoadRequest _ _) = False"
| "hides_spinner (FormRequest _ _) = True"

definition form_handled :: "page \<Rightarrow> bool" where
  "form_handled p \<longleftrightarrow> (form_pending p \<longrightarrow> (\<exists>csv. update_var p = Some (Form_Handler csv)))"

definition spinner_ok :: "page \<Rightarrow> bool" where
  "spinner_ok p \<longleftrightarrow> form_handled p \<and> (spinner_shown p \<longrightarrow> (\<exists>r \<in> set (pending p). hides_spinner r))"

lemma set_remove_nth:
  "i < length xs \<Longrightarrow> set xs = insert (xs ! i) (set (remove_nth i xs))"
  by (subst id_take_nth_drop [of i xs]) (auto simp: remove_nth_def)

lemma take_request_simps [simp]: "update_var (take_request i p) = update_var p" "areas (take_request i p) = areas p"
  by (simp_all add: take_request_def)

lemma form_pendingI: "i < length (pending p) \<Longrightarrow> pending p ! i = FormRequest act d \<Longrightarrow> form_pending p"
  unfolding form_pending_def by (metis nth_mem)

lemma take_request_forms: "form_pending (take_request i p) \<Longrightarrow> form_pending p"
  by (auto simp: form_pending_def take_request_def remove_nth_def dest: in_set_takeD in_set_dropD)

lemma taken_handled: "form_handled p \<Longrightarrow> form_handled (take_request i p)"
  by (auto simp: form_handled_def dest: take_request_forms)

lemma spinner_hidden [simp]: "\<not> spinner_shown (waitSpinnerHide p)"
  by (simp add: spinner_shown_def waitSpinnerHide_def split: option.splits)

lemma hide_simps [simp]: "update_var (waitSpinnerHide p) = update_var p" "pending (waitSpinnerHide p) = pending p"
  by (simp_all add: waitSpinnerHide_def)

lemma var_simps [simp]:
  "spinner_shown (p\<lparr>update_var := h\<rparr>) = spinner_shown p" "form_pending (p\<lparr>update_var := h\<rparr>) = form_pending p"
  by (simp_all add: spinner_shown_def form_pending_def)

lemma send_simps [simp]: "update_var (send r p) = update_var p"
  by (simp add: send_def)

lemma send_forms: "form_pending (send r p) \<longleftrightarrow> form_pending p \<or> (\<exists>act d. r = FormRequest act d)"
  by (auto simp: form_pending_def send_def)

lemma set_area_simps [simp]:
  "spinner_shown (set_area a h p) = spinner_shown p" "pending (set_area a h p) = pending p"
  "update_var (set_area a h p) = update_var p"
  by (simp_all add: set_area_def spinner_shown_def split: option.splits)

lemma show_simps [simp]: "update_var (waitSpinnerShow p) = update_var p"
  by (simp add: waitSpinnerShow_def Let_def split: option.splits)

lemma update_area_simps [simp]:
  "update_var (ajaxUpdateArea a t ps p) = update_var p" "form_pending (ajaxUpdateArea a t ps p) = form_pending p"
  by (auto simp: ajaxUpdateArea_def form_pending_def)

lemma update_areas_simps [simp]:
  "update_var (ajaxUpdateAreas csv p) = update_var p" "form_pending (ajaxUpdateAreas csv p) = form_pending p"
proof -
  have "update_var (update_triples xs p) = update_var p \<and> form_pending (update_triples xs p) = form_pending p" for xs p
    by (induction xs p rule: update_triples.induct) (simp_all add: Let_def)
  then show "update_var (ajaxUpdateAreas csv p) = update_var p" "form_pending (ajaxUpdateAreas csv p) = form_pending p"
    by (simp_all add: ajaxUpdateAreas_def)
qed

lemma load_area_simps [simp]:
  "update_var (load_area a url p) = update_var p" "form_pending (load_area a url p) = form_pending p"
  "spinner_shown (load_area a url p) = spinner_shown p" "set (pending p) \<subseteq> set (pending (load_area a url p))"
  by (auto simp: load_area_def send_forms)

lemma spinner_ok_area: "spinner_ok p \<Longrightarrow> spinner_ok (ajaxUpdateArea a t ps p)"
  by (auto simp: spinner_ok_def form_handled_def) (auto simp: ajaxUpdateArea_def spinner_shown_def)

lemma spinner_ok_areas: "spinner_ok p \<Longrightarrow> spinner_ok (ajaxUpdateAreas csv p)"
proof -
  have "spinner_ok p \<Longrightarrow> spinner_ok (update_triples xs p)" for xs p
    by (induction xs p rule: update_triples.induct) (simp_all add: spinner_ok_area Let_def)
  then show "spinner_ok p \<Longrightarrow> ?thesis" by (simp add: ajaxUpdateAreas_def)
qed

lemma spinner_ok_send: "spinner_ok p \<Longrightarrow> \<not> (\<exists>act d. r = FormRequest act d) \<Longrightarrow> spinner_ok (send r p)"
  by (auto simp: spinner_ok_def form_handled_def send_forms)

lemma spinner_ok_var: "spinner_ok p \<Longrightarrow> \<not> form_pending p \<Longrightarrow> spinner_ok (p\<lparr>update_var := h\<rparr>)"
  by (simp add: spinner_ok_def form_handled_def)

lemma updateFunction_hides: "updateFunction csv ans p = Inr q \<Longrightarrow> \<not> spinner_shown q"
  by (auto simp: updateFunction_def and_then_Inr)

lemma showjGrowl_var: "showjGrowl p = Inr q \<Longrightarrow> update_var q = update_var p"
  by (auto simp: showjGrowl_def Let_def split: option.splits if_splits)

lemma updateFunction_var: "updateFunction csv ans p = Inr q \<Longrightarrow> update_var q = update_var p"
  by (auto simp: updateFunction_def and_then_Inr Let_def ensure_box_def dest!: showjGrowl_var split: if_splits)

text \<open>The handler of a form never throws: the message box has a class by the time it is looked at.\<close>

lemma updateFunction_total: "\<exists>q. updateFunction csv ans p = Inr q"
  by (auto simp: updateFunction_def Let_def showjGrowl_def addClass_def split: option.splits)

lemma answer_hides:
  assumes "answer_step i (p, f) (q, False)" "hides_spinner (pending p ! i)" "form_handled p"
  shows "\<not> spinner_shown q"
  using assms(1)
proof cases
  case (form_ok act d ans)
  have "form_pending p" using form_ok by (auto intro: form_pendingI)
  then obtain csv where "update_var p = Some (Form_Handler csv)" using assms(3) by (auto simp: form_handled_def)
  with form_ok show ?thesis by (auto simp: call_updateFunction_def dest: updateFunction_hides)
qed (use assms(2) in \<open>simp_all add: area_success_def area_error_def\<close>)

lemma answer_handled:
  assumes "answer_step i (p, f) (q, False)" "form_handled p"
  shows "form_handled q"
  using assms(1)
proof cases
  case (form_ok act d ans)
  have "form_pending p" using form_ok by (auto intro: form_pendingI)
  then obtain csv where "update_var p = Some (Form_Handler csv)" using assms(2) by (auto simp: form_handled_def)
  moreover from this form_ok have "update_var q = update_var p"
    by (auto simp: call_updateFunction_def dest: updateFunction_var)
  ultimately show ?thesis by (simp add: form_handled_def)
qed (use taken_handled [OF assms(2), of i] in \<open>simp_all add: area_success_def area_error_def form_handled_def form_pending_def\<close>)

lemma answer_other:
  assumes "answer_step i (p, f) (q, False)" "\<not> hides_spinner (pending p ! i)" "i < length (pending p)"
  shows "spinner_shown q = spinner_shown p \<and> set (pending p) = insert (pending p ! i) (set (pending q))"
  using assms(1)
proof cases
  case (form_ok act d ans)
  then show ?thesis using assms(2) by simp
qed (use assms(2) set_remove_nth [OF assms(3)] in \<open>simp_all add: take_request_def, simp_all add: spinner_shown_def\<close>)

lemma answer_index: "answer_step i (p, f) (q, g) \<Longrightarrow> i < length (pending p) \<and> (f \<longrightarrow> g)"
  by (erule answer_stepE) auto

lemma answer_ok:
  assumes "answer_step i (p, f) (q, False)" "spinner_ok p"
  shows "spinner_ok q"
proof (cases "hides_spinner (pending p ! i)")
  case True
  then show ?thesis using answer_hides [OF assms(1) True] answer_handled [OF assms(1)] assms(2) by (simp add: spinner_ok_def)
next
  case False
  then show ?thesis
    using answer_other [OF assms(1) False] answer_index [OF assms(1)] answer_handled [OF assms(1)] assms(2)
    by (auto simp: spinner_ok_def)
qed

lemma page_step_ok: "page_step (p, f) (q, False) \<Longrightarrow> \<not> f \<and> (spinner_ok p \<longrightarrow> spinner_ok q)"
proof (erule page_stepE, goal_cases)
  case (7 i)
  then show ?case using answer_ok answer_index by blast
qed (auto simp: spinner_ok_area spinner_ok_areas spinner_ok_send spinner_ok_var periodicTick_def
      ajaxSubmitRequestUpdateAreas_def submitFormInBackground_def load_area_def,
    auto simp: spinner_ok_def form_handled_def ajaxSubmitFormUpdateAreas_def)

lemma page_reach_ok:
  assumes "page_reach s t" and "spinner_ok (fst s)" and "\<not> snd t"
  shows "spinner_ok (fst t)"
  using assms
proof (induction rule: page_reach.induct)
  case (there s t u)
  then show ?case using page_step_ok [of "fst t" "snd t" "fst u"] by (cases t; cases u) auto
qed simp

section \<open>Properties\<close>

lemma update_listed_fold:
  "update_listed ts p = fold (\<lambda>(a, t, ps). ajaxUpdateArea a t (area_params ps)) ts p"
  by (induction ts p rule: update_listed.induct) auto

definition blank_page :: page where
  "blank_page =
     \<lparr>areas = (\<lambda>a. if a = ''list'' then Some [] else None),
      spinner = Some \<lparr>spWidth = 40, spHeight = 20, spLeft = 0, spTop = 0, spShown = False\<rparr>,
      view = \<lparr>bodyWidth = 800, winHeight = 600, scrollTop = 0\<rparr>,
      messages = None, mainSection = True, growls = [], pending = [], assigned = [], update_var = None\<rparr>"

text \<open>C8: An area description made by joining area, target and parameter fields with commas is
  taken apart into exactly those fields, even when a parameter holds commas inside braces, and
  each area is updated once, in order, with the first hash and the first question mark removed
  from its parameters.\<close>

theorem area_description_roundtrip:
  assumes "ts \<noteq> []"
    and "\<forall>(a, t, ps) \<in> set ts. area_field a \<and> area_field t \<and> area_field ps"
  shows "ajaxUpdateAreas (join '','' (concat (map (\<lambda>(a, t, ps). [a, t, ps]) ts))) p
           = fold (\<lambda>(a, t, ps). ajaxUpdateArea a t (area_params ps)) ts p"
  using ajaxUpdateAreas_listed [OF assms] by (simp add: update_listed_fold)

theorem area_description_roundtrip_witness:
  "ajaxUpdateAreas ''list,ListItems,?ids={1,2}&page=3,window,main,a=1'' blank_page
     = ajaxUpdateArea ''window'' ''main'' ''a=1''
         (ajaxUpdateArea ''list'' ''ListItems'' ''ids={1,2}&page=3'' blank_page)"
  using area_description_roundtrip
    [of "[(''list'', ''ListItems'', ''?ids={1,2}&page=3''), (''window'', ''main'', ''a=1'')]" blank_page]
  by (auto simp: area_field_def area_params_def replace_first_def)

text \<open>C12: Take any page with a hidden spinner on which no form request is pending, and any run of calls and answers in
  which no form request fails and no other function replaces \<open>updateFunction\<close> while a form request is pending: when
  the spinner is visible, some pending request can be answered, and every answer to it hides the spinner, but for
  the failure of a form request.\<close>

theorem spinner_never_orphaned:
  assumes "page_reach (p, False) (q, False)" and "\<not> spinner_shown p" and "\<not> form_pending p" and "spinner_shown q"
  shows "\<exists>i < length (pending q). (\<exists>q'. answer_step i (q, False) (q', False))
    \<and> (\<forall>q'. answer_step i (q, False) (q', False) \<longrightarrow> \<not> spinner_shown q')"
proof -
  have "spinner_ok p" using assms(2,3) by (simp add: spinner_ok_def form_handled_def)
  then have q: "spinner_ok q" using page_reach_ok [OF assms(1)] by simp
  then obtain i where i: "i < length (pending q)" "hides_spinner (pending q ! i)"
    using assms(4) by (auto simp: spinner_ok_def in_set_conv_nth)
  have handled: "form_handled q" using q by (simp add: spinner_ok_def)
  have "\<exists>q'. answer_step i (q, False) (q', False)"
  proof (cases "pending q ! i")
    case (FormRequest act d)
    then have "form_pending q" using i(1) by (auto intro: form_pendingI)
    then obtain csv where "update_var q = Some (Form_Handler csv)" using handled by (auto simp: form_handled_def)
    then obtain q' where "call_updateFunction \<lparr>errorList = None, error = None\<rparr> (take_request i q) = Inr q'"
      using updateFunction_total [of csv "\<lparr>errorList = None, error = None\<rparr>" "take_request i q"]
      by (auto simp: call_updateFunction_def)
    then show ?thesis using answer_step.form_ok [OF i(1) FormRequest] by blast
  next
    case (AreaRequest a t ps)
    then show ?thesis using answer_step.area_fail [OF i(1)] by blast
  qed (use i(2) in simp_all)
  then show ?thesis using i answer_hides [OF _ i(2) handled] by blast
qed

theorem spinner_never_orphaned_witness:
  "spinner_shown (ajaxSubmitFormUpdateAreas ''save'' [] ''list,t,p'' blank_page)
   \<and> (\<exists>i < length (pending (ajaxSubmitFormUpdateAreas ''save'' [] ''list,t,p'' blank_page)).
        \<exists>q'. answer_step i (ajaxSubmitFormUpdateAreas ''save'' [] ''list,t,p'' blank_page, False) (q', False) \<and> \<not> spinner_shown q')"
proof -
  let ?q = "ajaxSubmitFormUpdateAreas ''save'' [] ''list,t,p'' blank_page"
  have r: "page_reach (blank_page, False) (?q, False)"
    by (rule page_reach.there [OF page_reach.here page_step.submit_form])
  have h: "\<not> spinner_shown blank_page" "\<not> form_pending blank_page"
    by (simp_all add: spinner_shown_def form_pending_def blank_page_def)
  have s: "spinner_shown ?q"
    by (simp add: ajaxSubmitFormUpdateAreas_def) (simp add: spinner_shown_def blank_page_def waitSpinnerShow_def Let_def)
  show ?thesis using s spinner_never_orphaned [OF r h s] by blast
qed

text \<open>A form request that fails leaves the spinner on the screen with nothing pending that
  would take it away, because the request carries no error handler.\<close>

lemma form_failure_keeps_spinner:
  assumes "spinner p = Some sp"
  shows "page_reach (p, f) (take_request (length (pending p)) (ajaxSubmitFormUpdateAreas act d csv p), True)
    \<and> spinner_shown (take_request (length (pending p)) (ajaxSubmitFormUpdateAreas act d csv p))
    \<and> pending (take_request (length (pending p)) (ajaxSubmitFormUpdateAreas act d csv p)) = pending p"
proof -
  let ?q = "ajaxSubmitFormUpdateAreas act d csv p"
  have q: "pending ?q = pending p @ [FormRequest act d]"
    by (simp add: ajaxSubmitFormUpdateAreas_def)
  have "answer_step (length (pending p)) (?q, f) (take_request (length (pending p)) ?q, True)"
    by (rule answer_step.form_fail) (simp_all add: q)
  moreover have "page_reach (p, f) (?q, f)"
    by (rule page_reach.there [OF page_reach.here page_step.submit_form])
  moreover have "spinner_shown ?q"
    using assms by (simp add: ajaxSubmitFormUpdateAreas_def)
      (simp add: spinner_shown_def waitSpinnerShow_def Let_def)
  moreover have "pending (take_request (length (pending p)) ?q) = pending p"
    by (simp add: take_request_def remove_nth_def q)
  ultimately show ?thesis
    by (metis page_reach.there page_step.answered spinner_shown_frame(2))
qed

lemma form_failure_keeps_spinner_witness:
  "spinner_shown (take_request 0 (ajaxSubmitFormUpdateAreas ''save'' [] ''list,t,p'' blank_page))"
proof -
  have "spinner blank_page = Some (the (spinner blank_page))" and "pending blank_page = []"
    by (simp_all add: blank_page_def)
  then show ?thesis
    using form_failure_keeps_spinner [of blank_page "the (spinner blank_page)" False "''save''" "[]" "''list,t,p''"]
    by simp
qed

text \<open>A request that is submitted while a form request is pending takes the handler of the form away: the answer to
  the form runs the function of the request, and the spinner stays on the screen with nothing pending.\<close>

lemma form_handler_replaced:
  assumes "spinner p = Some sp" "pending p = []"
  shows "\<exists>q. call_updateFunction ans (take_request 0 (ajaxSubmitRequestUpdateAreas t ps [] (ajaxSubmitFormUpdateAreas act d csv p))) = Inr q
    \<and> spinner_shown q \<and> pending q = [BareRequest t ps]"
  using assms
  by (simp add: call_updateFunction_def ajaxSubmitRequestUpdateAreas_def ajaxSubmitFormUpdateAreas_def ajaxUpdateAreas_def
      send_def take_request_def remove_nth_def waitSpinnerShow_def spinner_shown_def Let_def)

text \<open>Of two forms submitted one after the other, both answers update the areas of the second.\<close>

lemma second_form_takes_over:
  "call_updateFunction ans (take_request i (ajaxSubmitFormUpdateAreas act' d' csv' (ajaxSubmitFormUpdateAreas act d csv p)))
    = updateFunction csv' ans (take_request i (ajaxSubmitFormUpdateAreas act' d' csv' (ajaxSubmitFormUpdateAreas act d csv p)))"
  by (simp add: call_updateFunction_def ajaxSubmitFormUpdateAreas_def)

text \<open>A request submitted to update areas afterwards is sent after the requests that fetch the
  areas, so the areas are fetched before the server has seen the change.\<close>

lemma submit_request_overtaken:
  assumes "ts \<noteq> []"
    and "\<forall>(a, t, ps) \<in> set ts. area_field a \<and> area_field t \<and> area_field ps"
    and "\<forall>x \<in> set ts. fst x \<noteq> ''window''"
  shows "pending (ajaxSubmitRequestUpdateAreas target params
            (join '','' (concat (map (\<lambda>(a, t, ps). [a, t, ps]) ts))) p)
    = pending p @ map (\<lambda>(a, t, ps). AreaRequest a t (area_params ps)) ts @ [BareRequest target params]"
  using ajaxUpdateAreas_listed [OF assms(1,2)] update_listed_pending [OF assms(3)]
  by (simp add: ajaxSubmitRequestUpdateAreas_def)

lemma submit_request_overtaken_witness:
  "pending (ajaxSubmitRequestUpdateAreas ''deleteItem'' ''id=7'' ''list,ListItems,page=3'' blank_page)
     = [AreaRequest ''list'' ''ListItems'' ''page=3'', BareRequest ''deleteItem'' ''id=7'']"
  using submit_request_overtaken
    [of "[(''list'', ''ListItems'', ''page=3'')]" "''deleteItem''" "''id=7''" blank_page]
  by (auto simp: area_field_def area_params_def replace_first_def blank_page_def)

lemma class_event_error:
  "''eventMessage'' \<notin> set cs \<Longrightarrow> ''errorMessage'' \<in> set cs \<or> ev = ''errorMessageJGrowl'' \<Longrightarrow>
   class_event ev cs = ''errorMessageJGrowl''"
  by (induction cs arbitrary: ev) auto

text \<open>C40: When the server reports an error, the page shows its text as a sticky error notification,
  takes the message box away, requests no area and hides the spinner.\<close>

theorem form_error_notified:
  assumes "errorList ans \<noteq> None \<or> error ans \<noteq> None" and "error_text ans \<noteq> []"
    and "messages (ensure_box p) = Some b" and "''eventMessage'' \<notin> set (the (addClass ''errorMessage'' (boxClass b)))"
  shows "\<exists>q. updateFunction csv ans p = Inr q \<and> messages q = None \<and> pending q = pending p
    \<and> \<not> spinner_shown q
    \<and> growls q = growls p @ [\<lparr>growlText = error_text ans, growlTheme = ''errorMessageJGrowl'',
                              growlSticky = True\<rparr>]"
proof -
  obtain cs where cs: "addClass ''errorMessage'' (boxClass b) = Some cs" and err: "''errorMessage'' \<in> set cs"
    by (cases "boxClass b") (auto simp: addClass_def)
  have "class_event [] cs = ''errorMessageJGrowl''"
    using assms(4) cs err by (intro class_event_error) auto
  moreover have "pending (ensure_box p) = pending p" and "growls (ensure_box p) = growls p"
    by (simp_all add: ensure_box_def)
  ultimately show ?thesis
    using assms(1-3) cs
    by (auto simp: updateFunction_def showjGrowl_def Let_def waitSpinnerHide_def spinner_shown_def
        split: option.splits)
qed

theorem form_error_notified_witness:
  "\<exists>q. updateFunction ''list,t,p'' \<lparr>errorList = None, error = Some ''no stock''\<rparr> blank_page = Inr q
     \<and> messages q = None \<and> pending q = [] \<and> \<not> spinner_shown q
     \<and> growls q = [\<lparr>growlText = ''no stock'', growlTheme = ''errorMessageJGrowl'', growlSticky = True\<rparr>]"
  using form_error_notified [of "\<lparr>errorList = None, error = Some ''no stock''\<rparr>" blank_page
      "\<lparr>boxHtml = [], boxClass = None, boxHidden = False\<rparr>" "''list,t,p''"]
  by (simp add: error_text_def ensure_box_def blank_page_def addClass_def)

end
