(* ===== verification/Page_Dom.thy ===== *)
theory Page_Dom
  imports Js_Prelude
begin

text \<open>
  The elements of a page, by their id, as the components that show, hide and relabel elements see
  them.  The locale \<open>element_store\<close> is the interface those components rely on: reading an element
  back after a write to the same id or to another one.  It is interpreted on the model's own
  document at the end of the theory.
\<close>

record elem =
  className :: string
  elemValue :: string
  elemTitle :: string
  display :: string

type_synonym dom = "string \<Rightarrow> elem option"

definition getElementById :: "dom \<Rightarrow> string \<Rightarrow> elem option" where
  "getElementById d i = d i"

text \<open>A write to the element with an id: without such an element nothing happens, which is how
  jQuery treats an empty set and how the code that tests for \<open>null\<close> behaves.\<close>

definition write_elem :: "(elem \<Rightarrow> elem) \<Rightarrow> string \<Rightarrow> dom \<Rightarrow> dom" where
  "write_elem f i d = d(i := map_option f (d i))"

text \<open>A write through \<open>document.getElementById(i)\<close> without a test: a missing element is \<open>null\<close>, and
  reading a property of \<open>null\<close> throws.\<close>

definition write_found :: "(elem \<Rightarrow> elem) \<Rightarrow> string \<Rightarrow> dom \<Rightarrow> dom result" where
  "write_found f i d = (case getElementById d i of None \<Rightarrow> Inl TypeError | Some _ \<Rightarrow> Inr (write_elem f i d))"

definition show_if :: "bool \<Rightarrow> elem \<Rightarrow> elem" where
  "show_if b e = e\<lparr>display := (if b then ''block'' else ''none'')\<rparr>"

lemma show_if_display [simp]: "display (show_if b e) = (if b then ''block'' else ''none'')"
  by (simp add: show_if_def)

lemma show_if_show_if [simp]: "show_if b (show_if c e) = show_if b e"
  by (simp add: show_if_def)

locale element_store =
  fixes look :: "'d \<Rightarrow> string \<Rightarrow> elem option"
    and alter :: "(elem \<Rightarrow> elem) \<Rightarrow> string \<Rightarrow> 'd \<Rightarrow> 'd"
  assumes look_alter_same: "look (alter f i d) i = map_option f (look d i)"
    and look_alter_other: "i \<noteq> j \<Longrightarrow> look (alter f i d) j = look d j"
begin

lemma look_alter: "look (alter f i d) j = (if i = j then map_option f (look d j) else look d j)"
  using look_alter_same look_alter_other by simp

lemma present_alter: "look (alter f i d) j = None \<longleftrightarrow> look d j = None"
  by (simp add: look_alter)

lemma look_fold_other: "j \<notin> set is \<Longrightarrow> look (fold (alter f) is d) j = look d j"
  by (induction "is" arbitrary: d) (auto simp: look_alter)

text \<open>A pass over a list of ids applies an idempotent change once to every element named.\<close>

lemma look_fold:
  assumes idem: "\<And>e. f (f e) = f e"
  shows "look (fold (alter f) is d) j = (if j \<in> set is then map_option f (look d j) else look d j)"
proof (induction "is" arbitrary: d)
  case (Cons i "is")
  then show ?case
    by (auto simp: look_alter option.map_comp comp_def idem)
qed simp

lemma present_fold: "look (fold (alter f) is d) j = None \<longleftrightarrow> look d j = None"
  by (induction "is" arbitrary: d) (auto simp: present_alter)

end

interpretation page: element_store getElementById write_elem
  by unfold_locales (simp_all add: getElementById_def write_elem_def)

lemma write_elem_apply: "write_elem f i d j = (if i = j then map_option f (d j) else d j)"
  using page.look_alter [of f i d j] by (simp add: getElementById_def)

lemma write_found_Inr: "write_found f i d = Inr d' \<longleftrightarrow> d i \<noteq> None \<and> d' = write_elem f i d"
  by (auto simp: write_found_def getElementById_def split: option.splits)

lemma dom_write_elem [simp]: "Map.dom (write_elem f i d) = Map.dom d"
  by (auto simp: write_elem_apply Map.dom_def)

end
