(* ===== verification/Form_Widgets.thy ===== *)
theory Form_Widgets
  imports Page_Dom
begin

text \<open>
  Small form behaviours: highlighting of selected rows (\<open>highlightRow\<close>, \<open>highlightAllRows\<close>), the
  protection against double posts (\<open>submitFormDisableSubmits\<close> and the timers that undo it) of
  \<open>OfbizUtil.js\<close>, and the menu with an \<open>other\<close> entry of \<open>combobox.js\<close>.
\<close>

section \<open>Highlighting rows\<close>

definition highlight_class :: "bool \<Rightarrow> string \<Rightarrow> string" where
  "highlight_class checked currentClassName =
     (if checked then
        if currentClassName = '''' then ''selected''
        else if currentClassName = ''alternate-row'' then ''alternate-rowSelected''
        else currentClassName
      else
        if currentClassName = ''selected'' then ''''
        else if currentClassName = ''alternate-rowSelected'' then ''alternate-row''
        else currentClassName)"

definition set_highlight :: "bool \<Rightarrow> elem \<Rightarrow> elem" where
  "set_highlight checked e = e\<lparr>className := highlight_class checked (className e)\<rparr>"

definition highlightRow :: "bool \<Rightarrow> string \<Rightarrow> dom \<Rightarrow> dom result" where
  "highlightRow checked rowId d = write_found (set_highlight checked) rowId d"

text \<open>The rows a form refers to: its elements named \<open>_rowSubmit\<dots>\<close>, whose number starts at the
  fourteenth character.\<close>

definition row_ids :: "string \<Rightarrow> string list \<Rightarrow> string list" where
  "row_ids halfRowId names =
     map (\<lambda>n. halfRowId @ substring_from n 13)
       (filter (\<lambda>n. substring n 0 10 = ''_rowSubmit'') names)"

definition highlightAllRows ::
    "bool \<Rightarrow> string \<Rightarrow> string \<Rightarrow> (string \<Rightarrow> string list option) \<Rightarrow> dom \<Rightarrow> dom result" where
  "highlightAllRows checked halfRowId formName forms d =
     (case forms formName of
        None \<Rightarrow> Inl TypeError
      | Some names \<Rightarrow> each_result (highlightRow checked) (row_ids halfRowId names) d)"

lemma highlight_class_idem [simp]:
  "highlight_class c (highlight_class c x) = highlight_class c x"
  by (simp add: highlight_class_def)

lemma highlight_class_inverse:
  "x = [] \<or> x = ''alternate-row'' \<Longrightarrow> highlight_class False (highlight_class True x) = x"
  by (auto simp: highlight_class_def)

lemma set_highlight_idem [simp]: "set_highlight c (set_highlight c e) = set_highlight c e"
  by (simp add: set_highlight_def)

lemma set_highlight_inverse:
  "className e = [] \<or> className e = ''alternate-row'' \<Longrightarrow>
   set_highlight False (set_highlight True e) = e"
  by (simp add: set_highlight_def highlight_class_inverse)

lemma each_highlight:
  "each_result (highlightRow c) is d =
     (if \<forall>i \<in> set is. d i \<noteq> None then Inr (fold (write_elem (set_highlight c)) is d) else Inl TypeError)"
proof (induction "is" arbitrary: d)
  case (Cons i "is")
  show ?case
  proof (cases "d i")
    case None
    then show ?thesis by (simp add: highlightRow_def write_found_def getElementById_def)
  next
    case (Some e)
    have "(\<forall>j \<in> set is. write_elem (set_highlight c) i d j \<noteq> None) = (\<forall>j \<in> set is. d j \<noteq> None)"
      by (simp add: write_elem_apply)
    with Some Cons.IH show ?thesis
      by (simp add: highlightRow_def write_found_def getElementById_def)
  qed
qed simp

lemma highlightAllRows_apply:
  assumes "forms fn = Some names" and "highlightAllRows c h fn forms d = Inr d'"
  shows "d' j = (if j \<in> set (row_ids h names) then map_option (set_highlight c) (d j) else d j)"
  using assms page.look_fold [of "set_highlight c" "row_ids h names" d j]
  by (auto simp: highlightAllRows_def each_highlight getElementById_def split: if_splits)

section \<open>Protection against double posts\<close>

record control =
  ctlType :: string
  ctlName :: string
  ctlDisabled :: bool
  ctlClass :: string
  ctlValue :: string

record form =
  formName :: string
  formAction :: "string option"
  controls :: "control list"

definition submitFormDisableButton :: "string option \<Rightarrow> control \<Rightarrow> control" where
  "submitFormDisableButton action button =
     (let b1 = (if action \<noteq> None \<and> action \<noteq> Some [] then button\<lparr>ctlDisabled := True\<rparr> else button)
      in b1\<lparr>ctlClass := ctlClass b1 @ '' disabled'', ctlValue := ctlValue b1 @ ''*''\<rparr>)"

definition submitFormEnableButton :: "control \<Rightarrow> control" where
  "submitFormEnableButton button =
     button\<lparr>ctlDisabled := False,
            ctlClass := substring (ctlClass button) 0
                          (int (length (ctlClass button)) - int (length '' disabled'')),
            ctlValue := substring (ctlValue button) 0 (int (length (ctlValue button)) - 1)\<rparr>"

text \<open>The page: its forms in document order and the calls that \<open>setTimeout\<close> has scheduled, in the
  order in which they fall due.\<close>

record form_page =
  pageForms :: "form list"
  dueTimers :: "(string \<times> string) list"

definition is_submit :: "control \<Rightarrow> bool" where
  "is_submit c \<longleftrightarrow> ctlType c = ''submit''"

definition disable_submits :: "form \<Rightarrow> form" where
  "disable_submits f =
     f\<lparr>controls := map (\<lambda>c. if is_submit c then submitFormDisableButton (formAction f) c else c)
                     (controls f)\<rparr>"

definition submitFormDisableSubmits :: "nat \<Rightarrow> form_page \<Rightarrow> form_page" where
  "submitFormDisableSubmits k p =
     (let f = pageForms p ! k
      in p\<lparr>pageForms := (pageForms p)[k := disable_submits f],
           dueTimers := dueTimers p @ map (\<lambda>c. (formName f, ctlName c)) (filter is_submit (controls f))\<rparr>)"

text \<open>\<open>document[formName]\<close> is the form with that name when there is exactly one; \<open>form.elements[name]\<close>
  is the control with that name when there is exactly one, \<open>undefined\<close> when there is none and a list
  of controls, which has no class to cut, when there are several.\<close>

definition indices :: "('a \<Rightarrow> bool) \<Rightarrow> 'a list \<Rightarrow> nat list" where
  "indices P xs = filter (\<lambda>i. P (xs ! i)) [0..<length xs]"

definition update_control :: "string \<Rightarrow> (control \<Rightarrow> control) \<Rightarrow> form \<Rightarrow> form result" where
  "update_control n g f =
     (case indices (\<lambda>c. ctlName c = n) (controls f) of
        [i] \<Rightarrow> Inr (f\<lparr>controls := (controls f)[i := g (controls f ! i)]\<rparr>)
      | _ \<Rightarrow> Inl TypeError)"

definition submitFormEnableButtonByName :: "string \<Rightarrow> string \<Rightarrow> form_page \<Rightarrow> form_page result" where
  "submitFormEnableButtonByName fn bn p =
     (case indices (\<lambda>f. formName f = fn) (pageForms p) of
        [k] \<Rightarrow> and_then (update_control bn submitFormEnableButton (pageForms p ! k))
                 (\<lambda>f'. Inr (p\<lparr>pageForms := (pageForms p)[k := f']\<rparr>))
      | _ \<Rightarrow> Inl TypeError)"

fun run_timers :: "(string \<times> string) list \<Rightarrow> form_page \<Rightarrow> form_page result" where
  "run_timers [] p = Inr p"
| "run_timers ((fn, bn) # ts) p =
     and_then (submitFormEnableButtonByName fn bn (p\<lparr>dueTimers := ts\<rparr>)) (run_timers ts)"

lemma enable_disable_button [simp]:
  "submitFormEnableButton (submitFormDisableButton a c) = c\<lparr>ctlDisabled := False\<rparr>"
proof -
  have "substring (s @ t) 0 (int (length (s @ t)) - int (length t)) = s" for s t :: string
    using substring_prefix [of "s @ t" "length s"] by simp
  from this [of "ctlClass c" "'' disabled''"] this [of "ctlValue c" "''*''"]
  show ?thesis
    by (simp add: submitFormEnableButton_def submitFormDisableButton_def Let_def)
qed

lemma disable_button_frame [simp]:
  "ctlName (submitFormDisableButton a c) = ctlName c"
  "ctlType (submitFormDisableButton a c) = ctlType c"
  by (simp_all add: submitFormDisableButton_def Let_def)

lemma set_indices [simp]: "set (indices P xs) = {i. i < length xs \<and> P (xs ! i)}"
  by (auto simp: indices_def)

lemma map_nth_indices: "map ((!) xs) (indices P xs) = filter P xs"
proof -
  have "filter P (map ((!) xs) [0..<length xs]) = map ((!) xs) (indices P xs)"
    by (simp add: indices_def filter_map comp_def)
  then show ?thesis by (simp add: map_nth)
qed

lemma length_indices: "length (indices P xs) = length (filter P xs)"
  using map_nth_indices [of xs P] by (metis length_map)

lemma indices_single_update:
  assumes "indices P xs = [i]"
  shows "xs[i := g (xs ! i)] = map (\<lambda>c. if P c then g c else c) xs"
proof (rule nth_equalityI)
  fix j assume "j < length (xs[i := g (xs ! i)])"
  moreover have "j < length xs \<and> P (xs ! j) \<longleftrightarrow> j = i"
    using assms set_indices [of P xs] by auto
  ultimately show "xs[i := g (xs ! i)] ! j = map (\<lambda>c. if P c then g c else c) xs ! j"
    by (auto simp: nth_list_update)
qed simp

lemma length_filter_count: "length (filter (\<lambda>c. h c = n) xs) = count_list (map h xs) n"
  by (induction xs) auto

lemma indices_count:
  assumes "count_list (map h xs) n = 1"
  obtains i where "indices (\<lambda>c. h c = n) xs = [i]"
proof -
  have "length (indices (\<lambda>c. h c = n) xs) = 1"
    using assms by (simp add: length_indices length_filter_count)
  then show thesis using that by (auto simp: length_Suc_conv)
qed

lemma update_control_once:
  assumes "count_list (map ctlName (controls f)) n = 1"
  shows "update_control n g f =
    Inr (f\<lparr>controls := map (\<lambda>c. if ctlName c = n then g c else c) (controls f)\<rparr>)"
proof -
  obtain i where i: "indices (\<lambda>c. ctlName c = n) (controls f) = [i]"
    using indices_count [OF assms] .
  show ?thesis using indices_single_update [OF i] by (simp add: update_control_def i)
qed

lemma enable_frame [simp]: "ctlName (submitFormEnableButton c) = ctlName c"
  by (simp add: submitFormEnableButton_def)

lemma comp_ctlName [simp]:
  "ctlName \<circ> (\<lambda>c. if P c then submitFormEnableButton c else c) = ctlName"
  "ctlName \<circ> (\<lambda>c. if P c then submitFormDisableButton a c else c) = ctlName"
  by (auto simp: fun_eq_iff)

text \<open>Running the timers of one form enables every control named by one of them.\<close>

definition enable_named :: "string list \<Rightarrow> form \<Rightarrow> form" where
  "enable_named ns f =
     f\<lparr>controls := map (\<lambda>c. if ctlName c \<in> set ns then submitFormEnableButton c else c) (controls f)\<rparr>"

lemma names_enable_named [simp]: "map ctlName (controls (enable_named ns f)) = map ctlName (controls f)"
  by (simp add: enable_named_def)

lemma run_timers_form:
  assumes "k < length (pageForms p)" and "pageForms p ! k = f"
    and "count_list (map formName (pageForms p)) (formName f) = 1"
    and "distinct ns" and "\<forall>n \<in> set ns. count_list (map ctlName (controls f)) n = 1"
  shows "run_timers (map (Pair (formName f)) ns) p =
     Inr (p\<lparr>pageForms := (pageForms p)[k := enable_named ns f],
            dueTimers := (if ns = [] then dueTimers p else [])\<rparr>)"
  using assms
proof (induction ns arbitrary: f p)
  case Nil
  have "p\<lparr>pageForms := (pageForms p)[k := f]\<rparr> = p"
    using Nil.prems(1,2) by (simp add: list_update_same_conv)
  then show ?case by (simp add: enable_named_def)
next
  case (Cons n ns)
  let ?f = "f\<lparr>controls := map (\<lambda>c. if ctlName c = n then submitFormEnableButton c else c) (controls f)\<rparr>"
  let ?p = "p\<lparr>pageForms := (pageForms p)[k := ?f], dueTimers := map (Pair (formName f)) ns\<rparr>"
  obtain i where i: "indices (\<lambda>g. formName g = formName f) (pageForms p) = [i]"
    using indices_count [OF Cons.prems(3)] .
  have "i = k"
  proof -
    have "k \<in> set (indices (\<lambda>g. formName g = formName f) (pageForms p))"
      using Cons.prems(1,2) by simp
    then show ?thesis unfolding i by simp
  qed
  have one: "update_control n submitFormEnableButton f = Inr ?f"
    using Cons.prems(5) by (simp add: update_control_once)
  have step: "submitFormEnableButtonByName (formName f) n (p\<lparr>dueTimers := map (Pair (formName f)) ns\<rparr>) = Inr ?p"
    using one i \<open>i = k\<close> Cons.prems(2) by (simp add: submitFormEnableButtonByName_def)
  have names: "map formName (pageForms ?p) = map formName (pageForms p)"
    using Cons.prems(1,2) by (simp add: map_update list_update_same_conv)
  have ctls: "map ctlName (controls ?f) = map ctlName (controls f)"
    by simp
  have "run_timers (map (Pair (formName ?f)) ns) ?p =
      Inr (?p\<lparr>pageForms := (pageForms ?p)[k := enable_named ns ?f],
             dueTimers := (if ns = [] then dueTimers ?p else [])\<rparr>)"
    using Cons.prems names ctls by (intro Cons.IH) auto
  moreover have "enable_named ns ?f = enable_named (n # ns) f"
    using Cons.prems(4) by (auto simp: enable_named_def)
  ultimately show ?case using step by simp
qed

lemma count_list_filter_le: "count_list (map h (filter P xs)) n \<le> count_list (map h xs) n"
  by (induction xs) auto

lemma distinct_count_list: "(\<And>n. count_list xs n \<le> 1) \<Longrightarrow> distinct xs"
proof (induction xs)
  case (Cons a xs)
  from Cons.prems [of a] have "a \<notin> set xs" by (simp add: count_list_0_iff)
  moreover have "count_list xs n \<le> 1" for n
    using Cons.prems [of n] by (auto split: if_splits)
  ultimately show ?case using Cons.IH by simp
qed simp

lemma distinct_once:
  assumes "\<forall>n \<in> set (map h (filter P xs)). count_list (map h xs) n = 1"
  shows "distinct (map h (filter P xs))"
proof (rule distinct_count_list)
  fix n
  show "count_list (map h (filter P xs)) n \<le> 1"
  proof (cases "n \<in> set (map h (filter P xs))")
    case True
    with assms count_list_filter_le [of h P xs n] show ?thesis by metis
  next
    case False
    then have "count_list (map h (filter P xs)) n = 0" by (subst count_list_0_iff)
    then show ?thesis by simp
  qed
qed

lemma once_same:
  "count_list (map h xs) (h c) = 1 \<Longrightarrow> b \<in> set xs \<Longrightarrow> c \<in> set xs \<Longrightarrow> h b = h c \<Longrightarrow> b = c"
proof (induction xs)
  case (Cons x xs)
  show ?case
  proof (cases "h x = h c")
    case True
    with Cons.prems(1) have "h c \<notin> h ` set xs" by (simp add: count_list_0_iff)
    then have "d \<in> set (x # xs) \<Longrightarrow> h d = h c \<Longrightarrow> d = x" for d
      by (metis image_eqI set_ConsD)
    with Cons.prems show ?thesis by metis
  next
    case False
    with Cons.prems have "b \<in> set xs" and "c \<in> set xs" by auto
    with False Cons show ?thesis by simp
  qed
qed simp

section \<open>A menu with an \<open>other\<close> entry\<close>

record text_field =
  fieldDisabled :: bool
  fieldVisibility :: string
  fieldValue :: string
  fieldFocused :: bool

record drop_down =
  optionValues :: "string list"
  selectedIndex :: int

definition other_choice :: "drop_down \<Rightarrow> bool result" where
  "other_choice dropDown =
     (if 0 \<le> selectedIndex dropDown \<and> selectedIndex dropDown < int (length (optionValues dropDown))
      then Inr (optionValues dropDown ! nat (selectedIndex dropDown) = ''_OTHER_'')
      else Inl TypeError)"

definition activate :: "bool \<Rightarrow> text_field \<Rightarrow> text_field" where
  "activate styleSheets field =
     (let f1 = field\<lparr>fieldDisabled := False\<rparr>;
          f2 = (if styleSheets then f1\<lparr>fieldVisibility := ''visible''\<rparr> else f1)
      in f2\<lparr>fieldFocused := True\<rparr>)"

definition process_choice :: "bool \<Rightarrow> drop_down \<Rightarrow> text_field \<Rightarrow> text_field result" where
  "process_choice styleSheets selection textfield =
     and_then (other_choice selection)
       (\<lambda>b. Inr (if b then activate styleSheets textfield
                 else let t1 = textfield\<lparr>fieldDisabled := True\<rparr>;
                          t2 = (if styleSheets then t1\<lparr>fieldVisibility := ''hidden''\<rparr> else t1)
                      in t2\<lparr>fieldValue := []\<rparr>))"

definition check_choice :: "drop_down \<Rightarrow> string list \<Rightarrow> string list result" where
  "check_choice dropDown alerts =
     and_then (other_choice dropDown)
       (\<lambda>b. Inr (if b then alerts else alerts @ [''Please check your menu selection first'']))"

section \<open>Properties\<close>

text \<open>Checking all rows of a form and unchecking them again gives every row of the table the
  class it had, whether it was a plain or an alternate row.\<close>

lemma highlight_all_undone:
  assumes "forms fn = Some names"
    and "\<forall>i \<in> set (row_ids h names). \<exists>e. d i = Some e \<and> className e \<in> {[], ''alternate-row''}"
  shows "and_then (highlightAllRows True h fn forms d) (highlightAllRows False h fn forms) = Inr d"
proof -
  let ?is = "row_ids h names"
  have present: "\<forall>i \<in> set ?is. d i \<noteq> None" using assms(2) by auto
  then obtain d1 where d1: "highlightAllRows True h fn forms d = Inr d1"
    by (simp add: highlightAllRows_def assms(1) each_highlight)
  have "\<forall>i \<in> set ?is. d1 i \<noteq> None"
    using present highlightAllRows_apply [OF assms(1) d1] by auto
  then obtain d2 where d2: "highlightAllRows False h fn forms d1 = Inr d2"
    by (simp add: highlightAllRows_def assms(1) each_highlight)
  have "d2 j = d j" for j
  proof (cases "j \<in> set ?is")
    case True
    with assms(2) obtain e where "d j = Some e" "className e \<in> {[], ''alternate-row''}" by blast
    with True show ?thesis
      using highlightAllRows_apply [OF assms(1) d1, of j] highlightAllRows_apply [OF assms(1) d2, of j]
      by (auto simp: set_highlight_inverse)
  next
    case False
    then show ?thesis
      using highlightAllRows_apply [OF assms(1) d1, of j] highlightAllRows_apply [OF assms(1) d2, of j]
      by simp
  qed
  then show ?thesis using d1 d2 by (simp add: fun_eq_iff)
qed

definition two_rows :: dom where
  "two_rows = [''row_0'' \<mapsto> \<lparr>className = [], elemValue = [], elemTitle = [], display = []\<rparr>,
               ''row_1'' \<mapsto> \<lparr>className = ''alternate-row'', elemValue = [], elemTitle = [], display = []\<rparr>]"

lemma highlight_all_undone_witness:
  "and_then (highlightAllRows True ''row_'' ''f'' [''f'' \<mapsto> [''_rowSubmit_o_0'', ''x'', ''_rowSubmit_o_1'']] two_rows)
     (highlightAllRows False ''row_'' ''f'' [''f'' \<mapsto> [''_rowSubmit_o_0'', ''x'', ''_rowSubmit_o_1'']]) = Inr two_rows"
proof -
  have rows: "row_ids ''row_'' [''_rowSubmit_o_0'', ''x'', ''_rowSubmit_o_1''] = [''row_0'', ''row_1'']"
    by code_simp
  show ?thesis
    by (rule highlight_all_undone [where names = "[''_rowSubmit_o_0'', ''x'', ''_rowSubmit_o_1'']"])
      (simp_all add: rows two_rows_def)
qed

text \<open>Disabling the submit buttons of a form marks and disables them, and when the timers that
  this schedules have run, the form is as it was, with its submit buttons enabled, provided no
  other control of the form shares a submit button's name.\<close>

lemma double_post_guard_undone:
  assumes "k < length (pageForms p)" and "pageForms p ! k = f" and "dueTimers p = []"
    and "count_list (map formName (pageForms p)) (formName f) = 1"
    and "\<forall>c \<in> set (controls f). is_submit c \<longrightarrow> count_list (map ctlName (controls f)) (ctlName c) = 1"
    and "filter is_submit (controls f) \<noteq> []"
  shows "run_timers (dueTimers (submitFormDisableSubmits k p)) (submitFormDisableSubmits k p) =
     Inr (p\<lparr>pageForms := (pageForms p)[k := f\<lparr>controls :=
       map (\<lambda>c. if is_submit c then c\<lparr>ctlDisabled := False\<rparr> else c) (controls f)\<rparr>]\<rparr>)"
proof -
  let ?q = "submitFormDisableSubmits k p" and ?g = "disable_submits f"
  let ?ns = "map ctlName (filter is_submit (controls f))"
  have q: "pageForms ?q = (pageForms p)[k := ?g]" "dueTimers ?q = map (Pair (formName f)) ?ns"
    using assms(2,3) by (simp_all add: submitFormDisableSubmits_def Let_def comp_def)
  have g: "formName ?g = formName f" "map ctlName (controls ?g) = map ctlName (controls f)"
    by (simp_all add: disable_submits_def)
  have names: "map formName (pageForms ?q) = map formName (pageForms p)"
    using assms(1,2) g by (simp add: q map_update list_update_same_conv)
  have once: "\<forall>n \<in> set ?ns. count_list (map ctlName (controls f)) n = 1"
    using assms(5) by auto
  have dist: "distinct ?ns" using once by (rule distinct_once)
  have "run_timers (map (Pair (formName ?g)) ?ns) ?q =
     Inr (?q\<lparr>pageForms := (pageForms ?q)[k := enable_named ?ns ?g], dueTimers := []\<rparr>)"
    using run_timers_form [of k ?q ?g ?ns] assms(1,4,6) dist once q g names by simp
  moreover have "enable_named ?ns ?g = f\<lparr>controls :=
      map (\<lambda>c. if is_submit c then c\<lparr>ctlDisabled := False\<rparr> else c) (controls f)\<rparr>"
  proof -
    have "is_submit c \<longleftrightarrow> ctlName c \<in> set ?ns" if "c \<in> set (controls f)" for c
      using that assms(5) once_same [of ctlName "controls f"] by fastforce
    then show ?thesis by (auto simp: enable_named_def disable_submits_def)
  qed
  ultimately show ?thesis using assms(3) q g by (simp add: submitFormDisableSubmits_def Let_def)
qed

definition order_form :: form where
  "order_form = \<lparr>formName = ''order'', formAction = Some ''save'', controls =
     [\<lparr>ctlType = ''text'', ctlName = ''qty'', ctlDisabled = False, ctlClass = [], ctlValue = ''2''\<rparr>,
      \<lparr>ctlType = ''submit'', ctlName = ''ok'', ctlDisabled = False, ctlClass = ''btn'', ctlValue = ''Save''\<rparr>,
      \<lparr>ctlType = ''submit'', ctlName = ''go'', ctlDisabled = False, ctlClass = [], ctlValue = ''Go''\<rparr>]\<rparr>"

lemma double_post_guard_undone_witness:
  "run_timers [(''order'', ''ok''), (''order'', ''go'')]
     (submitFormDisableSubmits 0 \<lparr>pageForms = [order_form], dueTimers = []\<rparr>)
   = Inr \<lparr>pageForms = [order_form], dueTimers = []\<rparr>"
  using double_post_guard_undone [of 0 "\<lparr>pageForms = [order_form], dueTimers = []\<rparr>" order_form]
  by (simp add: order_form_def is_submit_def submitFormDisableSubmits_def Let_def)

end
