(* ===== verification/Select_All.thy ===== *)
theory Select_All
  imports Js_Prelude
begin

text \<open>
  The select-all boxes of \<open>OfbizUtil.js\<close>: the click handler that \<open>bindObservers\<close> installs on check
  boxes, and \<open>addSelectAllObserver\<close>.  A check box has a content attribute, a checkedness and a dirty
  flag: the attribute decides the checkedness until the user, or a write to the property, has set the
  flag.  The code writes the attribute (\<open>.attr\<close>), reads the checkedness (\<open>:checked\<close>), and removes the
  attribute with \<open>.removeAttr\<close>, which the jQuery Migrate of the page lets clear the property as well.
\<close>

record checkbox =
  attrChecked :: bool
  checkedness :: bool
  dirty :: bool
  boxDisabled :: bool
  isSelectAll :: bool
  isSelectAllChild :: bool

definition set_attribute :: "bool \<Rightarrow> checkbox \<Rightarrow> checkbox" where
  "set_attribute v b =
     (let b1 = b\<lparr>attrChecked := v\<rparr> in if dirty b then b1 else b1\<lparr>checkedness := v\<rparr>)"

definition set_property :: "bool \<Rightarrow> checkbox \<Rightarrow> checkbox" where
  "set_property v b = b\<lparr>checkedness := v, dirty := True\<rparr>"

definition remove_attr_fn :: "checkbox \<Rightarrow> checkbox" where
  "remove_attr_fn b = set_attribute False (set_property False b)"

definition user_click :: "checkbox \<Rightarrow> checkbox" where
  "user_click b = set_property (\<not> checkedness b) b"

section \<open>The handler\<close>

definition any_checked :: "checkbox list \<Rightarrow> bool" where
  "any_checked bs \<longleftrightarrow> (\<exists>b \<in> set bs. checkedness b)"

definition all_child :: "checkbox \<Rightarrow> bool" where
  "all_child b \<longleftrightarrow> \<not> boxDisabled b \<and> \<not> isSelectAll b"

definition select_child :: "checkbox list \<Rightarrow> checkbox \<Rightarrow> bool" where
  "select_child form_fields b \<longleftrightarrow>
     all_child b \<and> (isSelectAllChild b \<or> \<not> (\<exists>c \<in> set form_fields. all_child c \<and> isSelectAllChild c))"

definition addSelectAllObserver :: "nat \<Rightarrow> checkbox list \<Rightarrow> checkbox list" where
  "addSelectAllObserver i form_fields =
     (let children = filter (select_child form_fields) form_fields;
          parents = filter isSelectAll form_fields
      in if isSelectAll (form_fields ! i) then
           map (\<lambda>b. if select_child form_fields b then set_attribute (any_checked parents) b else b)
             form_fields
         else if length children > 0 then
           if list_all checkedness children
           then map (\<lambda>b. if isSelectAll b then set_attribute True b else b) form_fields
           else map (\<lambda>b. if isSelectAll b then remove_attr_fn b else b) form_fields
         else form_fields)"

text \<open>A click on the check box at a position of the form: the browser toggles it, then the handler
  runs if the form has a select-all box.\<close>

definition clickCheckbox :: "nat \<Rightarrow> checkbox list \<Rightarrow> checkbox list" where
  "clickCheckbox i form_fields =
     (let fs = form_fields[i := user_click (form_fields ! i)]
      in if \<exists>b \<in> set fs. isSelectAll b then addSelectAllObserver i fs else fs)"

text \<open>On load, when a select-all box is checked, every one is unchecked and clicked.\<close>

definition initSelectAll :: "checkbox list \<Rightarrow> checkbox list" where
  "initSelectAll form_fields =
     (if any_checked (filter isSelectAll form_fields) then
        let fs = map (\<lambda>b. if isSelectAll b then remove_attr_fn b else b) form_fields
        in fold clickCheckbox (filter (\<lambda>i. isSelectAll (form_fields ! i)) [0..<length form_fields]) fs
      else form_fields)"

section \<open>Lemmas\<close>

lemma kind_set_attribute [simp]:
  "isSelectAll (set_attribute v b) = isSelectAll b" "dirty (set_attribute v b) = dirty b"
  "boxDisabled (set_attribute v b) = boxDisabled b"
  "isSelectAllChild (set_attribute v b) = isSelectAllChild b"
  "checkedness (set_attribute v b) = (if dirty b then checkedness b else v)"
  by (simp_all add: set_attribute_def Let_def)

lemma kind_user_click [simp]:
  "isSelectAll (user_click b) = isSelectAll b" "dirty (user_click b) = True"
  "boxDisabled (user_click b) = boxDisabled b"
  "isSelectAllChild (user_click b) = isSelectAllChild b"
  "checkedness (user_click b) = (\<not> checkedness b)"
  by (simp_all add: user_click_def set_property_def)

lemma remove_attr_fn_simps [simp]:
  "isSelectAll (remove_attr_fn b) = isSelectAll b" "checkedness (remove_attr_fn b) = False"
  "dirty (remove_attr_fn b) = True"
  "boxDisabled (remove_attr_fn b) = boxDisabled b"
  "isSelectAllChild (remove_attr_fn b) = isSelectAllChild b"
  by (simp_all add: remove_attr_fn_def set_property_def)

lemma length_clickCheckbox [simp]: "length (clickCheckbox i fs) = length fs"
  by (simp add: clickCheckbox_def addSelectAllObserver_def Let_def)

lemma ex_list_update:
  assumes "\<And>b. P (g b) = P b"
  shows "(\<exists>c \<in> set (fs[i := g (fs ! i)]). P c) = (\<exists>c \<in> set fs. P c)"
proof (cases "i < length fs")
  case True
  then have "map P (fs[i := g (fs ! i)]) = map P fs"
    using assms by (simp add: map_update list_update_same_conv)
  then have "True \<in> set (map P (fs[i := g (fs ! i)])) \<longleftrightarrow> True \<in> set (map P fs)" by (simp only:)
  then show ?thesis by (auto simp: image_iff)
next
  case False
  then show ?thesis by (simp add: list_update_beyond)
qed

lemma select_child_frame:
  assumes "\<And>b. boxDisabled (g b) = boxDisabled b" "\<And>b. isSelectAll (g b) = isSelectAll b"
    and "\<And>b. isSelectAllChild (g b) = isSelectAllChild b"
  shows "select_child (fs[i := g (fs ! i)]) = select_child fs"
proof -
  have "(\<exists>c \<in> set (fs[i := g (fs ! i)]). all_child c \<and> isSelectAllChild c)
      = (\<exists>c \<in> set fs. all_child c \<and> isSelectAllChild c)"
    by (rule ex_list_update) (simp add: all_child_def assms)
  then show ?thesis by (simp add: select_child_def fun_eq_iff)
qed

lemma select_child_click [simp]:
  "select_child (fs[i := user_click (fs ! i)]) = select_child fs"
  "(\<exists>b \<in> set (fs[i := user_click (fs ! i)]). isSelectAll b) = (\<exists>b \<in> set fs. isSelectAll b)"
  by (rule select_child_frame; simp) (rule ex_list_update; simp)

section \<open>Properties\<close>

text \<open>A click on a select-all box gives every box it governs that neither the user nor a script has
  touched the state of the select-all boxes; a governed box that was touched before keeps its own
  state, because only its attribute changes.\<close>

lemma select_all_click:
  assumes "i < length fs" and "isSelectAll (fs ! i)" and "j < length fs" and "select_child fs (fs ! j)"
  shows "checkedness (clickCheckbox i fs ! j) =
    (if dirty (fs ! j) then checkedness (fs ! j)
     else any_checked (filter isSelectAll (fs[i := user_click (fs ! i)])))"
proof -
  let ?fs = "fs[i := user_click (fs ! i)]"
  have "j \<noteq> i" using assms(2,4) by (auto simp: select_child_def all_child_def)
  moreover have "\<exists>b \<in> set fs. isSelectAll b"
    using assms(1,2) nth_mem by blast
  ultimately show ?thesis
    using assms by (simp add: clickCheckbox_def addSelectAllObserver_def Let_def)
qed

definition mk_box :: "bool \<Rightarrow> bool \<Rightarrow> bool \<Rightarrow> checkbox" where
  "mk_box master on touched = \<lparr>attrChecked = on, checkedness = on, dirty = touched, boxDisabled = False,
     isSelectAll = master, isSelectAllChild = False\<rparr>"

lemma select_all_click_witness:
  "checkedness (clickCheckbox 0 [mk_box True False False, mk_box False False False, mk_box False False True] ! 1)
   \<and> \<not> checkedness (clickCheckbox 0 [mk_box True False False, mk_box False False False, mk_box False False True] ! 2)"
  using select_all_click [of 0 "[mk_box True False False, mk_box False False False, mk_box False False True]" 1]
    select_all_click [of 0 "[mk_box True False False, mk_box False False False, mk_box False False True]" 2]
  by (simp add: mk_box_def select_child_def all_child_def any_checked_def)

text \<open>After a click on a governed box, no select-all box is checked while some governed box is
  not; and every select-all box that was never touched is checked when all governed boxes are.\<close>

lemma child_click_updates_parent:
  assumes "i < length fs" and "select_child fs (fs ! i)"
    and "fs' = fs[i := user_click (fs ! i)]" and "j < length fs" and "isSelectAll (fs ! j)"
  shows "(checkedness (clickCheckbox i fs ! j) \<longrightarrow> (\<forall>b \<in> set fs'. select_child fs b \<longrightarrow> checkedness b))
    \<and> (\<not> dirty (fs ! j) \<longrightarrow> (\<forall>b \<in> set fs'. select_child fs b \<longrightarrow> checkedness b)
         \<longrightarrow> checkedness (clickCheckbox i fs ! j))"
proof -
  have ij: "i \<noteq> j" and child: "\<not> isSelectAll (fs ! i)"
    using assms(2,5) by (auto simp: select_child_def all_child_def)
  have sc: "select_child fs' = select_child fs" unfolding assms(3) by simp
  have "\<exists>b \<in> set fs. isSelectAll b"
    using assms(4,5) nth_mem by blast
  then have click: "clickCheckbox i fs = addSelectAllObserver i fs'"
    using assms(3) by (simp add: clickCheckbox_def)
  have "select_child fs (fs' ! i)"
    using assms(1-3) by (auto simp: select_child_def all_child_def)
  then have "filter (select_child fs) fs' \<noteq> []"
    using assms(1,3) nth_mem [of i fs'] by (auto simp: filter_empty_conv)
  then show ?thesis
    using assms ij child
    by (simp add: click addSelectAllObserver_def sc Let_def list_all_iff)
qed

lemma child_click_updates_parent_witness:
  "checkedness (clickCheckbox 1 [mk_box True False False, mk_box False False False] ! 0)"
proof -
  let ?fs = "[mk_box True False False, mk_box False False False]"
  have "select_child ?fs (?fs ! 1)" and "isSelectAll (?fs ! 0)" and "\<not> dirty (?fs ! 0)"
    and "\<forall>b \<in> set (?fs[1 := user_click (?fs ! 1)]). select_child ?fs b \<longrightarrow> checkedness b"
    by (simp_all add: mk_box_def select_child_def all_child_def user_click_def set_property_def)
  then show ?thesis
    using child_click_updates_parent [of 1 ?fs "?fs[1 := user_click (?fs ! 1)]" 0] by simp
qed

end
