(* ===== verification/Screenlet.thy ===== *)
theory Screenlet
  imports Url_Params
begin

text \<open>
  Collapsible panels and screenlets of \<open>OfbizUtil.js\<close>: \<open>toggleCollapsiblePanel\<close>,
  \<open>toggleScreenlet\<close>, \<open>expandAll\<close>, \<open>expandAllP\<close> and the request of \<open>setUserLayoutPreferences\<close>.  The
  animation that ends \<open>toggleCollapsiblePanel\<close> is taken as finished when the function returns.
\<close>

record panel =
  panelVisible :: bool
  liClasses :: "string list"
  linkTitle :: string

definition add_class :: "string \<Rightarrow> string list \<Rightarrow> string list" where
  "add_class c cs = (if c \<in> set cs then cs else cs @ [c])"

definition remove_class :: "string \<Rightarrow> string list \<Rightarrow> string list" where
  "remove_class c cs = filter (\<lambda>d. d \<noteq> c) cs"

text \<open>The link is the clicked element when a screenlet calls the function; \<open>expandAll\<close> passes a jQuery
  object, on which setting \<open>title\<close> leaves the element's title alone.\<close>

definition toggleCollapsiblePanel :: "bool \<Rightarrow> string \<Rightarrow> string \<Rightarrow> panel \<Rightarrow> panel" where
  "toggleCollapsiblePanel dom_link expandTxt collapseTxt p =
     (let p1 = (if panelVisible p
                then p\<lparr>liClasses := add_class ''collapsed'' (remove_class ''expanded'' (liClasses p)),
                       linkTitle := (if dom_link then expandTxt else linkTitle p)\<rparr>
                else p\<lparr>liClasses := add_class ''expanded'' (remove_class ''collapsed'' (liClasses p)),
                       linkTitle := (if dom_link then collapseTxt else linkTitle p)\<rparr>)
      in p1\<lparr>panelVisible := \<not> panelVisible p\<rparr>)"

section \<open>Field groups\<close>

record field_group =
  titleChildren :: nat
  groupPanel :: panel

definition expandGroup :: "bool \<Rightarrow> field_group \<Rightarrow> field_group" where
  "expandGroup b g =
     (if titleChildren g > 0 \<and> panelVisible (groupPanel g) \<noteq> b
      then g\<lparr>groupPanel := toggleCollapsiblePanel False ''expand'' ''collapse'' (groupPanel g)\<rparr>
      else g)"

definition expandAll :: "bool \<Rightarrow> field_group list \<Rightarrow> field_group list" where
  "expandAll b gs = map (expandGroup b) gs"

text \<open>The groups of one portlet, given by the portlet each group belongs to.\<close>

definition expandAllP :: "bool \<Rightarrow> string \<Rightarrow> (string \<times> field_group) list \<Rightarrow> (string \<times> field_group) list" where
  "expandAllP b portalPortletId gs =
     map (\<lambda>(pid, g). (pid, if pid = ''scrlt_'' @ portalPortletId then expandGroup b g else g)) gs"

section \<open>Screenlets\<close>

record pager_select =
  selValue :: string
  selOnchange :: string

record screenlet = panel +
  screenletId :: "string option"
  pagerLinks :: "string list"
  pagerSelects :: "pager_select list"
  prefRequests :: "(string \<times> string \<times> string) list"

definition id_text :: "string option \<Rightarrow> string" where
  "id_text i = (case i of None \<Rightarrow> ''undefined'' | Some s \<Rightarrow> s)"

definition setUserLayoutPreferences :: "string \<Rightarrow> string \<Rightarrow> string \<Rightarrow> screenlet \<Rightarrow> screenlet" where
  "setUserLayoutPreferences userPrefGroupTypeId userPrefTypeId userPrefValue s =
     s\<lparr>prefRequests := prefRequests s @ [(userPrefGroupTypeId, userPrefTypeId, userPrefValue)]\<rparr>"

definition togglePanelOf :: "string \<Rightarrow> string \<Rightarrow> screenlet \<Rightarrow> screenlet" where
  "togglePanelOf expandTxt collapseTxt s =
     (let p = toggleCollapsiblePanel True expandTxt collapseTxt (panel.truncate s)
      in s\<lparr>panelVisible := panelVisible p, liClasses := liClasses p, linkTitle := linkTitle p\<rparr>)"

definition pager_link :: "string \<Rightarrow> string \<Rightarrow> string \<Rightarrow> string" where
  "pager_link currentParam newParam href =
     (if indexOf href ''http'' = 0 then replaceQueryParam href currentParam newParam else href)"

text \<open>A menu whose value mentions \<open>location.href\<close> is rewritten with \<open>Element.extend\<close>, a function of the
  Prototype library, which the pages no longer load: the call throws.\<close>

definition toggleScreenlet :: "string \<Rightarrow> string \<Rightarrow> string \<Rightarrow> screenlet \<Rightarrow> screenlet result" where
  "toggleScreenlet saveCollapsed expandTxt collapseTxt s0 =
     (let s = togglePanelOf expandTxt collapseTxt s0;
          scr = id_text (screenletId s);
          collapsed = (linkTitle s = expandTxt);
          currentParam = scr @ ''_collapsed='' @ (if collapsed then ''false'' else ''true'');
          newParam = scr @ ''_collapsed='' @ (if collapsed then ''true'' else ''false'');
          s1 = (if saveCollapsed = ''true''
                then setUserLayoutPreferences ''GLOBAL_PREFERENCES'' (scr @ ''_collapsed'')
                       (if collapsed then ''true'' else ''false'') s
                else s)
      in if \<exists>m \<in> set (pagerSelects s1). indexOf (selValue m) ''location.href'' \<ge> 0 then Inl TypeError
         else Inr (s1\<lparr>pagerLinks := map (pager_link currentParam newParam) (pagerLinks s1)\<rparr>))"

section \<open>Lemmas\<close>

lemma toggle_visible [simp]: "panelVisible (toggleCollapsiblePanel d e c p) = (\<not> panelVisible p)"
  by (simp add: toggleCollapsiblePanel_def Let_def)

lemma toggle_title [simp]:
  "linkTitle (toggleCollapsiblePanel True e c p) = (if panelVisible p then e else c)"
  by (simp add: toggleCollapsiblePanel_def)

lemma truncate_panel [simp]: "panelVisible (panel.truncate s) = panelVisible s"
  by (simp add: panel.defs)

lemma togglePanelOf_simps [simp]:
  "panelVisible (togglePanelOf e c s) = (\<not> panelVisible s)"
  "linkTitle (togglePanelOf e c s) = (if panelVisible s then e else c)"
  "screenletId (togglePanelOf e c s) = screenletId s"
  "pagerLinks (togglePanelOf e c s) = pagerLinks s"
  "pagerSelects (togglePanelOf e c s) = pagerSelects s"
  "prefRequests (togglePanelOf e c s) = prefRequests s"
  by (simp_all add: togglePanelOf_def Let_def)

lemma prefs_simps [simp]:
  "panelVisible (setUserLayoutPreferences g t v s) = panelVisible s"
  "pagerLinks (setUserLayoutPreferences g t v s) = pagerLinks s"
  "pagerSelects (setUserLayoutPreferences g t v s) = pagerSelects s"
  by (simp_all add: setUserLayoutPreferences_def)

lemma expandGroup_visible:
  "panelVisible (groupPanel (expandGroup b g)) = (if titleChildren g > 0 then b else panelVisible (groupPanel g))"
  by (auto simp: expandGroup_def)

lemma expandGroup_idem: "expandGroup b (expandGroup b g) = expandGroup b g"
  by (auto simp: expandGroup_def)

section \<open>Properties\<close>

text \<open>Toggling a screenlet flips its panel, saves the new state when asked to, and leaves every
  absolute pagination link with the parameter that records that state.\<close>

lemma toggleScreenlet_links:
  assumes "toggleScreenlet saveCollapsed expandTxt collapseTxt s = Inr t"
    and "expandTxt \<noteq> collapseTxt" and "CHR ''$'' \<notin> set (id_text (screenletId s))"
  shows "panelVisible t = (\<not> panelVisible s)
    \<and> prefRequests t = prefRequests s @
        (if saveCollapsed = ''true''
         then [(''GLOBAL_PREFERENCES'', id_text (screenletId s) @ ''_collapsed'',
                if panelVisible t then ''false'' else ''true'')] else [])
    \<and> length (pagerLinks t) = length (pagerLinks s)
    \<and> (\<forall>i < length (pagerLinks s). prefix ''http'' (pagerLinks s ! i) \<longrightarrow>
         occurs (id_text (screenletId s) @ ''_collapsed='' @ (if panelVisible t then ''false'' else ''true''))
           (pagerLinks t ! i))"
proof -
  have "occurs n (pager_link c n h)" if "prefix ''http'' h" "CHR ''$'' \<notin> set n" for c n h
    using that by (simp add: pager_link_def indexOf_0_iff replaceQueryParam_occurs)
  then show ?thesis
    using assms
    by (cases "panelVisible s")
      (auto simp: toggleScreenlet_def Let_def setUserLayoutPreferences_def split: if_splits)
qed

lemma toggleScreenlet_links_witness:
  "\<exists>t. toggleScreenlet ''true'' ''Expand'' ''Collapse''
      \<lparr>panelVisible = True, liClasses = [''expanded''], linkTitle = ''Collapse'', screenletId = Some ''scr'',
       pagerLinks = [''http://h/find?p=2''], pagerSelects = [], prefRequests = []\<rparr> = Inr t
    \<and> \<not> panelVisible t \<and> occurs ''scr_collapsed=true'' (pagerLinks t ! 0)"
proof -
  let ?s = "\<lparr>panelVisible = True, liClasses = [''expanded''], linkTitle = ''Collapse'', screenletId = Some ''scr'',
       pagerLinks = [''http://h/find?p=2''], pagerSelects = [], prefRequests = []\<rparr>"
  obtain t where t: "toggleScreenlet ''true'' ''Expand'' ''Collapse'' ?s = Inr t"
    by (simp add: toggleScreenlet_def Let_def setUserLayoutPreferences_def togglePanelOf_def)
  have "\<not> panelVisible t" using toggleScreenlet_links [OF t] by (simp add: id_text_def)
  with t toggleScreenlet_links [OF t] show ?thesis by (simp add: id_text_def)
qed

text \<open>After all groups have been expanded or collapsed, every group that has a title bar is in the
  wanted state, the others are untouched, and doing it again changes nothing.\<close>

theorem expandAll_uniform:
  "list_all2 (\<lambda>g h. (titleChildren g > 0 \<longrightarrow> panelVisible (groupPanel h) = b)
      \<and> (titleChildren g = 0 \<longrightarrow> h = g)) gs (expandAll b gs)
   \<and> expandAll b (expandAll b gs) = expandAll b gs"
  by (simp add: expandAll_def list_all2_map2 list.rel_refl_strong expandGroup_visible expandGroup_idem)
    (auto intro!: list.rel_refl_strong simp: expandGroup_visible expandGroup_def)

theorem expandAll_uniform_witness:
  "expandAll True [\<lparr>titleChildren = 1, groupPanel = \<lparr>panelVisible = False, liClasses = [], linkTitle = []\<rparr>\<rparr>]
     = [\<lparr>titleChildren = 1, groupPanel = \<lparr>panelVisible = True, liClasses = [''expanded''], linkTitle = []\<rparr>\<rparr>]
   \<and> expandAll True (expandAll True [\<lparr>titleChildren = 1, groupPanel = \<lparr>panelVisible = False, liClasses = [], linkTitle = []\<rparr>\<rparr>])
     = expandAll True [\<lparr>titleChildren = 1, groupPanel = \<lparr>panelVisible = False, liClasses = [], linkTitle = []\<rparr>\<rparr>]"
  using expandAll_uniform [of True "[\<lparr>titleChildren = 1, groupPanel = \<lparr>panelVisible = False, liClasses = [], linkTitle = []\<rparr>\<rparr>]"]
  by (simp add: expandAll_def expandGroup_def toggleCollapsiblePanel_def add_class_def remove_class_def)

end
