(* ===== verification/Shipping_Info.thy ===== *)
theory Shipping_Info
  imports Page_Dom
begin

text \<open>
  The shipping part of the order pages, \<open>OrderShippingInfo.js\<close>: switching an item group between its
  display and its edit view, restoring edited fields, and showing a ship-by date.  The loops over
  numbered elements stop at the first number without an element; they are partial functions, and
  they are shown to stop on every page, because a page has finitely many elements.
\<close>

definition numbered :: "string \<Rightarrow> nat \<Rightarrow> string" where
  "numbered base i = base @ int_str (int i)"

lemma numbered_inj: "inj (numbered base)"
  by (auto simp: inj_def numbered_def)

lemma numbered_eq [simp]: "numbered b i = numbered b j \<longleftrightarrow> i = j"
  by (simp add: numbered_def)

text \<open>On a page with finitely many elements, numbering stops somewhere.\<close>

lemma first_gap:
  assumes "finite (Map.dom (d :: dom))" and "inj (name :: nat \<Rightarrow> string)"
  obtains n where "d (name n) = None" and "\<And>k. k < n \<Longrightarrow> d (name k) \<noteq> None"
proof -
  have "\<exists>n. d (name n) = None"
  proof (rule ccontr)
    assume "\<not> (\<exists>n. d (name n) = None)"
    then have "\<forall>n. d (name n) \<noteq> None" by auto
    then have "range name \<subseteq> Map.dom d" by (auto simp: domIff)
    with assms(1) have "finite (range name)" by (rule finite_subset [rotated])
    then have "finite (UNIV :: nat set)" by (rule finite_imageD) (rule assms(2))
    then show False by simp
  qed
  then have "d (name (LEAST n. d (name n) = None)) = None" by (rule LeastI_ex)
  moreover have "d (name k) \<noteq> None" if "k < (LEAST n. d (name n) = None)" for k :: nat
    using that by (rule not_less_Least)
  ultimately show thesis by (rule that)
qed

section \<open>Display and edit views\<close>

definition sufix :: "string \<Rightarrow> string" where
  "sufix index = (if index = ''-1'' then [] else index)"

text \<open>The ids of the elements of a group, and of its numbered elements.\<close>

definition group_id :: "string \<Rightarrow> string \<Rightarrow> string" where
  "group_id part suf = part @ suf"

definition edit_qty :: "string \<Rightarrow> nat \<Rightarrow> string" where
  "edit_qty suf i = numbered (''editQuantity'' @ suf) i"

definition display_qty :: "string \<Rightarrow> nat \<Rightarrow> string" where
  "display_qty suf i = numbered (''displayQuantity'' @ suf) i"

definition edit_o :: "string \<Rightarrow> nat \<Rightarrow> string" where
  "edit_o index i = numbered (''edit'' @ index @ ''_o_'') i"

partial_function (option) quantity_loop :: "string \<Rightarrow> string \<Rightarrow> nat \<Rightarrow> dom \<Rightarrow> dom option" where
  "quantity_loop edit suf i d =
     (let d1 = write_elem (show_if (edit = ''display'')) (display_qty suf i) d;
          element = getElementById d1 (edit_qty suf i);
          d2 = write_elem (show_if (edit = ''edit'')) (edit_qty suf i) d1
      in if element = None then Some d2 else quantity_loop edit suf (Suc i) d2)"

definition showEdit :: "string \<Rightarrow> string \<Rightarrow> dom \<Rightarrow> dom option" where
  "showEdit edit index d =
     (let suf = sufix index;
          d1 = write_elem (show_if (edit = ''edit'')) (group_id ''edit'' suf) d;
          d2 = write_elem (show_if (edit = ''display'')) (group_id ''display'' suf) d1
      in map_option (write_elem (show_if (edit = ''edit'')) (group_id ''OISGEdit'' suf))
           (quantity_loop edit suf 0 d2))"

definition showView :: "string \<Rightarrow> string \<Rightarrow> dom \<Rightarrow> dom" where
  "showView view index d =
     (let suf = sufix index in
      if getElementById d (group_id ''display'' suf) = None then d
      else write_elem (show_if (view = ''view'')) (group_id ''OISGView'' suf)
             (write_elem (show_if (view = ''view'')) (group_id ''view'' suf)
               (write_elem (show_if (view \<noteq> ''view'')) (group_id ''display'' suf) d)))"

definition showShipByDate :: "string \<Rightarrow> string \<Rightarrow> dom \<Rightarrow> dom result" where
  "showShipByDate evalue i d = write_found (show_if (evalue = ''new'')) i d"

section \<open>Restoring edited fields\<close>

definition restore_value :: "elem \<Rightarrow> elem" where
  "restore_value e = e\<lparr>elemValue := elemTitle e\<rparr>"

partial_function (option) restore_loop :: "string \<Rightarrow> nat \<Rightarrow> dom \<Rightarrow> dom option" where
  "restore_loop index i d =
     (if getElementById d (edit_o index i) = None then Some d
      else restore_loop index (Suc i) (write_elem restore_value (edit_o index i) d))"

text \<open>The computed suffix is not used: the ids are built from the index itself.\<close>

definition restoreEditField :: "string \<Rightarrow> dom \<Rightarrow> dom option" where
  "restoreEditField index d = restore_loop index 0 d"

section \<open>The loops as passes\<close>

definition quantity_pass :: "string \<Rightarrow> string \<Rightarrow> nat \<Rightarrow> dom \<Rightarrow> dom" where
  "quantity_pass edit suf k d =
     write_elem (show_if (edit = ''edit'')) (edit_qty suf k)
       (write_elem (show_if (edit = ''display'')) (display_qty suf k) d)"

lemma quantity_ids_apart [simp]:
  "edit_qty suf i \<noteq> display_qty suf j"
  "display_qty suf j \<noteq> edit_qty suf i"
  "edit_qty suf i = edit_qty suf j \<longleftrightarrow> i = j"
  "display_qty suf i = display_qty suf j \<longleftrightarrow> i = j"
  "edit_o s i = edit_o s j \<longleftrightarrow> i = j"
  by (simp_all add: edit_qty_def display_qty_def edit_o_def) (simp_all add: numbered_def)

lemma quantity_pass_present:
  "quantity_pass edit suf k d j = None \<longleftrightarrow> d j = None"
  by (simp add: quantity_pass_def write_elem_apply)

lemma quantity_loop_step:
  "quantity_loop edit suf i d =
     (if d (edit_qty suf i) = None then Some (quantity_pass edit suf i d)
      else quantity_loop edit suf (Suc i) (quantity_pass edit suf i d))"
  by (subst quantity_loop.simps)
    (simp add: Let_def quantity_pass_def getElementById_def write_elem_apply)

lemma quantity_loop_fold:
  assumes "i \<le> n" and "d (edit_qty suf n) = None"
    and "\<And>k. i \<le> k \<Longrightarrow> k < n \<Longrightarrow> d (edit_qty suf k) \<noteq> None"
  shows "quantity_loop edit suf i d = Some (fold (quantity_pass edit suf) [i..<Suc n] d)"
  using assms
proof (induction "n - i" arbitrary: i d)
  case 0
  then have "i = n" by simp
  with "0.prems" show ?case by (subst quantity_loop_step) simp
next
  case (Suc m)
  then have i: "i < n" by simp
  let ?d = "quantity_pass edit suf i d"
  have here: "d (edit_qty suf i) \<noteq> None" using Suc.prems(3) i by simp
  have "quantity_loop edit suf (Suc i) ?d = Some (fold (quantity_pass edit suf) [Suc i..<Suc n] ?d)"
    using Suc i by (intro Suc.hyps(1)) (auto simp: quantity_pass_present)
  with i here show ?case
    by (subst quantity_loop_step) (auto simp: upt_conv_Cons)
qed

lemma quantity_fold_edit:
  "fold (quantity_pass edit suf) ks d (edit_qty suf j) =
     (if j \<in> set ks then map_option (show_if (edit = ''edit'')) (d (edit_qty suf j))
      else d (edit_qty suf j))"
  by (induction ks arbitrary: d)
    (auto simp: quantity_pass_def write_elem_apply option.map_comp comp_def)

lemma quantity_fold_display:
  "fold (quantity_pass edit suf) ks d (display_qty suf j) =
     (if j \<in> set ks then map_option (show_if (edit = ''display'')) (d (display_qty suf j))
      else d (display_qty suf j))"
  by (induction ks arbitrary: d)
    (auto simp: quantity_pass_def write_elem_apply option.map_comp comp_def)

lemma edit_ids_apart [simp]:
  "group_id ''edit'' suf \<noteq> edit_qty suf j" "group_id ''edit'' suf \<noteq> display_qty suf j"
  "group_id ''display'' suf \<noteq> edit_qty suf j" "group_id ''display'' suf \<noteq> display_qty suf j"
  "group_id ''OISGEdit'' suf \<noteq> edit_qty suf j" "group_id ''OISGEdit'' suf \<noteq> display_qty suf j"
proof -
  have "length (edit_qty suf j) > length (group_id ''edit'' suf)"
    and "length (display_qty suf j) > length (group_id ''display'' suf)"
    by (simp_all add: numbered_def edit_qty_def display_qty_def group_id_def)
  then show "group_id ''edit'' suf \<noteq> edit_qty suf j"
    and "group_id ''display'' suf \<noteq> display_qty suf j" by fastforce+
qed (simp_all add: numbered_def edit_qty_def display_qty_def group_id_def)

lemma restore_loop_step:
  "restore_loop index i d =
     (if d (edit_o index i) = None then Some d
      else restore_loop index (Suc i) (write_elem restore_value (edit_o index i) d))"
  by (subst restore_loop.simps) (simp add: getElementById_def)

lemma restore_loop_fold:
  assumes "i \<le> n" and "d (edit_o index n) = None"
    and "\<And>k. i \<le> k \<Longrightarrow> k < n \<Longrightarrow> d (edit_o index k) \<noteq> None"
  shows "restore_loop index i d =
    Some (fold (write_elem restore_value) (map (edit_o index) [i..<n]) d)"
  using assms
proof (induction "n - i" arbitrary: i d)
  case 0
  then have "i = n" by simp
  with "0.prems" show ?case by (subst restore_loop_step) simp
next
  case (Suc m)
  then have i: "i < n" by simp
  let ?d = "write_elem restore_value (edit_o index i) d"
  have here: "d (edit_o index i) \<noteq> None" using Suc.prems(3) i by simp
  have "restore_loop index (Suc i) ?d =
      Some (fold (write_elem restore_value) (map (edit_o index) [Suc i..<n]) ?d)"
    using Suc i by (intro Suc.hyps(1)) (auto simp: write_elem_apply)
  with i here show ?case
    by (subst restore_loop_step) (auto simp: upt_conv_Cons)
qed

lemma restore_value_idem [simp]: "restore_value (restore_value e) = restore_value e"
  by (simp add: restore_value_def)

section \<open>Properties\<close>

text \<open>Switching an item group to the edit view ends on every page, and puts each numbered item
  up to the first missing one into the edit view: its edit element is shown and its display
  element is hidden, whatever they were before.\<close>

lemma showEdit_edit:
  assumes "finite (Map.dom d)"
  shows "\<exists>d' n. showEdit ''edit'' index d = Some d'
    \<and> d (edit_qty (sufix index) n) = None
    \<and> (\<forall>k < n. \<exists>e. d' (edit_qty (sufix index) k) = Some e \<and> display e = ''block'')
    \<and> (\<forall>k \<le> n. \<forall>e. d' (display_qty (sufix index) k) = Some e \<longrightarrow> display e = ''none'')"
proof -
  let ?suf = "sufix index"
  let ?d1 = "write_elem (show_if True) (group_id ''edit'' ?suf) d"
  let ?d2 = "write_elem (show_if False) (group_id ''display'' ?suf) ?d1"
  let ?fin = "write_elem (show_if True) (group_id ''OISGEdit'' ?suf)"
  obtain n where n: "d (edit_qty ?suf n) = None"
    and before: "\<And>k. k < n \<Longrightarrow> d (edit_qty ?suf k) \<noteq> None"
    using first_gap [OF assms, of "edit_qty ?suf"] by (auto simp: inj_def)
  let ?r = "fold (quantity_pass ''edit'' ?suf) [0..<Suc n] ?d2"
  have "quantity_loop ''edit'' ?suf 0 ?d2 = Some ?r"
    using n before by (intro quantity_loop_fold) (auto simp: write_elem_apply)
  then have res: "showEdit ''edit'' index d = Some (?fin ?r)"
    by (simp add: showEdit_def Let_def)
  have ed: "?fin ?r (edit_qty ?suf k)
      = map_option (show_if True) (d (edit_qty ?suf k))" if "k < n" for k
    using that by (simp add: write_elem_apply quantity_fold_edit del: upt_Suc)
  have di: "?fin ?r (display_qty ?suf k)
      = map_option (show_if False) (d (display_qty ?suf k))" if "k \<le> n" for k
    using that by (simp add: write_elem_apply quantity_fold_display del: upt_Suc)
  have "\<forall>k < n. \<exists>e. ?fin ?r (edit_qty ?suf k) = Some e \<and> display e = ''block''"
    using before by (fastforce simp: ed simp del: upt_Suc)
  moreover have "\<forall>k \<le> n. \<forall>e. ?fin ?r (display_qty ?suf k) = Some e \<longrightarrow> display e = ''none''"
    by (auto simp: di simp del: upt_Suc)
  ultimately show ?thesis using res n by blast
qed

definition mk_elem :: "string \<Rightarrow> string \<Rightarrow> string \<Rightarrow> elem" where
  "mk_elem v t s = \<lparr>className = [], elemValue = v, elemTitle = t, display = s\<rparr>"

lemma showEdit_edit_witness:
  "\<exists>d'. showEdit ''edit'' ''-1'' [''editQuantity0'' \<mapsto> mk_elem [] [] ''none''] = Some d'"
proof -
  have "finite (Map.dom [''editQuantity0'' \<mapsto> mk_elem [] [] ''none''])" by simp
  from showEdit_edit [OF this, of "''-1''"] show ?thesis by blast
qed

text \<open>Restoring the edited fields of an item group ends on every page and gives every numbered
  field before the first missing one its original value, kept in its title.\<close>

lemma restoreEditField_restores:
  assumes "finite (Map.dom d)"
  shows "\<exists>d' n. restoreEditField index d = Some d'
    \<and> d (edit_o index n) = None
    \<and> (\<forall>k < n. \<exists>e. d' (edit_o index k) = Some e \<and> elemValue e = elemTitle e)
    \<and> (\<forall>j. (\<forall>k < n. j \<noteq> edit_o index k) \<longrightarrow> d' j = d j)"
proof -
  let ?id = "edit_o index"
  obtain n where n: "d (?id n) = None" and before: "\<And>k. k < n \<Longrightarrow> d (?id k) \<noteq> None"
    using first_gap [OF assms, of ?id] by (auto simp: inj_def)
  let ?r = "fold (write_elem restore_value) (map ?id [0..<n]) d"
  have res: "restoreEditField index d = Some ?r"
    unfolding restoreEditField_def using n before by (intro restore_loop_fold) auto
  have look: "?r j = (if j \<in> ?id ` {0..<n} then map_option restore_value (d j) else d j)" for j
    using page.look_fold [of restore_value "map ?id [0..<n]" d j]
    by (simp add: getElementById_def)
  show ?thesis
    using res n before
    by (intro exI [of _ ?r] exI [of _ n]) (fastforce simp: look restore_value_def)
qed

lemma restoreEditField_restores_witness:
  "\<exists>d'. restoreEditField ''3'' [''edit3_o_0'' \<mapsto> mk_elem ''9'' ''2'' []] = Some d'"
proof -
  have "finite (Map.dom [''edit3_o_0'' \<mapsto> mk_elem ''9'' ''2'' []])" by simp
  from restoreEditField_restores [OF this, of "''3''"] show ?thesis by blast
qed

end
