(* ===== verification/Descriptions.thy ===== *)
theory Descriptions
  imports Js_Prelude
begin

text \<open>
  The descriptions shown beside lookup fields: \<open>setLookDescription\<close> of \<open>OfbizUtil.js\<close>, which takes a
  description apart, fills a dependent field and places the tooltip, and the loader
  \<open>lookupDescriptionLoaded\<close> of \<open>fieldlookup.js\<close>, which asks the server for the description of the
  current value.
\<close>

section \<open>Encoding form fields\<close>

definition hex_digit :: "nat \<Rightarrow> char" where
  "hex_digit n = (if n < 10 then char_of (48 + n) else char_of (55 + n))"

definition pct :: "nat \<Rightarrow> string" where
  "pct n = [CHR ''%'', hex_digit (n div 16), hex_digit (n mod 16)]"

definition unreserved :: "char \<Rightarrow> bool" where
  "unreserved c \<longleftrightarrow>
     (let n = of_char c :: nat
      in 48 \<le> n \<and> n \<le> 57 \<or> 65 \<le> n \<and> n \<le> 90 \<or> 97 \<le> n \<and> n \<le> 122
         \<or> c \<in> {CHR ''-'', CHR ''_'', CHR ''.'', CHR ''!'', CHR ''~'', CHR ''*'', CHR 0x27, CHR ''('', CHR '')''})"

text \<open>\<open>encodeURIComponent\<close> on the code units below 256, which UTF-8 writes in one or two bytes.\<close>

definition encode_char :: "char \<Rightarrow> string" where
  "encode_char c =
     (let n = of_char c :: nat
      in if unreserved c then [c]
         else if n < 128 then pct n
         else pct (192 + n div 64) @ pct (128 + n mod 64))"

definition encodeURIComponent :: "string \<Rightarrow> string" where
  "encodeURIComponent s = concat (map encode_char s)"

text \<open>\<open>jQuery.fn.serialize\<close> turns the line ends of a value into CRLF before it encodes it.\<close>

fun crlf :: "string \<Rightarrow> string" where
  "crlf [] = []"
| "crlf (c # cs) =
     (if c = CHR 0x0D \<and> cs \<noteq> [] \<and> hd cs = CHR 0x0A then CHR 0x0D # CHR 0x0A # crlf (tl cs)
      else if c = CHR 0x0A then CHR 0x0D # CHR 0x0A # crlf cs
      else c # crlf cs)"

section \<open>Placing a description\<close>

text \<open>What the code sees of the page: the value of the fields by their id, the fields whose change
  event it triggered, the fields with a \<open>field-lookup\<close> wrapper, the tooltip of each field, and the
  requests of the loader.\<close>

record described =
  fieldVals :: "string \<Rightarrow> string option"
  changedIds :: "string list"
  wrapped :: "string \<Rightarrow> bool"
  tooltips :: "string \<Rightarrow> string option"
  descRequests :: "(string \<times> string \<times> string) list"

definition script_tag :: string where
  "script_tag = ''<script type='' @ [CHR 0x22] @ ''text/javascript'' @ [CHR 0x22] @ ''>''"

definition dependent_id :: "string \<Rightarrow> string \<Rightarrow> string" where
  "dependent_id params formName =
     (let dependentField = substring_from params (indexOf params ''searchValueFieldName'')
      in formName @ ''_'' @ substring_from dependentField (indexOf dependentField ''='' + 1))"

definition set_dependent :: "string \<Rightarrow> string \<Rightarrow> described \<Rightarrow> described" where
  "set_dependent i v p =
     (if fieldVals p i = None then p
      else p\<lparr>fieldVals := (fieldVals p)(i \<mapsto> v), changedIds := changedIds p @ [i]\<rparr>)"

definition tooltip_text :: "bool \<Rightarrow> bool \<Rightarrow> string \<Rightarrow> string" where
  "tooltip_text bracket showDescription description =
     (let start = indexOf description '' ''
      in if \<not> bracket \<and> showDescription \<and> start \<noteq> -1 \<and> indexOf description script_tag = -1
         then substring_from description start else description)"

definition setLookDescription ::
    "string \<Rightarrow> string \<Rightarrow> string \<Rightarrow> string \<Rightarrow> bool \<Rightarrow> described \<Rightarrow> described" where
  "setLookDescription textFieldId description params formName showDescription p =
     (if description = [] then p
      else
        let start = lastIndexOf description '' ['';
            bracket = (start \<noteq> -1);
            description1 = (if bracket then substring description 0 start else description);
            p1 = (if bracket
                  then set_dependent (dependent_id params formName)
                         (substring description1 0 (lastIndexOf description1 '' '')) p
                  else p)
        in if wrapped p1 textFieldId
           then p1\<lparr>tooltips := (tooltips p1)(textFieldId \<mapsto>
                      tooltip_text bracket showDescription description1)\<rparr>
           else p1)"

section \<open>Loading a description\<close>

record loader =
  ldField :: string
  ldUrl :: string
  ldParams :: string
  ldForm :: string

text \<open>A field of the form, by its name; a disabled field has a value but is not serialised.\<close>

record named_field =
  nfValue :: string
  nfDisabled :: bool

text \<open>The name goes unquoted into the selector \<open>input[name=\<dots>]\<close>: what is no identifier is a syntax
  error of the selector engine.\<close>

definition ident_char :: "char \<Rightarrow> bool" where
  "ident_char c \<longleftrightarrow>
     (let n = of_char c :: nat
      in 48 \<le> n \<and> n \<le> 57 \<or> 65 \<le> n \<and> n \<le> 90 \<or> 97 \<le> n \<and> n \<le> 122 \<or> n = 95 \<or> n = 45 \<or> 160 \<le> n)"

definition css_identifier :: "string \<Rightarrow> bool" where
  "css_identifier s \<longleftrightarrow> s \<noteq> [] \<and> list_all ident_char s"

definition search_field :: "string \<Rightarrow> string" where
  "search_field params =
     (let fieldName = substring_from params (indexOf params ''searchValueFieldName'')
      in substring_from fieldName (indexOf fieldName ''='' + 1))"

definition serialize_field :: "string \<Rightarrow> named_field \<Rightarrow> string" where
  "serialize_field n f =
     (if nfDisabled f then [] else encodeURIComponent n @ ''='' @ encodeURIComponent (crlf (nfValue f)))"

definition update_description ::
    "(string \<Rightarrow> named_field option) \<Rightarrow> loader \<Rightarrow> described \<Rightarrow> described result" where
  "update_description named l p =
     (let p1 = p\<lparr>tooltips := (tooltips p)(ldField l := None)\<rparr>
      in if indexOf (ldParams l) ''searchValueFieldName'' = -1 then Inr p1
         else
           let fieldName = search_field (ldParams l)
           in if \<not> css_identifier fieldName then Inl SyntaxError
              else case named fieldName of
                     None \<Rightarrow> Inr p1
                   | Some f \<Rightarrow>
                       if nfValue f = [] then Inr p1
                       else Inr (p1\<lparr>descRequests := descRequests p1
                              @ [(ldField l, ldUrl l,
                                  ldParams l @ ''&'' @ serialize_field fieldName f @ ''&'' @ ''searchType=EQUALS'')]\<rparr>))"

definition trim :: "string \<Rightarrow> string" where
  "trim s = rev (dropWhile is_space (rev (dropWhile is_space s)))"

text \<open>The answer's \<open>success\<close> handler passes neither parameters nor a form.\<close>

definition description_answered :: "string \<Rightarrow> string \<Rightarrow> described \<Rightarrow> described" where
  "description_answered fieldId answer p = setLookDescription fieldId (trim answer) [] [] False p"

section \<open>Lemmas\<close>

lemma lastIndexOf_last_sub:
  assumes "\<not> occurs q (tl (q @ b))" and "q \<noteq> []"
  shows "lastIndexOf (a @ q @ b) q = int (length a)"
proof -
  have "find_last_sub q (a @ q @ b) = Some (length a)"
  proof (induction a)
    case Nil
    from assms(2) obtain x xs where q: "q = x # xs" by (cases q) auto
    with assms(1) have "find_last_sub q (xs @ b) = None" by simp
    with q show ?case by (simp del: find_last_sub_None)
  qed (simp del: find_last_sub_None)
  then show ?thesis by (simp add: lastIndexOf_def)
qed

lemma find_sub_first:
  assumes "q \<noteq> []"
  shows "\<not> occurs q (a @ butlast q) \<Longrightarrow> find_sub q (a @ q @ b) = Some (length a)"
proof (induction a)
  case Nil
  obtain x xs where "q = x # xs" using assms by (cases q) auto
  then show ?case by simp
next
  case (Cons c a)
  have len: "length q \<le> length ((c # a) @ butlast q)" using assms by simp
  have no: "\<not> prefix q (c # a @ q @ b)"
  proof
    assume pre: "prefix q (c # a @ q @ b)"
    have "q @ b = butlast q @ last q # b" using assms by (cases q rule: rev_cases) auto
    then have "c # a @ q @ b = ((c # a) @ butlast q) @ last q # b" by simp
    then have "prefix ((c # a) @ butlast q) (c # a @ q @ b)" by (rule prefixI)
    with pre len have "prefix q ((c # a) @ butlast q)" by (metis prefix_length_prefix)
    with Cons.prems show False by (auto simp: occurs_def)
  qed
  have "\<not> occurs q (a @ butlast q)"
    using Cons.prems by (auto simp: occurs_def split: if_splits)
  with Cons.IH no show ?case by simp
qed

lemma indexOf_at: "q \<noteq> [] \<Longrightarrow> \<not> occurs q (a @ butlast q) \<Longrightarrow> indexOf (a @ q @ b) q = int (length a)"
  using find_sub_first [of q a b] by (simp add: indexOf_def)

lemma occurs_skip: "q \<noteq> [] \<Longrightarrow> hd q \<noteq> c \<Longrightarrow> occurs q (c # s) \<longleftrightarrow> occurs q s"
  by (cases q) (auto simp: occurs_def)

lemma bracket_start:
  "\<not> occurs '' ['' rest \<Longrightarrow> lastIndexOf (d @ '' ['' @ rest) '' ['' = int (length d)"
  by (rule lastIndexOf_last_sub) (simp_all add: occurs_skip)

lemma set_dependent_simps [simp]:
  "wrapped (set_dependent i v p) = wrapped p" "tooltips (set_dependent i v p) = tooltips p"
  by (simp_all add: set_dependent_def)

lemma setLookDescription_bracket:
  assumes "\<not> occurs '' ['' rest"
  shows "setLookDescription fid (d @ '' ['' @ rest) params fn sd p =
    (let p1 = set_dependent (dependent_id params fn) (substring d 0 (lastIndexOf d '' '')) p
     in if wrapped p fid then p1\<lparr>tooltips := (tooltips p)(fid \<mapsto> d)\<rparr> else p1)"
proof -
  have "substring (d @ '' ['' @ rest) 0 (int (length d)) = d"
    using substring_prefix [of "d @ '' ['' @ rest" "length d"] by simp
  then show ?thesis
    using bracket_start [OF assms, of d] by (simp add: setLookDescription_def tooltip_text_def Let_def)
qed

lemma setLookDescription_plain:
  assumes "\<not> occurs '' ['' d" and "d \<noteq> []" and "wrapped p fid"
  shows "setLookDescription fid d params fn sd p = p\<lparr>tooltips := (tooltips p)(fid \<mapsto> tooltip_text False sd d)\<rparr>"
  using assms by (simp add: setLookDescription_def lastIndexOf_minus1_iff)

lemma search_field_at:
  assumes "\<not> occurs ''searchValueFieldName'' (pre @ ''searchValueFieldNam'')"
  shows "indexOf (pre @ ''searchValueFieldName='' @ r) ''searchValueFieldName'' \<noteq> -1"
    and "search_field (pre @ ''searchValueFieldName='' @ r) = r"
proof -
  have at: "indexOf (pre @ ''searchValueFieldName'' @ ''='' @ r) ''searchValueFieldName'' = int (length pre)"
    by (rule indexOf_at) (use assms in simp_all)
  then have at': "indexOf (pre @ ''searchValueFieldName='' @ r) ''searchValueFieldName'' = int (length pre)"
    by simp
  then show "indexOf (pre @ ''searchValueFieldName='' @ r) ''searchValueFieldName'' \<noteq> -1" by simp
  have from_here: "substring_from (pre @ ''searchValueFieldName='' @ r) (int (length pre))
      = ''searchValueFieldName='' @ r"
    using substring_from_nat [of "pre @ ''searchValueFieldName='' @ r" "length pre"] by simp
  have eq: "indexOf (''searchValueFieldName='' @ r) ''='' = 20"
    by (simp add: indexOf_def)
  have "substring_from (''searchValueFieldName='' @ r) (20 + 1) = r"
    using substring_from_Suc [of "''searchValueFieldName='' @ r" 20] by simp
  then show "search_field (pre @ ''searchValueFieldName='' @ r) = r"
    unfolding search_field_def Let_def at' from_here eq .
qed

section \<open>Properties\<close>

text \<open>A description of the form \<open>name id [code]\<close> is taken apart: the tooltip of the field shows what
  stands before the bracket, and the dependent field receives the name alone and is told that it
  changed.\<close>

lemma description_taken_apart:
  assumes "\<not> occurs '' ['' code" and "CHR '' '' \<notin> set ident" and "wrapped p fid"
    and "fieldVals p (dependent_id params fn) = Some old"
  shows "let q = setLookDescription fid (name @ '' '' @ ident @ '' ['' @ code) params fn sd p
         in tooltips q fid = Some (name @ '' '' @ ident)
            \<and> fieldVals q (dependent_id params fn) = Some name
            \<and> changedIds q = changedIds p @ [dependent_id params fn]"
proof -
  let ?d = "name @ '' '' @ ident"
  have "substring ?d 0 (lastIndexOf ?d '' '') = name"
    using assms(2) lastIndexOf_last [of "CHR '' ''" ident name] substring_prefix [of ?d "length name"]
    by simp
  then show ?thesis
    using assms(3,4) setLookDescription_bracket [OF assms(1), of fid ?d params fn sd p]
    by (simp add: set_dependent_def)
qed

lemma description_taken_apart_witness:
  "let p = \<lparr>fieldVals = [''f_partyId'' \<mapsto> ''x''], changedIds = [], wrapped = (\<lambda>_. True),
            tooltips = Map.empty, descRequests = []\<rparr>;
       q = setLookDescription ''party'' (''Jim Black'' @ '' '' @ ''10'' @ '' ['' @ ''10]'')
             ''searchValueFieldName=partyId'' ''f'' False p
   in fieldVals q ''f_partyId'' = Some ''Jim Black''"
proof -
  have i: "dependent_id ''searchValueFieldName=partyId'' ''f'' = ''f_partyId''" by code_simp
  have n: "\<not> occurs '' ['' ''10]''" by code_simp
  show ?thesis
    using description_taken_apart [of "''10]''" "''10''"
        "\<lparr>fieldVals = [''f_partyId'' \<mapsto> ''x''], changedIds = [], wrapped = (\<lambda>_. True),
            tooltips = Map.empty, descRequests = []\<rparr>" "''party''"
        "''searchValueFieldName=partyId''" "''f''" "''x''" "''Jim Black''" False] n
    by (simp add: Let_def i)
qed

text \<open>The parameters of the loader must end with the name of its field: anything that follows it,
  such as another parameter, becomes part of the selector, which throws instead of asking the
  server.\<close>

theorem loader_needs_last_parameter:
  assumes "\<not> occurs ''searchValueFieldName'' (pre @ ''searchValueFieldNam'')"
    and "ldParams l = pre @ ''searchValueFieldName='' @ n @ rest" and "css_identifier n"
  shows "(rest = [] \<and> named n = Some f \<and> nfValue f \<noteq> [] \<longrightarrow>
            (\<exists>q. update_description named l p = Inr q
              \<and> descRequests q = descRequests p
                  @ [(ldField l, ldUrl l, ldParams l @ ''&'' @ serialize_field n f @ ''&searchType=EQUALS'')]))
    \<and> (CHR ''&'' \<in> set rest \<longrightarrow> update_description named l p = Inl SyntaxError)"
proof -
  have sf: "search_field (ldParams l) = n @ rest" and at: "indexOf (ldParams l) ''searchValueFieldName'' \<noteq> -1"
    using search_field_at [OF assms(1), of "n @ rest"] assms(2) by simp_all
  have "rest = [] \<Longrightarrow> css_identifier (n @ rest)" using assms(3) by simp
  moreover have "\<not> ident_char (CHR ''&'')" by (simp add: ident_char_def)
  then have "CHR ''&'' \<in> set rest \<Longrightarrow> \<not> css_identifier (n @ rest)"
    by (auto simp: css_identifier_def list_all_iff)
  ultimately show ?thesis using at by (auto simp: update_description_def Let_def sf)
qed

theorem loader_needs_last_parameter_witness:
  "update_description (\<lambda>_. None) \<lparr>ldField = ''p'', ldUrl = ''u'',
      ldParams = ''a=1&'' @ ''searchValueFieldName='' @ ''id'' @ ''&b=2'', ldForm = ''f''\<rparr>
     \<lparr>fieldVals = Map.empty, changedIds = [], wrapped = (\<lambda>_. True), tooltips = Map.empty,
      descRequests = []\<rparr> = Inl SyntaxError"
proof -
  have n: "\<not> occurs ''searchValueFieldName'' (''a=1&'' @ ''searchValueFieldNam'')"
    and c: "css_identifier ''id''" by code_simp+
  show ?thesis
    using loader_needs_last_parameter [OF n _ c, of "\<lparr>ldField = ''p'', ldUrl = ''u'',
        ldParams = ''a=1&'' @ ''searchValueFieldName='' @ ''id'' @ ''&b=2'', ldForm = ''f''\<rparr>" "''&b=2''"] by simp
qed

end
