(* ===== verification/Autocompleter.thy ===== *)
theory Autocompleter
  imports Descriptions
begin

text \<open>
  Auto-completion of text fields and of menus in \<open>OfbizUtil.js\<close>: \<open>ajaxAutoCompleter\<close> with its area
  description, the requests it sends and aborts through \<open>LAST_AUTOCOMP_REF\<close>, and the combo box of
  \<open>ajaxAutoCompleteDropDown\<close>.  The count of pending searches is the one of the autocomplete widget of
  jQuery UI, which \<open>response\<close> is expected to bring back to zero.
\<close>

section \<open>The area description\<close>

fun triples :: "'a list \<Rightarrow> ('a \<times> 'a \<times> 'a) list" where
  "triples (a # b # c # r) = (a, b, c) # triples r"
| "triples _ = []"

definition auto_url :: "string \<Rightarrow> string \<Rightarrow> string" where
  "auto_url initUrl params =
     (if indexOf initUrl ''?'' > -1 then initUrl @ ''&'' @ params else initUrl @ ''?'' @ params)"

text \<open>What one completer does: the field it is attached to, the address its searches go to, the
  element its results are written to, the field a selection is written to and the loader that a
  change of the field runs.\<close>

record completer =
  acField :: string
  acUrl :: string
  acResults :: string
  acSelects :: string
  acLoader :: "loader option"

definition area_loader :: "string \<Rightarrow> string \<times> string \<times> string \<Rightarrow> loader" where
  "area_loader formName a =
     \<lparr>ldField = fst a, ldUrl = fst (snd a), ldParams = snd (snd a), ldForm = formName\<rparr>"

text \<open>The handlers close over the variables \<open>url\<close>, \<open>div\<close> and \<open>lookupDescriptionLoader\<close>, which \<open>var\<close>
  declares once for the whole function: when they run, the loop has left them with the values of the
  last area.  The selection handler names the first area.\<close>

definition ajaxAutoCompleter :: "string \<Rightarrow> bool \<Rightarrow> string \<Rightarrow> completer list" where
  "ajaxAutoCompleter areaCsvString showDescription formName =
     (let areas = triples (split (replace_all areaCsvString ''&amp;'' ''&'') '','')
      in map (\<lambda>(fld, _, _).
           \<lparr>acField = fld,
            acUrl = auto_url (fst (snd (last areas))) (snd (snd (last areas))),
            acResults = fst (last areas) @ ''_auto'',
            acSelects = fst (hd areas),
            acLoader = (if showDescription then Some (area_loader formName (last areas)) else None)\<rparr>)
         areas)"

text \<open>The arguments of a search: the term and one parameter per argument field.\<close>

definition search_args :: "string \<Rightarrow> string list \<Rightarrow> (string \<times> string) list" where
  "search_args tm vals =
     (''term'', tm) # map (\<lambda>i. (''parm'' @ nat_str i, vals ! i)) [0..<length vals]"

definition select_item ::
    "string \<times> string \<times> string \<Rightarrow> bool \<Rightarrow> string \<Rightarrow> string \<Rightarrow> string \<Rightarrow> described \<Rightarrow> described" where
  "select_item area0 showDescription formName v lbl p =
     (let p1 = (if fieldVals p (fst area0) = None then p
                else p\<lparr>fieldVals := (fieldVals p)(fst area0 \<mapsto> v)\<rparr>)
      in if showDescription \<and> v \<noteq> []
         then setLookDescription (fst area0) lbl (snd (snd area0)) formName showDescription p1 else p1)"

section \<open>Searches in flight\<close>

text \<open>A request object: its \<open>readyState\<close> is 1 while it is loading, 4 once the server has answered, and
  0 after an abort or a failure of the connection.\<close>

record xhr =
  readyState :: nat
  xhrField :: nat
  xhrIndex :: nat

record auto_page =
  xhrs :: "xhr list"
  lastRef :: "nat option"
  pendings :: "nat \<Rightarrow> int"
  requestIndex :: "nat \<Rightarrow> nat"
  shown :: "nat \<Rightarrow> string list"
  alerts :: nat

definition loading :: "auto_page \<Rightarrow> nat set" where
  "loading s = {i. i < length (xhrs s) \<and> readyState (xhrs s ! i) = 1}"

text \<open>The widget's closure: it shows its content unless a newer search has begun, and counts down.\<close>

definition respond :: "nat \<Rightarrow> nat \<Rightarrow> string list \<Rightarrow> auto_page \<Rightarrow> auto_page" where
  "respond w idx content s =
     (let s1 = (if idx = requestIndex s w then s\<lparr>shown := (shown s)(w := content)\<rparr> else s)
      in s1\<lparr>pendings := (pendings s1)(w := pendings s1 w - 1)\<rparr>)"

definition abort :: "nat \<Rightarrow> auto_page \<Rightarrow> auto_page" where
  "abort j s =
     (if readyState (xhrs s ! j) = 1
      then s\<lparr>xhrs := (xhrs s)[j := (xhrs s ! j)\<lparr>readyState := 0\<rparr>]\<rparr> else s)"

definition beforeSend :: "nat \<Rightarrow> nat \<Rightarrow> auto_page \<Rightarrow> auto_page" where
  "beforeSend w idx s =
     (let s1 = (case lastRef s of
                  None \<Rightarrow> s
                | Some j \<Rightarrow> if readyState (xhrs s ! j) \<noteq> 4 then respond w idx [] (abort j s) else s)
      in s1\<lparr>lastRef := Some (length (xhrs s1)),
             xhrs := xhrs s1 @ [\<lparr>readyState = 1, xhrField = w, xhrIndex = idx\<rparr>]\<rparr>)"

definition search :: "nat \<Rightarrow> auto_page \<Rightarrow> auto_page" where
  "search w s =
     (let idx = Suc (requestIndex s w);
          s1 = s\<lparr>pendings := (pendings s)(w := pendings s w + 1),
                 requestIndex := (requestIndex s)(w := idx)\<rparr>
      in beforeSend w idx s1)"

definition set_ready :: "nat \<Rightarrow> nat \<Rightarrow> auto_page \<Rightarrow> auto_page" where
  "set_ready i r s = s\<lparr>xhrs := (xhrs s)[i := (xhrs s ! i)\<lparr>readyState := r\<rparr>]\<rparr>"

text \<open>The answers: with a list of completions, without one, an error of the server (the request ends
  with state 4) and an error of the connection (it ends with state 0).\<close>

definition search_success :: "nat \<Rightarrow> string list option \<Rightarrow> auto_page \<Rightarrow> auto_page" where
  "search_success i autocomp s =
     (let s1 = set_ready i 4 s
      in case autocomp of
           None \<Rightarrow> s1
         | Some items \<Rightarrow> respond (xhrField (xhrs s ! i)) (xhrIndex (xhrs s ! i)) items s1)"

definition search_error :: "nat \<Rightarrow> bool \<Rightarrow> auto_page \<Rightarrow> auto_page" where
  "search_error i answered s =
     (let s1 = set_ready i (if answered then 4 else 0) s in s1\<lparr>alerts := alerts s1 + 1\<rparr>)"

inductive auto_step :: "auto_page \<Rightarrow> auto_page \<Rightarrow> bool" where
  type_in: "auto_step s (search w s)"
| answered: "i \<in> loading s \<Longrightarrow> auto_step s (search_success i ac s)"
| failed: "i \<in> loading s \<Longrightarrow> auto_step s (search_error i b s)"

inductive auto_reach :: "auto_page \<Rightarrow> auto_page \<Rightarrow> bool" where
  auto_here: "auto_reach s s"
| auto_there: "auto_reach s t \<Longrightarrow> auto_step t u \<Longrightarrow> auto_reach s u"

inductive_cases auto_stepE: "auto_step s t"

definition idle_page :: auto_page where
  "idle_page = \<lparr>xhrs = [], lastRef = None, pendings = (\<lambda>_. 0), requestIndex = (\<lambda>_. 0),
                shown = (\<lambda>_. []), alerts = 0\<rparr>"

text \<open>What a page is in between: whatever is loading is the last request.\<close>

definition last_only :: "auto_page \<Rightarrow> bool" where
  "last_only s \<longleftrightarrow>
     (\<forall>j. lastRef s = Some j \<longrightarrow> j < length (xhrs s)) \<and> loading s \<subseteq> set_option (lastRef s)
     \<and> (lastRef s = None \<longrightarrow> xhrs s = [])"

section \<open>Lemmas\<close>

lemma respond_frame [simp]:
  "xhrs (respond w x c s) = xhrs s" "lastRef (respond w x c s) = lastRef s"
  "requestIndex (respond w x c s) = requestIndex s" "alerts (respond w x c s) = alerts s"
  by (simp_all add: respond_def Let_def)

lemma respond_pending [simp]:
  "pendings (respond w x c s) v = (if v = w then pendings s v - 1 else pendings s v)"
  by (simp add: respond_def Let_def)

lemma abort_frame [simp]:
  "lastRef (abort j s) = lastRef s" "pendings (abort j s) = pendings s"
  "requestIndex (abort j s) = requestIndex s" "length (xhrs (abort j s)) = length (xhrs s)"
  by (simp_all add: abort_def)

lemma set_ready_frame [simp]:
  "lastRef (set_ready i r s) = lastRef s" "pendings (set_ready i r s) = pendings s"
  "requestIndex (set_ready i r s) = requestIndex s" "length (xhrs (set_ready i r s)) = length (xhrs s)"
  "alerts (set_ready i r s) = alerts s"
  by (simp_all add: set_ready_def)

lemma loading_respond [simp]: "loading (respond w x c s) = loading s"
  by (simp add: loading_def)

lemma loading_abort: "loading (abort j s) = loading s - {j}"
  by (auto simp: loading_def abort_def list_update_nth split: if_splits)

lemma loading_set_ready: "r \<noteq> 1 \<Longrightarrow> loading (set_ready i r s) = loading s - {i}"
  by (auto simp: loading_def set_ready_def list_update_nth split: if_splits)

lemma loading_alert [simp]: "loading (s\<lparr>alerts := a\<rparr>) = loading s"
  by (simp add: loading_def)

text \<open>A search leaves exactly one request loading: its own.\<close>

lemma search_loading:
  assumes "last_only s"
  shows "lastRef (search w s) = Some (length (xhrs s))" "loading (search w s) = {length (xhrs s)}"
    "length (xhrs (search w s)) = Suc (length (xhrs s))"
proof -
  define idx where "idx = Suc (requestIndex s w)"
  define s1 where "s1 = s\<lparr>pendings := (pendings s)(w := pendings s w + 1),
    requestIndex := (requestIndex s)(w := idx)\<rparr>"
  define t where "t = (case lastRef s1 of None \<Rightarrow> s1
    | Some j \<Rightarrow> if readyState (xhrs s1 ! j) \<noteq> 4 then respond w idx [] (abort j s1) else s1)"
  have x: "xhrs s1 = xhrs s" "lastRef s1 = lastRef s" "loading s1 = loading s"
    by (simp_all add: s1_def loading_def)
  have len: "length (xhrs t) = length (xhrs s)"
    using x by (simp add: t_def split: option.splits)
  have none: "loading t = {}"
  proof (cases "lastRef s")
    case None
    with assms x show ?thesis by (simp add: t_def last_only_def)
  next
    case (Some j)
    with assms have sub: "loading s \<subseteq> {j}" by (simp add: last_only_def)
    moreover have "readyState (xhrs s ! j) = 4 \<Longrightarrow> j \<notin> loading s" by (simp add: loading_def)
    ultimately show ?thesis using Some x by (auto simp: t_def loading_abort)
  qed
  have res: "search w s = t\<lparr>lastRef := Some (length (xhrs t)),
      xhrs := xhrs t @ [\<lparr>readyState = 1, xhrField = w, xhrIndex = idx\<rparr>]\<rparr>"
    unfolding search_def beforeSend_def Let_def t_def s1_def idx_def ..
  show "lastRef (search w s) = Some (length (xhrs s))"
    "length (xhrs (search w s)) = Suc (length (xhrs s))" by (simp_all add: res len)
  have "i < length (xhrs t) \<Longrightarrow> readyState (xhrs t ! i) \<noteq> 1" for i
    using none by (auto simp: loading_def)
  then show "loading (search w s) = {length (xhrs s)}"
    by (auto simp: loading_def res len nth_append less_Suc_eq)
qed

lemma last_only_search: "last_only s \<Longrightarrow> last_only (search w s)"
  using search_loading [of s w] by (auto simp: last_only_def)

lemma last_only_set_ready: "r \<noteq> 1 \<Longrightarrow> last_only s \<Longrightarrow> last_only (set_ready i r s)"
  unfolding last_only_def loading_set_ready
  by (auto simp: loading_set_ready) (auto simp: set_ready_def)

lemma last_only_respond [simp]: "last_only (respond w x c s) = last_only s"
  by (simp add: last_only_def)

lemma last_only_success: "last_only s \<Longrightarrow> last_only (search_success i ac s)"
  using last_only_set_ready [of 4 s i]
  by (simp add: search_success_def Let_def split: option.splits)

lemma last_only_error: "last_only s \<Longrightarrow> last_only (search_error i b s)"
  using last_only_set_ready [of 4 s i] last_only_set_ready [of 0 s i]
  by (simp add: search_error_def Let_def last_only_def)

lemma auto_step_last: "auto_step s t \<Longrightarrow> last_only s \<Longrightarrow> last_only t"
  by (erule auto_stepE) (auto intro: last_only_search last_only_success last_only_error)

lemma auto_reach_last: "auto_reach s t \<Longrightarrow> last_only s \<Longrightarrow> last_only t"
  by (induction rule: auto_reach.induct) (auto intro: auto_step_last)

lemma idle_page_simps [simp]:
  "xhrs idle_page = []" "lastRef idle_page = None" "pendings idle_page v = 0"
  by (simp_all add: idle_page_def)

lemma last_only_idle [simp]: "last_only idle_page"
  by (simp add: last_only_def idle_page_def loading_def)


section \<open>The count of pending searches\<close>

definition unfinished :: "auto_page \<Rightarrow> bool" where
  "unfinished s \<longleftrightarrow> lastRef s \<noteq> None \<and> readyState (xhrs s ! the (lastRef s)) \<noteq> 4"

lemma pending_search:
  "pendings (search w s) v = pendings s v + (if v = w \<and> \<not> unfinished s then 1 else 0)"
  by (auto simp: search_def beforeSend_def unfinished_def Let_def split: option.splits)

lemma unfinished_search: "last_only s \<Longrightarrow> unfinished (search w s)"
proof -
  assume lo: "last_only s"
  then have "length (xhrs s) \<in> loading (search w s)" by (simp add: search_loading)
  then show ?thesis using search_loading(1) [OF lo] by (simp add: unfinished_def loading_def)
qed

text \<open>The life of a lone field, with the number of answers that ran no response: errors of the server
  and answers without completions.\<close>

inductive lone :: "nat \<Rightarrow> auto_page \<Rightarrow> bool" where
  lone_idle: "lone 0 idle_page"
| lone_search: "lone n s \<Longrightarrow> lone n (search 0 s)"
| lone_items: "lone n s \<Longrightarrow> i \<in> loading s \<Longrightarrow> lone n (search_success i (Some items) s)"
| lone_nothing: "lone n s \<Longrightarrow> i \<in> loading s \<Longrightarrow> lone (Suc n) (search_success i None s)"
| lone_server_error: "lone n s \<Longrightarrow> i \<in> loading s \<Longrightarrow> lone (Suc n) (search_error i True s)"
| lone_lost: "lone n s \<Longrightarrow> i \<in> loading s \<Longrightarrow> lone n (search_error i False s)"

definition all_field0 :: "auto_page \<Rightarrow> bool" where
  "all_field0 s \<longleftrightarrow> (\<forall>x \<in> set (xhrs s). xhrField x = 0)"

lemma field0_list_update:
  "\<forall>x \<in> set xs. xhrField x = 0 \<Longrightarrow> \<forall>x \<in> set (xs[i := (xs ! i)\<lparr>readyState := r\<rparr>]). xhrField x = 0"
  by (cases "i < length xs") (auto dest!: set_update_subset_insert [THEN subsetD] simp: list_update_beyond)

lemma all_field0_set_ready: "all_field0 s \<Longrightarrow> all_field0 (set_ready i r s)"
  using field0_list_update by (simp add: all_field0_def set_ready_def)

lemma all_field0_abort: "all_field0 s \<Longrightarrow> all_field0 (abort i s)"
  using field0_list_update [of "xhrs s" i 0] by (simp add: all_field0_def abort_def)

lemma all_field0_frame [simp]:
  "all_field0 (respond w x c s) = all_field0 s"
  "all_field0 (s\<lparr>pendings := p, requestIndex := r\<rparr>) = all_field0 s"
  "all_field0 (s\<lparr>alerts := n\<rparr>) = all_field0 s"
  "all_field0 (s\<lparr>lastRef := l, xhrs := xhrs s @ [q]\<rparr>) \<longleftrightarrow> all_field0 s \<and> xhrField q = 0"
  by (auto simp: all_field0_def)

lemma all_field0_search: "all_field0 s \<Longrightarrow> all_field0 (search 0 s)"
  using all_field0_abort by (auto simp: search_def beforeSend_def Let_def split: option.splits)

lemma loading_is_last: "last_only s \<Longrightarrow> i \<in> loading s \<Longrightarrow> lastRef s = Some i \<and> unfinished s"
  by (auto simp: last_only_def unfinished_def loading_def)

lemma ready_set_ready: "i < length (xhrs s) \<Longrightarrow> readyState (xhrs (set_ready i r s) ! i) = r"
  by (simp add: set_ready_def)

lemma lone_inv:
  "lone n s \<Longrightarrow> last_only s \<and> all_field0 s \<and> pendings s 0 = int n + (if unfinished s then 1 else 0)"
proof (induction rule: lone.induct)
  case lone_idle
  show ?case by (simp add: all_field0_def unfinished_def)
next
  case (lone_search n s)
  then show ?case
    by (simp add: last_only_search all_field0_search pending_search unfinished_search)
next
  case (lone_items n s i items)
  then have i: "lastRef s = Some i" "unfinished s" "i < length (xhrs s)" "xhrField (xhrs s ! i) = 0"
    using loading_is_last by (auto simp: all_field0_def loading_def)
  with lone_items show ?case
    using last_only_success [of s i "Some items"]
    by (simp add: search_success_def Let_def all_field0_set_ready unfinished_def ready_set_ready)
next
  case (lone_nothing n s i)
  then have i: "lastRef s = Some i" "unfinished s" "i < length (xhrs s)"
    using loading_is_last by (auto simp: loading_def)
  with lone_nothing show ?case
    using last_only_success [of s i None]
    by (simp add: search_success_def Let_def all_field0_set_ready unfinished_def ready_set_ready)
next
  case (lone_server_error n s i)
  then have i: "lastRef s = Some i" "unfinished s" "i < length (xhrs s)"
    using loading_is_last by (auto simp: loading_def)
  with lone_server_error show ?case
    using last_only_error [of s i True] all_field0_set_ready [of s i 4]
    by (simp add: search_error_def Let_def all_field0_def unfinished_def ready_set_ready)
next
  case (lone_lost n s i)
  then have i: "lastRef s = Some i" "unfinished s" "i < length (xhrs s)"
    using loading_is_last by (auto simp: loading_def)
  with lone_lost show ?case
    using last_only_error [of s i False] all_field0_set_ready [of s i 0]
    by (simp add: search_error_def Let_def all_field0_def unfinished_def ready_set_ready)
qed

section \<open>Properties of the completer\<close>

text \<open>C7: However searches, answers and failures of any number of fields follow each other, at most one
  request is in flight, and it is the last one sent.\<close>

theorem one_search_in_flight:
  assumes "auto_reach idle_page s"
  shows "loading s \<subseteq> set_option (lastRef s)"
  using auto_reach_last [OF assms last_only_idle] by (simp add: last_only_def)

theorem one_search_in_flight_witness:
  "loading (search 1 (search 0 idle_page)) \<subseteq> set_option (lastRef (search 1 (search 0 idle_page)))"
  by (rule one_search_in_flight) (rule auto_there [OF auto_there [OF auto_here type_in] type_in])

text \<open>For a page with one completer field the pending count is exactly the request still owed (in
  flight, or lost with its connection and settled by the next search) plus the number of answers
  that ran no response: each error of the server leaves the field marked as loading for good.\<close>

lemma lone_field_pending:
  assumes "lone n s"
  shows "pendings s 0 = int n + (if unfinished s then 1 else 0)"
  using lone_inv [OF assms] by simp

lemma lone_field_pending_witness:
  "pendings (search_error 0 True (search 0 idle_page)) 0
     = int 1 + (if unfinished (search_error 0 True (search 0 idle_page)) then 1 else 0)"
proof -
  have "0 \<in> loading (search 0 idle_page)"
    using search_loading(2) [OF last_only_idle, of 0] by simp
  then have "lone (Suc 0) (search_error 0 True (search 0 idle_page))"
    by (intro lone.intros)
  then show ?thesis using lone_field_pending by fastforce
qed

text \<open>Two fields share the last request but not their counts: a search in the second field before
  the first is answered leaves the first field's count one too high and the second one's, once it
  has been answered, one too low.\<close>

lemma fields_miscount:
  assumes "last_only s" and "\<not> unfinished s" and "a \<noteq> b"
  shows "let t = search b (search a s);
             u = search_success (Suc (length (xhrs s))) (Some items) t
         in loading u = {} \<and> pendings u a = pendings s a + 1 \<and> pendings u b = pendings s b - 1"
proof -
  let ?t = "search b (search a s)"
  have lo: "last_only (search a s)" using assms(1) by (rule last_only_search)
  have ld: "loading ?t = {Suc (length (xhrs s))}"
    using search_loading [OF lo] search_loading [OF assms(1)] by simp
  have "xhrField (xhrs ?t ! Suc (length (xhrs s))) = b"
    using search_loading(3) [OF assms(1), of a]
    by (auto simp: search_def [of b] beforeSend_def Let_def nth_append split: option.splits)
  with ld show ?thesis
    using assms(2,3) unfinished_search [OF assms(1), of a]
    by (simp add: search_success_def Let_def loading_set_ready pending_search)
qed

lemma fields_miscount_witness:
  "let t = search 1 (search 0 idle_page); u = search_success 1 (Some [''x'']) t
   in loading u = {} \<and> pendings u 0 = 1 \<and> pendings u 1 = -1"
  using fields_miscount [of idle_page 0 1 "[''x'']"]
  by (simp add: unfinished_def)

text \<open>Of an area description with several areas every completer asks the address of the last area,
  writes its results beside the last field, and puts the selected value into the first field.\<close>

lemma completers_share_areas:
  assumes "fs \<noteq> []" and "\<forall>(a, t, ps) \<in> set fs. CHR '','' \<notin> set (a @ t @ ps) \<and> CHR ''&'' \<notin> set (a @ t @ ps)"
  shows "map acField (ajaxAutoCompleter (join '','' (concat (map (\<lambda>(a, t, ps). [a, t, ps]) fs))) sd fn) = map fst fs
    \<and> (\<forall>c \<in> set (ajaxAutoCompleter (join '','' (concat (map (\<lambda>(a, t, ps). [a, t, ps]) fs))) sd fn).
         acUrl c = auto_url (fst (snd (last fs))) (snd (snd (last fs)))
         \<and> acResults c = fst (last fs) @ ''_auto'' \<and> acSelects c = fst (hd fs))"
proof -
  let ?csv = "join '','' (concat (map (\<lambda>(a, t, ps). [a, t, ps]) fs))"
  let ?parts = "concat (map (\<lambda>(a, t, ps). [a, t, ps]) fs)"
  have plain: "CHR '','' \<notin> set x \<and> CHR ''&'' \<notin> set x" if "x \<in> set ?parts" for x
    using that assms(2) by auto
  then have "CHR ''&'' \<notin> set ?csv"
    using subsetD [OF set_join [of "'',''" ?parts], of "CHR ''&''"] by (auto simp del: set_concat)
  then have "replace_all ?csv ''&amp;'' ''&'' = ?csv"
    by (intro replace_all_absent not_occurs_hd [of "CHR ''&''"]) simp_all
  moreover have "?parts \<noteq> []" using assms(1) by (cases fs) auto
  then have "split ?csv '','' = ?parts" using plain by (intro split_join) auto
  moreover have "triples ?parts = fs" by (induction fs) auto
  ultimately have "triples (split (replace_all ?csv ''&amp;'' ''&'') '','') = fs" by simp
  then show ?thesis by (auto simp: ajaxAutoCompleter_def Let_def)
qed

lemma completers_share_areas_witness:
  "map acUrl (ajaxAutoCompleter (join '','' (concat (map (\<lambda>(a, t, ps). [a, t, ps])
      [(''x'', ''/p'', ''q=1''), (''y'', ''/r?s=1'', ''t=2'')]))) False [])
   = [''/r?s=1&t=2'', ''/r?s=1&t=2'']"
proof -
  let ?fs = "[(''x'', ''/p'', ''q=1''), (''y'', ''/r?s=1'', ''t=2'')]"
  let ?cs = "ajaxAutoCompleter (join '','' (concat (map (\<lambda>(a, t, ps). [a, t, ps]) ?fs))) False []"
  have "auto_url ''/r?s=1'' ''t=2'' = ''/r?s=1&t=2''" by code_simp
  with completers_share_areas [of ?fs False "[]"]
  have "length (map acField ?cs) = 2" and "\<forall>c \<in> set ?cs. acUrl c = ''/r?s=1&t=2''"
    by simp_all
  then show ?thesis by (auto simp: length_Suc_conv numeral_2_eq_2)
qed

end
