(* ===== verification/Menu_Combobox.thy ===== *)
theory Menu_Combobox
  imports Js_Prelude
begin

text \<open>
  The combo box that \<open>ajaxAutoCompleteDropDown\<close> of \<open>OfbizUtil.js\<close> builds from a menu: the options it
  offers for a term, the label in which the term is set in bold, the selection of an item, and what
  becomes of a text that was typed and not selected.
\<close>

section \<open>Matching without regard to case\<close>

definition ci_occurs :: "string \<Rightarrow> string \<Rightarrow> bool" where
  "ci_occurs p s \<longleftrightarrow> occurs (map upper p) (map upper s)"

section \<open>The label\<close>

text \<open>The lookahead expressions: \<open>[^&;]+;\<close> and \<open>[^<>]*>\<close> ahead of a position.\<close>

definition entity_ahead :: "string \<Rightarrow> bool" where
  "entity_ahead s =
     (let t = dropWhile (\<lambda>c. c \<noteq> CHR ''&'' \<and> c \<noteq> CHR '';'') s
      in t \<noteq> [] \<and> hd t = CHR '';'' \<and> length t < length s)"

definition inside_tag :: "string \<Rightarrow> bool" where
  "inside_tag s =
     (let t = dropWhile (\<lambda>c. c \<noteq> CHR ''<'' \<and> c \<noteq> CHR ''>'') s in t \<noteq> [] \<and> hd t = CHR ''>'')"

definition bold_here :: "string \<Rightarrow> string \<Rightarrow> bool" where
  "bold_here tm s \<longleftrightarrow>
     \<not> entity_ahead s \<and> \<not> prefix ''<'' s \<and> ci_prefix tm s
     \<and> \<not> inside_tag (drop (length tm) s) \<and> \<not> entity_ahead (drop (length tm) s)"

text \<open>The global replacement: an empty term matches before every character and at the end.\<close>

function bold :: "string \<Rightarrow> string \<Rightarrow> string" where
  "bold tm s =
     (if bold_here tm s then
        if tm = [] then ''<b></b>'' @ (case s of [] \<Rightarrow> [] | c # cs \<Rightarrow> c # bold tm cs)
        else ''<b>'' @ take (length tm) s @ ''</b>'' @ bold tm (drop (length tm) s)
      else case s of [] \<Rightarrow> [] | c # cs \<Rightarrow> c # bold tm cs)"
  by pat_completeness auto
termination
proof (relation "measure (\<lambda>(tm, s). length s)")
  fix t s :: string
  assume "bold_here t s" and "t \<noteq> []"
  then have "s \<noteq> []" by (auto simp: bold_here_def ci_prefix_def)
  with \<open>t \<noteq> []\<close> show "((t, drop (length t) s), (t, s)) \<in> measure (\<lambda>(tm, s). length s)"
    by simp
qed simp_all

declare bold.simps [simp del]

section \<open>The combo box\<close>

record menu_option =
  optValue :: string
  optText :: string

record combobox =
  options :: "menu_option list"
  selectedIndex :: "nat option"
  inputText :: string

text \<open>Creating the combo box hides the menu and shows the text of its selected option.\<close>

definition create_combobox :: "menu_option list \<Rightarrow> nat option \<Rightarrow> combobox" where
  "create_combobox opts sel =
     \<lparr>options = opts, selectedIndex = sel,
      inputText = (case sel of None \<Rightarrow> []
                   | Some i \<Rightarrow> if optValue (opts ! i) \<noteq> [] then optText (opts ! i) else [])\<rparr>"

definition offered :: "string \<Rightarrow> menu_option \<Rightarrow> bool" where
  "offered tm opt \<longleftrightarrow> optValue opt \<noteq> [] \<and> (tm = [] \<or> ci_occurs tm (optText opt))"

text \<open>The items for a term: label, value and the position of the option.\<close>

definition source_items :: "string \<Rightarrow> combobox \<Rightarrow> (string \<times> string \<times> nat) list" where
  "source_items tm c =
     map (\<lambda>i. (bold tm (optText (options c ! i)), optText (options c ! i), i))
       (filter (\<lambda>i. offered tm (options c ! i)) [0..<length (options c)])"

definition select_option :: "string \<times> string \<times> nat \<Rightarrow> combobox \<Rightarrow> combobox" where
  "select_option item c =
     c\<lparr>selectedIndex := Some (snd (snd item)), inputText := fst (snd item)\<rparr>"

fun first_index :: "('a \<Rightarrow> bool) \<Rightarrow> 'a list \<Rightarrow> nat option" where
  "first_index P [] = None"
| "first_index P (x # xs) = (if P x then Some 0 else map_option Suc (first_index P xs))"

text \<open>The change event of the field: without a selected item the typed text is compared with the
  values of the options; a text that matches none is removed, and so is the selection.\<close>

definition change_text :: "bool \<Rightarrow> combobox \<Rightarrow> combobox" where
  "change_text has_item c =
     (if has_item then c
      else case first_index (\<lambda>opt. ci_eq (inputText c) (optValue opt)) (options c) of
             Some i \<Rightarrow> c\<lparr>selectedIndex := Some i\<rparr>
           | None \<Rightarrow> c\<lparr>inputText := [],
                       selectedIndex := first_index (\<lambda>opt. optValue opt = []) (options c)\<rparr>)"

text \<open>The button beside the field closes an open menu; otherwise it opens the menu with the items of the empty term.\<close>

definition click_show_all :: "bool \<Rightarrow> combobox \<Rightarrow> (string \<times> string \<times> nat) list" where
  "click_show_all menu_visible c = (if menu_visible then [] else source_items [] c)"

definition type_text :: "string \<Rightarrow> combobox \<Rightarrow> combobox" where
  "type_text s c = c\<lparr>inputText := s\<rparr>"

section \<open>Lemmas\<close>

text \<open>The open menu has every option with a value, in the order of the options.\<close>

lemma show_all_items:
  "map (\<lambda>(_, _, i). i) (click_show_all False c) = filter (\<lambda>i. optValue (options c ! i) \<noteq> []) [0..<length (options c)]"
  by (simp add: click_show_all_def source_items_def offered_def comp_def)

lemma first_index_None [simp]: "first_index P xs = None \<longleftrightarrow> (\<forall>x \<in> set xs. \<not> P x)"
  by (induction xs) auto

lemma first_index_Some: "first_index P xs = Some i \<Longrightarrow> i < length xs \<and> P (xs ! i)"
  by (induction xs arbitrary: i) (auto split: if_splits)

lemma ci_eq_refl [simp]: "ci_eq s s"
  by (simp add: ci_eq_def)

lemma ci_prefix_take: "ci_prefix p s \<Longrightarrow> ci_eq p (take (length p) s)"
  by (auto simp: ci_prefix_def ci_eq_def prefix_def take_map [symmetric])

text \<open>A label as pieces of the text, some of them in bold.\<close>

definition render :: "bool \<times> string \<Rightarrow> string" where
  "render p = (if fst p then ''<b>'' @ snd p @ ''</b>'' else snd p)"

lemma bold_pieces:
  "\<exists>ps. concat (map snd ps) = s \<and> concat (map render ps) = bold tm s
     \<and> (\<forall>(b, x) \<in> set ps. b \<longrightarrow> ci_eq tm x)"
proof (induction "length s" arbitrary: s rule: less_induct)
  case less
  let ?ok = "\<lambda>s ps. concat (map snd ps) = s \<and> concat (map render ps) = bold tm s
     \<and> (\<forall>(b, x) \<in> set ps. b \<longrightarrow> ci_eq tm x)"
  have step: "\<exists>ps. ?ok cs ps" if "s = c # cs" for c cs
    using less that by simp
  show ?case
  proof (cases "bold_here tm s")
    case False
    show ?thesis
    proof (cases s)
      case Nil
      with False show ?thesis by (intro exI [of _ "[]"]) (simp add: bold.simps)
    next
      case (Cons c cs)
      then obtain ps where "?ok cs ps" using step by blast
      with False Cons show ?thesis
        by (intro exI [of _ "(False, [c]) # ps"]) (simp add: bold.simps [of tm "c # cs"] render_def)
    qed
  next
    case True
    show ?thesis
    proof (cases "tm = []")
      case False
      with True have "s \<noteq> []" by (auto simp: bold_here_def ci_prefix_def)
      with False obtain ps where ps: "?ok (drop (length tm) s) ps"
        using less [of "drop (length tm) s"] by auto
      have "ci_eq tm (take (length tm) s)"
        using True by (auto simp: bold_here_def intro: ci_prefix_take)
      with True False ps show ?thesis
        by (intro exI [of _ "(True, take (length tm) s) # ps"])
          (simp add: bold.simps [of tm s] render_def)
    next
      case empty: True
      show ?thesis
      proof (cases s)
        case Nil
        with True empty show ?thesis
          by (intro exI [of _ "[(True, [])]"]) (simp add: bold.simps render_def)
      next
        case (Cons c cs)
        then obtain ps where "?ok cs ps" using step by blast
        with True empty Cons show ?thesis
          by (intro exI [of _ "(True, []) # (False, [c]) # ps"])
            (simp add: bold.simps [of "[]" "c # cs"] render_def)
      qed
    qed
  qed
qed

section \<open>Properties\<close>

text \<open>The items offered for a term are the options with a value whose text holds the term, in menu
  order, and each label is the option's text with pieces that match the term set in bold.\<close>

lemma combobox_items:
  "map (\<lambda>(_, v, i). (v, i)) (source_items tm c) =
     map (\<lambda>i. (optText (options c ! i), i))
       (filter (\<lambda>i. offered tm (options c ! i)) [0..<length (options c)])
   \<and> list_all (\<lambda>(lbl, v, i). \<exists>ps. concat (map snd ps) = v \<and> concat (map render ps) = lbl
        \<and> list_all (\<lambda>(b, x). \<not> b \<or> ci_eq tm x) ps) (source_items tm c)"
proof -
  have "\<exists>ps. concat (map snd ps) = v \<and> concat (map render ps) = bold tm v
        \<and> list_all (\<lambda>(b, x). \<not> b \<or> ci_eq tm x) ps" for v
    using bold_pieces [of v "tm"] by (fastforce simp: list_all_iff)
  then show ?thesis by (simp add: source_items_def list_all_iff comp_def)
qed

lemma combobox_items_witness:
  "map (\<lambda>(_, v, i). (v, i)) (source_items ''a'' \<lparr>options = [\<lparr>optValue = ''1'', optText = ''Ja''\<rparr>],
     selectedIndex = None, inputText = []\<rparr>) = [(''Ja'', 0)]"
  using combobox_items [of "''a''" "\<lparr>options = [\<lparr>optValue = ''1'', optText = ''Ja''\<rparr>],
     selectedIndex = None, inputText = []\<rparr>"]
  by (simp add: offered_def ci_occurs_def upper_def)

text \<open>A typed text that is exactly the text of an option, but the value of none, is not accepted:
  the field is emptied and the menu falls back to its first empty option.\<close>

lemma typed_text_cleared:
  assumes "\<forall>opt \<in> set (options c). \<not> ci_eq s (optValue opt)"
  shows "inputText (change_text False (type_text s c)) = []
    \<and> selectedIndex (change_text False (type_text s c)) = first_index (\<lambda>opt. optValue opt = []) (options c)"
  using assms first_index_None [of "\<lambda>opt. ci_eq s (optValue opt)" "options c"]
  by (simp add: change_text_def type_text_def del: first_index_None)

lemma typed_text_cleared_witness:
  "inputText (change_text False (type_text ''Germany''
     (create_combobox [\<lparr>optValue = ''DEU'', optText = ''Germany''\<rparr>] None))) = []"
  using typed_text_cleared [of "create_combobox [\<lparr>optValue = ''DEU'', optText = ''Germany''\<rparr>] None" "''Germany''"]
  by (simp add: create_combobox_def ci_eq_def)

end
