(* ===== verification/Lookup_Registry.thy ===== *)
theory Lookup_Registry
  imports Js_Prelude
begin

text \<open>
  \<open>FieldLookupCounter\<close> of \<open>fieldlookup.js\<close>, the window manager of the lookup dialogs: it hands out the
  keys of the lookups and keeps a reference to each of them.  The locale \<open>registry\<close> states what the
  dialogs rely on: the next key is free, and registering under it adds exactly that reference.
\<close>

definition countFields :: "'r obj \<Rightarrow> nat" where
  "countFields refArr = length refArr"

definition lookup_key :: "nat \<Rightarrow> string" where
  "lookup_key n = nat_str n @ ''_lookupId''"

definition createNextKey :: "'r obj \<Rightarrow> string" where
  "createNextKey refArr = lookup_key (countFields refArr)"

definition getLastReference :: "'r obj \<Rightarrow> string" where
  "getLastReference refArr = int_str (int (countFields refArr) - 1) @ ''_lookupId''"

text \<open>\<open>getReference(null)\<close> looks for the key \<open>null\<close>, which is never set.\<close>

definition getReference :: "'r obj \<Rightarrow> string option \<Rightarrow> 'r option" where
  "getReference refArr key = (case key of None \<Rightarrow> map_of refArr ''null'' | Some k \<Rightarrow> map_of refArr k)"

definition setReference :: "string \<Rightarrow> 'r \<Rightarrow> 'r obj \<Rightarrow> 'r obj" where
  "setReference key ref refArr =
     (if key \<in> fst ` set refArr
      then let pre = substring key 0 (indexOf key ''_'') in obj_set (pre @ ''_'' @ key) ref refArr
      else obj_set key ref refArr)"

definition removeReference :: "string \<Rightarrow> 'r obj \<Rightarrow> 'r obj" where
  "removeReference key refArr = obj_delete key refArr"

section \<open>The interface\<close>

locale registry =
  fixes get :: "'s \<Rightarrow> string \<Rightarrow> 'r option"
    and next_key :: "'s \<Rightarrow> string"
    and put :: "string \<Rightarrow> 'r \<Rightarrow> 's \<Rightarrow> 's"
    and wf :: "'s \<Rightarrow> bool"
  assumes next_free: "wf s \<Longrightarrow> get s (next_key s) = None"
    and get_put: "wf s \<Longrightarrow> get (put (next_key s) r s) k = (if k = next_key s then Some r else get s k)"
    and wf_put: "wf s \<Longrightarrow> wf (put (next_key s) r s)"
begin

definition register :: "'r \<Rightarrow> 's \<Rightarrow> 's" where
  "register r s = put (next_key s) r s"

lemma wf_register: "wf s \<Longrightarrow> wf (register r s)"
  by (simp add: register_def wf_put)

lemma wf_register_all: "wf s \<Longrightarrow> wf (fold register rs s)"
  by (induction rs arbitrary: s) (auto simp: wf_register)

lemma register_keeps: "wf s \<Longrightarrow> get s k = Some r \<Longrightarrow> get (fold register rs s) k = Some r"
proof (induction rs arbitrary: s)
  case (Cons r' rs)
  then have "k \<noteq> next_key s" using next_free by auto
  with Cons have "get (register r' s) k = Some r" by (simp add: register_def get_put)
  with Cons show ?case by (simp add: wf_register)
qed simp

text \<open>Whatever was registered stays reachable under the key it was given.\<close>

lemma register_reachable:
  "wf s \<Longrightarrow> get (fold register (rs @ r # rs') s) (next_key (fold register rs s)) = Some r"
proof -
  assume wf: "wf s"
  let ?s = "fold register rs s"
  have "wf ?s" using wf by (rule wf_register_all)
  then have "get (register r ?s) (next_key ?s) = Some r" by (simp add: register_def get_put)
  with \<open>wf ?s\<close> show ?thesis by (simp add: register_keeps wf_register)
qed

lemma keys_differ:
  "wf s \<Longrightarrow> next_key (fold register (rs @ r # rs') s) \<noteq> next_key (fold register rs s)"
  using register_reachable [of s rs r rs'] next_free [OF wf_register_all, of s "rs @ r # rs'"]
  by force

end

section \<open>The counter provides it\<close>

lemma lookup_key_inject [simp]: "lookup_key m = lookup_key n \<longleftrightarrow> m = n"
  by (simp add: lookup_key_def)

text \<open>The keys the counter has handed out, in order.\<close>

definition counter_wf :: "'r obj \<Rightarrow> bool" where
  "counter_wf refArr \<longleftrightarrow> map fst refArr = map lookup_key [0..<length refArr]"

lemma counter_wf_empty [simp]: "counter_wf []"
  by (simp add: counter_wf_def)

lemma counter_keys: "counter_wf R \<Longrightarrow> fst ` set R = lookup_key ` {0..<length R}"
  by (metis counter_wf_def list.set_map set_upt)

lemma next_not_used: "counter_wf R \<Longrightarrow> createNextKey R \<notin> fst ` set R"
  by (auto simp: counter_keys createNextKey_def countFields_def)

lemma setReference_next:
  "counter_wf R \<Longrightarrow> map_of (setReference (createNextKey R) r R) = (map_of R)(createNextKey R \<mapsto> r)"
  using next_not_used [of R] by (simp add: setReference_def)

lemma counter_wf_set:
  assumes "counter_wf R"
  shows "counter_wf (setReference (createNextKey R) r R)"
proof -
  have new: "createNextKey R \<notin> fst ` set R" using assms by (rule next_not_used)
  then have "map fst (setReference (createNextKey R) r R) = map fst R @ [lookup_key (length R)]"
    by (simp add: setReference_def keys_obj_set) (simp add: createNextKey_def countFields_def)
  moreover from new have "length (setReference (createNextKey R) r R) = Suc (length R)"
    by (simp add: setReference_def length_obj_set)
  ultimately show ?thesis using assms by (simp add: counter_wf_def)
qed

interpretation counter: registry map_of createNextKey setReference counter_wf
proof unfold_locales
  fix s :: "'r obj"
  assume "counter_wf s"
  then show "map_of s (createNextKey s) = None"
    using next_not_used [of s] by (simp add: map_of_eq_None_iff)
qed (simp_all add: setReference_next counter_wf_set)

lemma counter_length: "counter_wf R \<Longrightarrow> length (fold counter.register rs R) = length R + length rs"
proof (induction rs arbitrary: R)
  case (Cons r rs)
  have "length (counter.register r R) = Suc (length R)"
    using next_not_used [OF Cons.prems]
    by (simp add: counter.register_def setReference_def length_obj_set)
  with Cons show ?case by (simp add: counter.wf_register)
qed simp

lemma counter_next_key:
  "counter_wf R \<Longrightarrow> createNextKey (fold counter.register rs R) = lookup_key (length R + length rs)"
  by (simp add: createNextKey_def countFields_def counter_length)

lemma fold_register: "(\<lambda>r R. setReference (createNextKey R) r R) = counter.register"
  by (simp add: fun_eq_iff counter.register_def)

lemma counter_reachable:
  assumes "i < length rs"
  shows "map_of (fold counter.register rs []) (lookup_key i) = Some (rs ! i)"
proof -
  have "rs = take i rs @ rs ! i # drop (Suc i) rs" using assms by (rule id_take_nth_drop)
  moreover have "map_of (fold counter.register (take i rs @ rs ! i # drop (Suc i) rs) [])
      (createNextKey (fold counter.register (take i rs) [])) = Some (rs ! i)"
    by (rule counter.register_reachable) simp
  moreover have "createNextKey (fold counter.register (take i rs) ([] :: 'a obj)) = lookup_key i"
    using assms by (simp add: counter_next_key)
  ultimately show ?thesis by simp
qed

lemma counter_distinct: "counter_wf R \<Longrightarrow> distinct (map fst R)"
  by (simp add: counter_wf_def distinct_map inj_on_def)

lemma length_delete:
  assumes "distinct (map fst R)" and "k \<in> fst ` set R"
  shows "length (obj_delete k R) = length R - 1"
proof -
  have "map fst (obj_delete k R) = remove1 k (map fst R)"
    using assms(1)
    by (simp add: obj_delete_def distinct_remove1_removeAll removeAll_filter_not_eq filter_map
        comp_def split_def eq_commute [of k])
  then have "length (obj_delete k R) = length (remove1 k (map fst R))" by (metis length_map)
  with assms(2) show ?thesis by (simp add: length_remove1)
qed

section \<open>Properties\<close>

text \<open>C27: Lookups registered one after the other, each under the next key, all stay reachable: the
  \<open>i\<close>-th of them is found under the key built from \<open>i\<close>.\<close>

theorem lookups_reachable:
  assumes "i < length rs"
  shows "getReference (fold (\<lambda>r R. setReference (createNextKey R) r R) rs [])
           (Some (lookup_key i)) = Some (rs ! i)"
  using counter_reachable [OF assms] by (simp add: fold_register getReference_def)

theorem lookups_reachable_witness:
  "getReference (fold (\<lambda>r R. setReference (createNextKey R) r R) [10, 20, 30 :: nat] [])
     (Some (lookup_key 1)) = Some 20"
  using lookups_reachable [of 1 "[10, 20, 30 :: nat]"] by simp

text \<open>Removing a reference that is not the newest one breaks the numbering: the next key is one
  that is still in use, so the new lookup is stored under a longer key, and its own identifier
  leads to the older lookup.\<close>

lemma removal_breaks_keys:
  assumes "i + 1 < length rs"
  shows "let R = removeReference (lookup_key i)
                   (fold (\<lambda>r R. setReference (createNextKey R) r R) rs []);
             k = createNextKey R
         in getReference (setReference k new R) (Some k) = Some (last rs)"
proof -
  define R where "R = fold (\<lambda>r R. setReference (createNextKey R) r R) rs []"
  have wf: "counter_wf R" unfolding R_def fold_register by (rule counter.wf_register_all) simp
  have len: "length R = length rs" unfolding R_def fold_register by (simp add: counter_length)
  let ?D = "removeReference (lookup_key i) R"
  let ?last = "length rs - 1"
  have "lookup_key i \<in> fst ` set R" using assms by (simp add: counter_keys [OF wf] len)
  then have key: "createNextKey ?D = lookup_key ?last"
    using length_delete [OF counter_distinct [OF wf]]
    by (simp add: removeReference_def createNextKey_def countFields_def len)
  have old: "map_of ?D (lookup_key ?last) = Some (last rs)"
  proof -
    have "map_of R (lookup_key ?last) = Some (last rs)"
      using counter_reachable [of ?last rs] assms
      by (cases rs) (simp_all add: R_def fold_register last_conv_nth)
    with assms show ?thesis by (auto simp: removeReference_def)
  qed
  then have used: "lookup_key ?last \<in> fst ` set ?D"
    by (metis domI dom_map_of_conv_image_fst)
  let ?long = "substring (lookup_key ?last) 0 (indexOf (lookup_key ?last) ''_'') @ ''_'' @ lookup_key ?last"
  have "length ?long > length (lookup_key ?last)" by simp
  then have "?long \<noteq> lookup_key ?last" by fastforce
  with used old have "getReference (setReference (lookup_key ?last) new ?D) (Some (lookup_key ?last))
      = Some (last rs)"
    by (simp add: setReference_def getReference_def Let_def)
  then show ?thesis by (simp add: Let_def key R_def [symmetric])
qed

lemma removal_breaks_keys_witness:
  "let R = removeReference (lookup_key 0)
             (fold (\<lambda>r R. setReference (createNextKey R) r R) [10, 20 :: nat] []);
       k = createNextKey R
   in getReference (setReference k 30 R) (Some k) = Some 20"
  using removal_breaks_keys [of 0 "[10, 20 :: nat]" 30] by simp

end
