(* ===== verification/Lookup_Dialog.thy ===== *)
theory Lookup_Dialog
  imports Lookup_Registry Descriptions
begin

text \<open>
  The lookup dialogs of \<open>fieldlookup.js\<close>: the object \<open>Lookup\<close> with its dialog and its registration,
  the chain of dialogs that \<open>ACTIVATED_LOOKUP\<close> heads, and the functions \<open>set_value\<close>, \<open>set_values\<close>,
  \<open>set_multivalues\<close> and \<open>closeLookup\<close> that hand a choice back.  The elements of the page are numbered
  nodes.  The chain is shown to be a stack as long as only the topmost dialog is closed.
\<close>

section \<open>Options\<close>

text \<open>What \<open>jQuery.data\<close> makes of an attribute: the texts \<open>true\<close> and \<open>false\<close> become booleans.\<close>

datatype js_data = Undefined | JsBool bool | JsStr string

definition data_attr :: "string option \<Rightarrow> js_data" where
  "data_attr a =
     (case a of
        None \<Rightarrow> Undefined
      | Some s \<Rightarrow> if s = ''true'' then JsBool True else if s = ''false'' then JsBool False else JsStr s)"

fun truthy :: "js_data \<Rightarrow> bool" where
  "truthy Undefined = False"
| "truthy (JsBool b) = b"
| "truthy (JsStr s) = (s \<noteq> [])"

text \<open>\<open>v || d\<close>, and \<open>v == 'true'\<close>, which holds of no boolean: the comparison turns both sides into
  numbers.\<close>

definition or_else :: "js_data \<Rightarrow> js_data \<Rightarrow> js_data" where
  "or_else v d = (if truthy v then v else d)"

definition eq_true :: "js_data \<Rightarrow> bool" where
  "eq_true v \<longleftrightarrow> v = JsStr ''true''"

definition data_string :: "js_data \<Rightarrow> string" where
  "data_string v =
     (case v of Undefined \<Rightarrow> ''undefined'' | JsBool b \<Rightarrow> (if b then ''true'' else ''false'') | JsStr s \<Rightarrow> s)"

datatype position = Named string | At string string

definition positioning :: "string \<Rightarrow> position" where
  "positioning p =
     (if p = ''topleft'' then At ''left'' ''top''
      else if p = ''topcenter'' then At ''center'' ''top''
      else if p = ''topright'' then At ''right'' ''top''
      else if p = ''center'' then Named ''center''
      else if p = ''left'' then Named ''left''
      else if p = ''right'' then Named ''right''
      else At ''left'' ''top'')"

record lookup_options =
  requestUrl :: string
  inputFieldId :: string
  dialogTarget :: nat
  dialogOptionalTarget :: "nat option"
  optFormName :: string
  optWidth :: string
  optHeight :: string
  optPosition :: string
  modal :: js_data
  ajaxUrl :: string
  optDescription :: js_data
  optPresentation :: string
  optArgs :: "nat option list"

record dialog_options =
  dlgModal :: bool
  dlgHeight :: "int option"
  dlgWidth :: "int option"
  dlgPosition :: position

definition createDialogOptions :: "lookup_options \<Rightarrow> dialog_options" where
  "createDialogOptions os =
     \<lparr>dlgModal = eq_true (or_else (modal os) (JsStr ''true'')),
      dlgHeight = parseInt (optHeight os), dlgWidth = parseInt (optWidth os),
      dlgPosition = positioning (optPosition os)\<rparr>"

text \<open>The description option is turned into a string before it is compared, unless it is false.\<close>

definition show_description :: "lookup_options \<Rightarrow> bool" where
  "show_description os \<longleftrightarrow> truthy (optDescription os) \<and> data_string (optDescription os) = ''true''"

section \<open>The page\<close>

text \<open>A reference to elements: nothing, a bare element of the document, or a jQuery collection.\<close>

datatype js_ref = Null | Bare nat | Jq "nat list"

record lookup =
  inputBoxId :: string
  lookupId :: string
  formName :: string
  target :: js_ref
  target2 :: js_ref
  presentation :: string
  showDescription :: bool
  prevLookup :: "string option"
  dialogOpts :: dialog_options
  dialogIsOpen :: bool
  hasButton :: bool
  opts :: lookup_options

record window = described +
  refArr :: "lookup obj"
  activated :: "string option"
  nodeOf :: "string \<Rightarrow> nat option"
  idOf :: "nat \<Rightarrow> string"
  nodeVal :: "nat \<Rightarrow> string"
  lookupChanged :: "nat list"
  callerTarget :: js_ref
  callerTarget2 :: js_ref
  targetW :: "nat option"
  hasOpener :: bool
  windowClosed :: bool
  spinning :: bool
  dialogRequests :: "(string \<times> string \<times> string) list"

definition update_ref :: "string \<Rightarrow> (lookup \<Rightarrow> lookup) \<Rightarrow> window \<Rightarrow> window" where
  "update_ref k f w =
     (case map_of (refArr w) k of
        None \<Rightarrow> w
      | Some r \<Rightarrow> w\<lparr>refArr := obj_set k (f r) (refArr w)\<rparr>)"

section \<open>Creating a lookup\<close>

text \<open>The input box gets the key of the lookup before its identifier.\<close>

definition new_box_id :: "string \<Rightarrow> lookup_options \<Rightarrow> string" where
  "new_box_id k os = k @ ''_'' @ inputFieldId os"

definition modifyContainer :: "string \<Rightarrow> lookup_options \<Rightarrow> window \<Rightarrow> window result" where
  "modifyContainer k os w =
     (case nodeOf w (inputFieldId os) of
        None \<Rightarrow> Inl TypeError
      | Some n \<Rightarrow> Inr (w\<lparr>nodeOf := (nodeOf w)(inputFieldId os := None, new_box_id k os \<mapsto> n),
                        idOf := (idOf w)(n := new_box_id k os)\<rparr>))"

text \<open>The area description of the auto-completer is given the new identifier of the field.\<close>

definition completer_csv :: "string \<Rightarrow> lookup_options \<Rightarrow> string option" where
  "completer_csv k os =
     (if ajaxUrl os = [] then None
      else Some (replace_first (ajaxUrl os) (substring (ajaxUrl os) 0 (indexOf (ajaxUrl os) '',''))
                   (new_box_id k os)))"

definition new_lookup :: "string \<Rightarrow> lookup_options \<Rightarrow> lookup" where
  "new_lookup k os =
     \<lparr>inputBoxId = new_box_id k os, lookupId = k, formName = optFormName os,
      target = Null, target2 = Null, presentation = optPresentation os,
      showDescription = show_description os, prevLookup = None,
      dialogOpts = createDialogOptions os, dialogIsOpen = False,
      hasButton = (optPresentation os \<noteq> ''none''), opts = os\<rparr>"

text \<open>The completer that a lookup may attach to its field is in \<open>Autocompleter\<close>.\<close>

definition init_lookup :: "lookup_options \<Rightarrow> window \<Rightarrow> window result" where
  "init_lookup os w =
     (let k = createNextKey (refArr w)
      in and_then (modifyContainer k os w)
           (\<lambda>w1. Inr (w1\<lparr>refArr := setReference k (new_lookup k os) (refArr w1)\<rparr>)))"

section \<open>Opening and closing\<close>

text \<open>The value of an argument field; a field that was not found has none.\<close>

definition arg_value :: "window \<Rightarrow> nat option \<Rightarrow> string" where
  "arg_value w a = (case a of None \<Rightarrow> ''undefined'' | Some n \<Rightarrow> nodeVal w n)"

definition query_args :: "lookup_options \<Rightarrow> window \<Rightarrow> string" where
  "query_args os w =
     ''presentation='' @ optPresentation os
     @ concat (map (\<lambda>i. ''&parm'' @ nat_str i @ ''='' @ arg_value w (optArgs os ! i)) [0..<length (optArgs os)])"

definition lookupChaining :: "string \<Rightarrow> window \<Rightarrow> window" where
  "lookupChaining k w =
     update_ref k (\<lambda>r. r\<lparr>prevLookup := activated w\<rparr>) (w\<lparr>activated := Some k\<rparr>)"

definition dialogOpen :: "string \<Rightarrow> lookup \<Rightarrow> window \<Rightarrow> window" where
  "dialogOpen k r w =
     (let w1 = lookupChaining k (w\<lparr>spinning := True\<rparr>)
      in w1\<lparr>dialogRequests := dialogRequests w1 @ [(k, requestUrl (opts r), query_args (opts r) w)]\<rparr>)"

definition take_targets :: "lookup \<Rightarrow> lookup" where
  "take_targets r =
     r\<lparr>target := Jq [dialogTarget (opts r)],
       target2 := Jq (case dialogOptionalTarget (opts r) of None \<Rightarrow> [] | Some n \<Rightarrow> [n])\<rparr>"

text \<open>A click on the button of a lookup.  A dialog that is open already only comes to the front.\<close>

definition click_button :: "string \<Rightarrow> window \<Rightarrow> window" where
  "click_button k w =
     (case map_of (refArr w) k of
        None \<Rightarrow> w
      | Some r \<Rightarrow>
          if \<not> hasButton r then w
          else
            let w1 = (if dialogIsOpen r then w
                      else dialogOpen k r (update_ref k (\<lambda>r. r\<lparr>dialogIsOpen := True\<rparr>) w))
            in update_ref k take_targets w1)"

text \<open>The close event takes the head off the chain, whichever dialog was closed.\<close>

definition dialogClose :: "window \<Rightarrow> window result" where
  "dialogClose w =
     (case activated w of
        None \<Rightarrow> Inr w
      | Some a \<Rightarrow>
          (case getReference (refArr w) (Some a) of
             None \<Rightarrow> Inl TypeError
           | Some r \<Rightarrow> Inr (w\<lparr>activated := prevLookup r\<rparr>)))"

definition close_dialog :: "string \<Rightarrow> window \<Rightarrow> window result" where
  "close_dialog k w =
     (case map_of (refArr w) k of
        None \<Rightarrow> Inr w
      | Some r \<Rightarrow>
          if dialogIsOpen r then dialogClose (update_ref k (\<lambda>r. r\<lparr>dialogIsOpen := False\<rparr>) w)
          else Inr w)"

text \<open>A click on the layer behind the dialogs closes a dialog only while it heads the chain.\<close>

definition click_overlay :: "string \<Rightarrow> window \<Rightarrow> window result" where
  "click_overlay k w = (if activated w = Some k then close_dialog k w else Inr w)"

definition closeLookup :: "window \<Rightarrow> window result" where
  "closeLookup w =
     (case getReference (refArr w) (activated w) of
        None \<Rightarrow> if hasOpener w then Inr (w\<lparr>windowClosed := True\<rparr>) else Inl TypeError
      | Some r \<Rightarrow> close_dialog (lookupId r) w)"

section \<open>Handing a choice back\<close>

text \<open>\<open>write_value\<close> highlights the target with a jQuery method, which a bare element does not have.\<close>

definition write_value :: "string \<Rightarrow> js_ref \<Rightarrow> window \<Rightarrow> window result" where
  "write_value v t w =
     (case t of
        Null \<Rightarrow> Inr w
      | Bare n \<Rightarrow> Inl TypeError
      | Jq ns \<Rightarrow> Inr (w\<lparr>nodeVal := fold (\<lambda>n f. f(n := v)) ns (nodeVal w),
                       lookupChanged := lookupChanged w @ ns\<rparr>))"

definition jq_opt :: "nat option \<Rightarrow> js_ref" where
  "jq_opt n = Jq (case n of None \<Rightarrow> [] | Some m \<Rightarrow> [m])"

definition take_target :: "window \<Rightarrow> window" where
  "take_target w =
     (case getReference (refArr w) (activated w) of
        Some r \<Rightarrow> w\<lparr>callerTarget := target r\<rparr>
      | None \<Rightarrow> w\<lparr>callerTarget := jq_opt (targetW w)\<rparr>)"

definition set_value :: "string \<Rightarrow> window \<Rightarrow> window result" where
  "set_value v w =
     (let w1 = take_target w in and_then (write_value v (callerTarget w1) w1) closeLookup)"

definition set_duration_value :: "string \<Rightarrow> window \<Rightarrow> window result" where
  "set_duration_value v w =
     (let w1 = take_target w in and_then (write_value v (callerTarget w1) w1) closeLookup)"

definition target_id :: "js_ref \<Rightarrow> window \<Rightarrow> string" where
  "target_id t w = (case t of Jq (n # _) \<Rightarrow> idOf w n | _ \<Rightarrow> ''undefined'')"

definition on_described :: "(described \<Rightarrow> described) \<Rightarrow> window \<Rightarrow> window" where
  "on_described f w =
     (let d = f (described.truncate w)
      in w\<lparr>fieldVals := fieldVals d, changedIds := changedIds d, tooltips := tooltips d,
           descRequests := descRequests d\<rparr>)"

text \<open>Only the dialog supplies the second target here; a pop-up window leaves what \<open>fieldLookup2\<close> stored,
  a bare element.\<close>

definition set_values :: "string \<Rightarrow> string \<Rightarrow> window \<Rightarrow> window result" where
  "set_values v v2 w =
     (let ref = getReference (refArr w) (activated w);
          w1 = take_target w;
          w2 = (case ref of None \<Rightarrow> w1 | Some r \<Rightarrow> w1\<lparr>callerTarget2 := target2 r\<rparr>);
          desc = (case ref of None \<Rightarrow> False | Some r \<Rightarrow> showDescription r)
      in and_then (write_value v (callerTarget w2) w2) (\<lambda>w3.
         and_then (write_value v2 (callerTarget2 w3) w3) (\<lambda>w4.
           closeLookup
             (if desc
              then on_described (setLookDescription (target_id (callerTarget w4) w4) (v @ '' '' @ v2) [] [] desc) w4
              else w4))))"

text \<open>With further arguments \<open>set_multivalues\<close> evaluates expressions over \<open>target.form\<close>, which a jQuery
  collection does not have.  The value it sets on the collection reaches no element.\<close>

definition set_multivalues :: "string \<Rightarrow> string list \<Rightarrow> window \<Rightarrow> window result" where
  "set_multivalues v args w =
     (case callerTarget w of
        Null \<Rightarrow> Inl TypeError
      | Bare n \<Rightarrow> Inl TypeError
      | Jq ns \<Rightarrow>
          if hasOpener w then Inl TypeError
          else
            let field = (case nodeOf w (target_id (Jq ns) w) of None \<Rightarrow> [] | Some n \<Rightarrow> [n]);
                w1 = w\<lparr>lookupChanged := lookupChanged w @ field\<rparr>
            in if length args \<ge> 2 then Inl TypeError else closeLookup w1)"

section \<open>Pop-up windows\<close>

text \<open>\<open>fieldLookup1\<close> and \<open>fieldLookup2\<close> store their targets for the pop-up window; without one they
  report an error and store nothing more.\<close>

definition fieldLookup1 :: "nat option \<Rightarrow> window \<Rightarrow> window" where
  "fieldLookup1 obj_target w =
     (case obj_target of None \<Rightarrow> w | Some n \<Rightarrow> w\<lparr>targetW := Some n\<rparr>)"

definition fieldLookup2 :: "nat option \<Rightarrow> nat option \<Rightarrow> window \<Rightarrow> window" where
  "fieldLookup2 obj_target obj_target2 w =
     (case obj_target of
        None \<Rightarrow> w
      | Some n \<Rightarrow>
          let w1 = w\<lparr>targetW := Some n\<rparr>
          in case obj_target2 of None \<Rightarrow> w1 | Some m \<Rightarrow> w1\<lparr>callerTarget2 := Bare m\<rparr>)"

text \<open>The page that a lookup opens in a window of its own: it has an opener and no dialog of its own.\<close>

definition popup_of :: "window \<Rightarrow> window" where
  "popup_of w = w\<lparr>refArr := [], activated := None, hasOpener := True, windowClosed := False\<rparr>"

definition call_fieldlookup2 :: "nat option \<Rightarrow> window \<Rightarrow> window" where
  "call_fieldlookup2 obj_target w = popup_of (fieldLookup1 obj_target w)"

definition call_fieldlookup3 :: "nat option \<Rightarrow> nat option \<Rightarrow> window \<Rightarrow> window" where
  "call_fieldlookup3 obj_target obj_target2 w = popup_of (fieldLookup2 obj_target obj_target2 w)"

section \<open>Stacks\<close>

text \<open>What the dialogs promise: opening puts a dialog on top unless it is open already, and closing
  takes the topmost one away.\<close>

datatype 'k action = Push 'k | Pop

fun stack_act :: "'k action \<Rightarrow> 'k list \<Rightarrow> 'k list option" where
  "stack_act (Push k) ks = Some (if k \<in> set ks then ks else k # ks)"
| "stack_act Pop [] = None"
| "stack_act Pop (k # ks) = Some ks"

fun stack_run :: "'k action list \<Rightarrow> 'k list \<Rightarrow> 'k list option" where
  "stack_run [] ks = Some ks"
| "stack_run (a # as) ks = Option.bind (stack_act a ks) (stack_run as)"

fun act :: "('k \<Rightarrow> 'w \<Rightarrow> 'w result) \<Rightarrow> ('w \<Rightarrow> 'w result) \<Rightarrow> 'k action \<Rightarrow> 'w \<Rightarrow> 'w result" where
  "act push pop (Push k) w = push k w"
| "act push pop Pop w = pop w"

fun pushed :: "'k action list \<Rightarrow> 'k set" where
  "pushed [] = {}"
| "pushed (Push k # as) = insert k (pushed as)"
| "pushed (Pop # as) = pushed as"

locale stack_machine =
  fixes rel :: "'w \<Rightarrow> 'k list \<Rightarrow> bool"
    and push :: "'k \<Rightarrow> 'w \<Rightarrow> 'w result"
    and pop :: "'w \<Rightarrow> 'w result"
    and known :: "'w \<Rightarrow> 'k set"
  assumes push_rel: "rel w ks \<Longrightarrow> k \<in> known w \<Longrightarrow>
      \<exists>w'. push k w = Inr w' \<and> rel w' (if k \<in> set ks then ks else k # ks) \<and> known w' = known w"
    and pop_rel: "rel w (k # ks) \<Longrightarrow> \<exists>w'. pop w = Inr w' \<and> rel w' ks \<and> known w' = known w"
begin

lemma act_rel:
  assumes "rel w ks" and "stack_act a ks = Some ks'" and "pushed [a] \<subseteq> known w"
  shows "\<exists>w'. act push pop a w = Inr w' \<and> rel w' ks' \<and> known w' = known w"
proof (cases a)
  case (Push k)
  with assms show ?thesis using push_rel [of w ks k] by simp
next
  case Pop
  with assms obtain k where "ks = k # ks'" by (cases ks) auto
  with Pop assms show ?thesis using pop_rel [of w k ks'] by simp
qed

lemma pushed_Cons: "pushed (a # as) = pushed [a] \<union> pushed as"
  by (cases a) auto

text \<open>A run that the abstract stack allows never fails, and it ends on the stack's result.\<close>

lemma run_rel:
  "rel w ks \<Longrightarrow> pushed as \<subseteq> known w \<Longrightarrow> stack_run as ks = Some ks' \<Longrightarrow>
   \<exists>w'. each_result (act push pop) as w = Inr w' \<and> rel w' ks'"
proof (induction as arbitrary: w ks)
  case (Cons a as)
  then obtain ks1 where ks1: "stack_act a ks = Some ks1" "stack_run as ks1 = Some ks'"
    by (auto simp: bind_eq_Some_conv)
  moreover have sub: "pushed [a] \<subseteq> known w" "pushed as \<subseteq> known w"
    using Cons.prems(2) pushed_Cons [of a as] by auto
  ultimately obtain w1 where "act push pop a w = Inr w1" "rel w1 ks1" "known w1 = known w"
    using act_rel [OF Cons.prems(1)] by blast
  with Cons.IH [of w1 ks1] ks1 sub show ?case by simp
qed simp

end

section \<open>The chain of dialogs\<close>

fun linked :: "(string \<Rightarrow> string option option) \<Rightarrow> string option \<Rightarrow> string list \<Rightarrow> bool" where
  "linked links a [] \<longleftrightarrow> a = None"
| "linked links a (k # ks) \<longleftrightarrow> a = Some k \<and> (\<exists>b. links k = Some b \<and> linked links b ks)"

definition links :: "window \<Rightarrow> string \<Rightarrow> string option option" where
  "links w k = map_option prevLookup (map_of (refArr w) k)"

text \<open>A window whose open dialogs are exactly the given stack, chained from the top.\<close>

definition chained :: "window \<Rightarrow> string list \<Rightarrow> bool" where
  "chained w ks \<longleftrightarrow>
     linked (links w) (activated w) ks \<and> distinct ks
     \<and> (\<forall>k r. map_of (refArr w) k = Some r \<longrightarrow> lookupId r = k \<and> (dialogIsOpen r \<longleftrightarrow> k \<in> set ks))"

definition with_button :: "window \<Rightarrow> string set" where
  "with_button w = {k. \<exists>r. map_of (refArr w) k = Some r \<and> hasButton r}"

lemma linked_cong:
  "(\<And>k. k \<in> set ks \<Longrightarrow> f k = g k) \<Longrightarrow> linked f a ks \<longleftrightarrow> linked g a ks"
  by (induction ks arbitrary: a) auto

lemma refs_update_ref [simp]:
  "map_of (refArr (update_ref k f w)) j =
     (if j = k then map_option f (map_of (refArr w) j) else map_of (refArr w) j)"
  by (auto simp: update_ref_def split: option.splits)

lemma update_ref_frame [simp]:
  "activated (update_ref k f w) = activated w" "nodeVal (update_ref k f w) = nodeVal w"
  "lookupChanged (update_ref k f w) = lookupChanged w" "callerTarget (update_ref k f w) = callerTarget w"
  "hasOpener (update_ref k f w) = hasOpener w" "targetW (update_ref k f w) = targetW w"
  "windowClosed (update_ref k f w) = windowClosed w"
  by (simp_all add: update_ref_def split: option.splits)

lemma links_update_ref:
  "links (update_ref k f w) j =
     (if j = k then map_option (\<lambda>r. prevLookup (f r)) (map_of (refArr w) j) else links w j)"
  by (auto simp: links_def option.map_comp comp_def)

lemma with_button_update_ref:
  "(\<And>r. hasButton (f r) = hasButton r) \<Longrightarrow> with_button (update_ref k f w) = with_button w"
  by (auto simp: with_button_def)

text \<open>Changing what is not part of the chain keeps a window chained.\<close>

lemma chained_update_ref:
  assumes "\<And>r. prevLookup (f r) = prevLookup r" "\<And>r. lookupId (f r) = lookupId r"
    "\<And>r. dialogIsOpen (f r) = dialogIsOpen r"
  shows "chained (update_ref k f w) ks = chained w ks"
proof -
  have "links (update_ref k f w) = links w"
    by (simp add: fun_eq_iff links_update_ref assms(1)) (simp add: links_def)
  moreover have "(\<forall>j r. map_of (refArr (update_ref k f w)) j = Some r \<longrightarrow> lookupId r = j \<and> (dialogIsOpen r \<longleftrightarrow> j \<in> set ks))
    \<longleftrightarrow> (\<forall>j r. map_of (refArr w) j = Some r \<longrightarrow> lookupId r = j \<and> (dialogIsOpen r \<longleftrightarrow> j \<in> set ks))"
    by (auto simp: assms(2,3) split: if_splits)
  ultimately show ?thesis by (simp only: chained_def update_ref_frame)
qed

lemma take_targets_frame [simp]:
  "chained (update_ref k take_targets w) ks = chained w ks"
  "with_button (update_ref k take_targets w) = with_button w"
  by (intro chained_update_ref with_button_update_ref; simp add: take_targets_def)+

lemma chained_frame:
  "refArr w' = refArr w \<Longrightarrow> activated w' = activated w \<Longrightarrow> chained w' ks = chained w ks"
  by (simp add: chained_def links_def [abs_def])

lemma chained_top: "chained w (k # ks) \<Longrightarrow> activated w = Some k"
  by (simp add: chained_def)

lemma chained_known: "chained w ks \<Longrightarrow> k \<in> set ks \<Longrightarrow> \<exists>r. map_of (refArr w) k = Some r"
proof -
  have "linked f a ks \<Longrightarrow> k \<in> set ks \<Longrightarrow> f k \<noteq> None" for f a
    by (induction ks arbitrary: a) auto
  then show "chained w ks \<Longrightarrow> k \<in> set ks \<Longrightarrow> ?thesis"
    by (fastforce simp: chained_def links_def)
qed

lemma chained_open: "chained w ks \<Longrightarrow> map_of (refArr w) k = Some r \<Longrightarrow> dialogIsOpen r \<longleftrightarrow> k \<in> set ks"
  by (simp add: chained_def)

text \<open>Opening a dialog that is not open.\<close>

definition chain_open :: "string \<Rightarrow> window \<Rightarrow> window" where
  "chain_open k w = lookupChaining k (update_ref k (\<lambda>r. r\<lparr>dialogIsOpen := True\<rparr>) w)"

lemma chained_chain_open:
  assumes "chained w ks" and "k \<notin> set ks" and "map_of (refArr w) k = Some r"
  shows "chained (chain_open k w) (k # ks)"
proof -
  let ?w = "chain_open k w"
  have look: "map_of (refArr ?w) j =
      (if j = k then Some (r\<lparr>dialogIsOpen := True, prevLookup := activated w\<rparr>) else map_of (refArr w) j)" for j
    using assms(3) by (simp add: chain_open_def lookupChaining_def update_ref_def)
  then have "links ?w k = Some (activated w)" and "\<And>j. j \<noteq> k \<Longrightarrow> links ?w j = links w j"
    by (simp_all add: links_def)
  moreover have "linked (links ?w) (activated w) ks = linked (links w) (activated w) ks"
  proof (rule linked_cong)
    fix j assume "j \<in> set ks"
    with assms(2) have "j \<noteq> k" by auto
    with calculation(2) show "links ?w j = links w j" by simp
  qed
  ultimately have "linked (links ?w) (Some k) (k # ks)"
    using assms(1) by (simp add: chained_def)
  moreover have "activated ?w = Some k" by (simp add: chain_open_def lookupChaining_def)
  moreover have "lookupId s = j \<and> (dialogIsOpen s \<longleftrightarrow> j \<in> set (k # ks))"
    if "map_of (refArr ?w) j = Some s" for j s
    using that assms look by (auto simp: chained_def split: if_splits)
  ultimately show ?thesis using assms(1,2) by (simp add: chained_def)
qed

lemma chaining_spin:
  "refArr (lookupChaining k (w\<lparr>spinning := b\<rparr>)) = refArr (lookupChaining k w)"
  "activated (lookupChaining k (w\<lparr>spinning := b\<rparr>)) = activated (lookupChaining k w)"
  by (cases "map_of (refArr w) k"; simp add: lookupChaining_def update_ref_def)+

lemma click_button_open:
  assumes "chained w ks" and "k \<in> with_button w"
  shows "chained (click_button k w) (if k \<in> set ks then ks else k # ks)
    \<and> with_button (click_button k w) = with_button w"
proof -
  from assms(2) obtain r where r: "map_of (refArr w) k = Some r" "hasButton r"
    by (auto simp: with_button_def)
  show ?thesis
  proof (cases "k \<in> set ks")
    case True
    then have "dialogIsOpen r" using chained_open [OF assms(1) r(1)] by simp
    then have "click_button k w = update_ref k take_targets w" using r by (simp add: click_button_def)
    with True assms(1) show ?thesis by simp
  next
    case False
    then have closed: "\<not> dialogIsOpen r" using chained_open [OF assms(1) r(1)] by simp
    define w1 where "w1 = dialogOpen k r (update_ref k (\<lambda>r. r\<lparr>dialogIsOpen := True\<rparr>) w)"
    have "refArr w1 = refArr (chain_open k w)" "activated w1 = activated (chain_open k w)"
      by (simp_all add: w1_def dialogOpen_def chain_open_def chaining_spin Let_def)
    then have "chained w1 (k # ks)" and "with_button w1 = with_button (chain_open k w)"
      using chained_frame [of w1 "chain_open k w" "k # ks"] chained_chain_open [OF assms(1) False r(1)]
      by (simp_all add: with_button_def)
    moreover have "with_button (chain_open k w) = with_button w"
      by (auto simp: with_button_def chain_open_def lookupChaining_def split: if_splits)
    moreover have "click_button k w = update_ref k take_targets w1"
      using r closed by (simp add: click_button_def w1_def Let_def)
    ultimately show ?thesis using False by simp
  qed
qed

text \<open>Closing the topmost dialog.\<close>

lemma close_top:
  assumes "chained w (k # ks)"
  shows "\<exists>w'. close_dialog k w = Inr w' \<and> chained w' ks \<and> with_button w' = with_button w
    \<and> nodeVal w' = nodeVal w \<and> lookupChanged w' = lookupChanged w"
proof -
  from assms obtain r where r: "map_of (refArr w) k = Some r"
    using chained_known by fastforce
  have top: "activated w = Some k" using assms by (rule chained_top)
  have opened: "dialogIsOpen r" using chained_open [OF assms r] by simp
  let ?u = "update_ref k (\<lambda>r. r\<lparr>dialogIsOpen := False\<rparr>) w"
  let ?w = "?u\<lparr>activated := prevLookup r\<rparr>"
  have close: "close_dialog k w = Inr ?w"
    using r opened top by (simp add: close_dialog_def dialogClose_def getReference_def)
  have links: "links ?w = links w" by (auto simp: fun_eq_iff links_def option.map_comp comp_def)
  have "linked (links w) (prevLookup r) ks" "distinct (k # ks)"
    using assms r by (auto simp: chained_def links_def)
  moreover have "lookupId s = j \<and> (dialogIsOpen s \<longleftrightarrow> j \<in> set ks)"
    if "map_of (refArr ?w) j = Some s" for j s
    using that assms by (auto simp: chained_def split: if_splits)
  ultimately have "chained ?w ks" by (simp add: chained_def links)
  moreover have "with_button ?w = with_button w" by (auto simp: with_button_def)
  ultimately show ?thesis using close by simp
qed

lemma getReference_top: "chained w (k # ks) \<Longrightarrow> \<exists>r. getReference (refArr w) (activated w) = Some r \<and> lookupId r = k"
proof -
  assume ch: "chained w (k # ks)"
  then obtain r where r: "map_of (refArr w) k = Some r" using chained_known by fastforce
  with ch have "lookupId r = k" by (simp add: chained_def)
  with r show ?thesis using chained_top [OF ch] by (simp add: getReference_def)
qed

lemma closeLookup_top:
  assumes "chained w (k # ks)"
  shows "\<exists>w'. closeLookup w = Inr w' \<and> chained w' ks \<and> with_button w' = with_button w
    \<and> nodeVal w' = nodeVal w \<and> lookupChanged w' = lookupChanged w"
  using close_top [OF assms] getReference_top [OF assms] by (auto simp: closeLookup_def)

interpretation dialogs: stack_machine chained "\<lambda>k w. Inr (click_button k w)" closeLookup with_button
proof unfold_locales
  fix w ks k
  assume "chained w ks" and "k \<in> with_button w"
  then show "\<exists>w'. Inr (click_button k w) = Inr w'
      \<and> chained w' (if k \<in> set ks then ks else k # ks) \<and> with_button w' = with_button w"
    using click_button_open by blast
next
  fix w k ks
  assume "chained w (k # ks)"
  then show "\<exists>w'. closeLookup w = Inr w' \<and> chained w' ks \<and> with_button w' = with_button w"
    using closeLookup_top by blast
qed

text \<open>Handing a value back through the head of the chain.\<close>

lemma set_value_activated:
  assumes "getReference (refArr w) (activated w) = Some r" and "target r = Jq [n]"
  shows "set_value v w = close_dialog (lookupId r)
    (w\<lparr>callerTarget := Jq [n], nodeVal := (nodeVal w)(n := v), lookupChanged := lookupChanged w @ [n]\<rparr>)"
  using assms by (simp add: set_value_def take_target_def write_value_def closeLookup_def)

text \<open>Creating a lookup keeps a window chained, and adds a closed dialog under a fresh key.\<close>

lemma init_lookup_chained:
  assumes "chained w ks" and "counter_wf (refArr w)" and "init_lookup os w = Inr w'"
  shows "chained w' ks \<and> counter_wf (refArr w')
    \<and> map_of (refArr w') (createNextKey (refArr w)) \<noteq> None
    \<and> with_button w' = (if optPresentation os = ''none'' then with_button w
                         else insert (createNextKey (refArr w)) (with_button w))"
proof -
  let ?k = "createNextKey (refArr w)"
  let ?r = "new_lookup ?k os"
  obtain w1 where m: "modifyContainer ?k os w = Inr w1"
    and w': "w' = w1\<lparr>refArr := setReference ?k ?r (refArr w1)\<rparr>"
    using assms(3) by (auto simp: init_lookup_def and_then_Inr Let_def)
  from m have w1: "refArr w1 = refArr w" "activated w1 = activated w"
    by (auto simp: modifyContainer_def split: option.splits)
  have r: "lookupId ?r = ?k" "\<not> dialogIsOpen ?r" "hasButton ?r = (optPresentation os \<noteq> ''none'')"
    by (simp_all add: new_lookup_def)
  have fresh: "map_of (refArr w) ?k = None" using assms(2) by (rule counter.next_free)
  have look: "map_of (refArr w') = (map_of (refArr w))(?k \<mapsto> ?r)"
    using assms(2) by (simp add: w' w1 setReference_next)
  have out: "?k \<notin> set ks" using chained_known [OF assms(1)] fresh by force
  have "linked (links w') (activated w) ks = linked (links w) (activated w) ks"
  proof (rule linked_cong)
    fix j assume "j \<in> set ks"
    with out have "j \<noteq> ?k" by auto
    then show "links w' j = links w j" by (simp add: links_def look)
  qed
  moreover have "activated w' = activated w" by (simp add: w' w1)
  moreover have "lookupId q = j \<and> (dialogIsOpen q \<longleftrightarrow> j \<in> set ks)"
    if "map_of (refArr w') j = Some q" for j q
    using that assms(1) out r by (auto simp: chained_def look split: if_splits)
  ultimately have "chained w' ks" using assms(1) by (simp add: chained_def)
  moreover have "counter_wf (refArr w')" using assms(2) by (simp add: w' w1 counter_wf_set)
  moreover have "with_button w' = (if optPresentation os = ''none'' then with_button w
      else insert ?k (with_button w))"
    using r fresh by (auto simp: with_button_def look)
  ultimately show ?thesis by (simp add: look)
qed

definition blank_window :: window where
  "blank_window = \<lparr>fieldVals = Map.empty, changedIds = [], wrapped = (\<lambda>_. True), tooltips = Map.empty,
     descRequests = [], refArr = [], activated = None,
     nodeOf = [''first'' \<mapsto> 1, ''second'' \<mapsto> 2], idOf = (\<lambda>_. []), nodeVal = (\<lambda>_. []), lookupChanged = [],
     callerTarget = Null, callerTarget2 = Null, targetW = None, hasOpener = False, windowClosed = False,
     spinning = False, dialogRequests = []\<rparr>"

definition lookup_field :: "string \<Rightarrow> nat \<Rightarrow> lookup_options" where
  "lookup_field i n = \<lparr>requestUrl = ''/find'', inputFieldId = i, dialogTarget = n, dialogOptionalTarget = None,
     optFormName = ''f'', optWidth = ''640'', optHeight = ''500'', optPosition = ''topleft'',
     modal = data_attr (Some ''true''), ajaxUrl = [], optDescription = Undefined,
     optPresentation = ''layer'', optArgs = []\<rparr>"

lemma lookup_field_simps [simp]:
  "inputFieldId (lookup_field i n) = i" "optPresentation (lookup_field i n) = ''layer''"
  by (simp_all add: lookup_field_def)

definition two_lookups :: window where
  "two_lookups =
     (case and_then (init_lookup (lookup_field ''first'' 1) blank_window) (init_lookup (lookup_field ''second'' 2)) of
        Inr w \<Rightarrow> w | Inl e \<Rightarrow> blank_window)"

lemma two_lookups_chained: "chained two_lookups []"
  and two_lookups_buttons: "with_button two_lookups = {lookup_key 0, lookup_key 1}"
proof -
  have b: "chained blank_window []" "with_button blank_window = {}" "refArr blank_window = []"
    by (simp_all add: chained_def blank_window_def with_button_def)
  have "nodeOf blank_window ''first'' = Some 1" "nodeOf blank_window ''second'' = Some 2"
    "''second'' \<noteq> new_box_id k (lookup_field ''first'' 1)" for k
    by (simp_all add: blank_window_def new_box_id_def lookup_key_def)
  then obtain w1 where w1: "init_lookup (lookup_field ''first'' 1) blank_window = Inr w1"
    and n2: "nodeOf w1 ''second'' = Some 2" and len: "length (refArr w1) = 1"
    by (simp add: init_lookup_def modifyContainer_def b setReference_def Let_def)
  obtain w2 where w2: "init_lookup (lookup_field ''second'' 2) w1 = Inr w2"
    using n2 by (simp add: init_lookup_def modifyContainer_def Let_def)
  have two: "two_lookups = w2" by (simp only: two_lookups_def w1 w2 and_then_simps sum.case)
  note i1 = init_lookup_chained [OF b(1) _ w1]
  note i2 = init_lookup_chained [OF _ _ w2, of "[]"]
  show "chained two_lookups []" using i1 i2 b by (simp add: two)
  show "with_button two_lookups = {lookup_key 0, lookup_key 1}"
    using i1 i2 b len
    by (auto simp: two createNextKey_def countFields_def)
qed

section \<open>Properties\<close>

text \<open>C1: However lookups are opened and closed, as long as each close takes the lookup on top, the chain
  of dialogs behaves as a stack: no handler fails, the open dialogs are those of the stack, and
  \<open>ACTIVATED_LOOKUP\<close> is its top.\<close>

theorem dialogs_refine_stack:
  assumes "chained w []" and "pushed as \<subseteq> with_button w" and "stack_run as [] = Some ks"
  shows "\<exists>w'. each_result (act (\<lambda>k w. Inr (click_button k w)) closeLookup) as w = Inr w'
    \<and> chained w' ks \<and> activated w' = (case ks of [] \<Rightarrow> None | k # _ \<Rightarrow> Some k)"
proof -
  obtain w' where w': "each_result (act (\<lambda>k w. Inr (click_button k w)) closeLookup) as w = Inr w'" "chained w' ks"
    using dialogs.run_rel [OF assms] by blast
  moreover have "activated w' = (case ks of [] \<Rightarrow> None | k # _ \<Rightarrow> Some k)"
    using w'(2) by (cases ks) (simp_all add: chained_def)
  ultimately show ?thesis by blast
qed

theorem dialogs_refine_stack_witness:
  "\<exists>w'. each_result (act (\<lambda>k w. Inr (click_button k w)) closeLookup)
      [Push (lookup_key 0), Push (lookup_key 1), Pop] two_lookups = Inr w'
    \<and> chained w' [lookup_key 0] \<and> activated w' = Some (lookup_key 0)"
  using dialogs_refine_stack [OF two_lookups_chained, of "[Push (lookup_key 0), Push (lookup_key 1), Pop]"
      "[lookup_key 0]"]
  by (simp add: two_lookups_buttons)

text \<open>C24: A value chosen in the topmost dialog is written into the element that dialog was opened for, the
  element is told that it changed, and the dialog below becomes the active one.\<close>

theorem set_value_hands_back:
  assumes "chained w (k # ks)" and "map_of (refArr w) k = Some r" and "target r = Jq [n]"
  shows "\<exists>w'. set_value v w = Inr w' \<and> chained w' ks \<and> nodeVal w' = (nodeVal w)(n := v)
    \<and> lookupChanged w' = lookupChanged w @ [n]"
proof -
  have ref: "getReference (refArr w) (activated w) = Some r" and "lookupId r = k"
    using assms chained_top [OF assms(1)] by (simp_all add: getReference_def chained_def)
  let ?w = "w\<lparr>callerTarget := Jq [n], nodeVal := (nodeVal w)(n := v), lookupChanged := lookupChanged w @ [n]\<rparr>"
  have "chained ?w (k # ks)" using assms(1) chained_frame [of ?w w "k # ks"] by simp
  from close_top [OF this] show ?thesis
    using set_value_activated [OF ref assms(3)] \<open>lookupId r = k\<close> by auto
qed

lemma opened_one:
  "chained (click_button (lookup_key 0) two_lookups) [lookup_key 0]"
  "\<exists>r. map_of (refArr (click_button (lookup_key 0) two_lookups)) (lookup_key 0) = Some r
     \<and> (\<exists>n. target r = Jq [n])"
proof -
  have k: "lookup_key 0 \<in> with_button two_lookups" by (simp add: two_lookups_buttons)
  show "chained (click_button (lookup_key 0) two_lookups) [lookup_key 0]"
    using click_button_open [OF two_lookups_chained k] by simp
  from k obtain r where "map_of (refArr two_lookups) (lookup_key 0) = Some r" "hasButton r"
    by (auto simp: with_button_def)
  then show "\<exists>r. map_of (refArr (click_button (lookup_key 0) two_lookups)) (lookup_key 0) = Some r
     \<and> (\<exists>n. target r = Jq [n])"
    by (auto simp: click_button_def Let_def take_targets_def dialogOpen_def lookupChaining_def)
qed

theorem set_value_hands_back_witness:
  "\<exists>w'. set_value ''10000'' (click_button (lookup_key 0) two_lookups) = Inr w' \<and> chained w' []"
  using opened_one set_value_hands_back [OF opened_one(1)] by blast

text \<open>The fade-background setting reaches the dialog inverted when the page states it as an attribute:
  \<open>data\<close> turns the text into a boolean, which is never equal to the text \<open>true\<close>, and a false value is
  replaced by the default.\<close>

lemma modal_setting_inverted:
  assumes "modal os = data_attr (Some (if b then ''true'' else ''false''))"
  shows "dlgModal (createDialogOptions os) \<longleftrightarrow> \<not> b"
  using assms by (simp add: createDialogOptions_def data_attr_def or_else_def eq_true_def)

lemma modal_setting_inverted_witness:
  "\<not> dlgModal (createDialogOptions (lookup_field ''first'' 1))"
  using modal_setting_inverted [of "lookup_field ''first'' 1" True]
  by (simp add: lookup_field_def)

text \<open>With two dialogs open, closing the lower one leaves it active although it is closed: the next
  value chosen in the dialog that is still open goes to the element of the closed one, and the
  open dialog stays on the page.\<close>

lemma lower_close_misdirects:
  assumes "chained w (k1 # k2 # ks)" and "map_of (refArr w) k2 = Some r2" and "target r2 = Jq [n]"
  shows "\<exists>w' w''. close_dialog k2 w = Inr w' \<and> activated w' = Some k2
    \<and> set_value v w' = Inr w'' \<and> nodeVal w'' = (nodeVal w)(n := v)
    \<and> (\<exists>r. map_of (refArr w'') k1 = Some r \<and> dialogIsOpen r)"
proof -
  obtain r1 where r1: "map_of (refArr w) k1 = Some r1" using assms(1) chained_known by fastforce
  have ne: "k1 \<noteq> k2" and prev: "prevLookup r1 = Some k2" and top: "activated w = Some k1"
    and "dialogIsOpen r1" "dialogIsOpen r2" and id2: "lookupId r2 = k2"
    using assms r1 by (auto simp: chained_def links_def)
  let ?c = "\<lambda>r. r\<lparr>dialogIsOpen := False\<rparr>"
  let ?w = "update_ref k2 ?c w\<lparr>activated := Some k2\<rparr>"
  have close: "close_dialog k2 w = Inr ?w"
    using assms(2) r1 ne prev top \<open>dialogIsOpen r2\<close>
    by (simp add: close_dialog_def dialogClose_def getReference_def)
  have ref: "getReference (refArr ?w) (activated ?w) = Some (?c r2)"
    using assms(2) by (simp add: getReference_def)
  let ?v = "?w\<lparr>callerTarget := Jq [n], nodeVal := (nodeVal ?w)(n := v), lookupChanged := lookupChanged ?w @ [n]\<rparr>"
  have "set_value v ?w = close_dialog k2 ?v"
    using set_value_activated [OF ref] assms(3) id2 by simp
  also have "\<dots> = Inr ?v" using assms(2) by (simp add: close_dialog_def)
  finally show ?thesis using close r1 ne \<open>dialogIsOpen r1\<close> by auto
qed

lemma opened_two:
  "chained (click_button (lookup_key 1) (click_button (lookup_key 0) two_lookups)) [lookup_key 1, lookup_key 0]"
  using click_button_open [OF opened_one(1), of "lookup_key 1"]
    click_button_open [OF two_lookups_chained, of "lookup_key 0"]
  by (simp add: two_lookups_buttons)

lemma target_kept:
  assumes "map_of (refArr w) k = Some r" and "j \<noteq> k"
  shows "\<exists>r'. map_of (refArr (click_button j w)) k = Some r' \<and> target r' = target r"
  using assms by (auto simp: click_button_def Let_def dialogOpen_def lookupChaining_def split: option.splits)

lemma lower_close_misdirects_witness:
  "\<exists>w'. close_dialog (lookup_key 0) (click_button (lookup_key 1) (click_button (lookup_key 0) two_lookups)) = Inr w'
    \<and> activated w' = Some (lookup_key 0)"
proof -
  obtain r n where "map_of (refArr (click_button (lookup_key 0) two_lookups)) (lookup_key 0) = Some r" "target r = Jq [n]"
    using opened_one(2) by blast
  then obtain r' where "map_of (refArr (click_button (lookup_key 1) (click_button (lookup_key 0) two_lookups)))
      (lookup_key 0) = Some r'" "target r' = Jq [n]"
    using target_kept [of "click_button (lookup_key 0) two_lookups" "lookup_key 0" r "lookup_key 1"] by auto
  from lower_close_misdirects [OF opened_two this] show ?thesis by blast
qed

text \<open>In a pop-up window opened for a field and its description, choosing both values fails after the
  first was written: the second target is a bare element, and the window stays open.\<close>

theorem popup_two_values_fail:
  "set_values v v2 (call_fieldlookup3 (Some n) (Some m) w) = Inl TypeError
   \<and> (\<exists>w'. set_value v (call_fieldlookup3 (Some n) (Some m) w) = Inr w'
        \<and> nodeVal w' = (nodeVal w)(n := v) \<and> windowClosed w')"
  by (simp add: set_values_def set_value_def call_fieldlookup3_def fieldLookup2_def popup_of_def
      take_target_def getReference_def jq_opt_def write_value_def closeLookup_def)

text \<open>\<open>set_multivalues\<close> never writes a value into a field: it fails, or it leaves every field of the
  page as it was.\<close>

theorem set_multivalues_writes_nothing:
  "case set_multivalues v args w of Inl e \<Rightarrow> e = TypeError | Inr w' \<Rightarrow> nodeVal w' = nodeVal w"
  by (auto simp: set_multivalues_def closeLookup_def close_dialog_def dialogClose_def Let_def
      split: js_ref.splits option.splits sum.splits if_splits)

end
