(* ===== verification/Lookup_Page.thy ===== *)
theory Lookup_Page
  imports Url_Params Lookup_Dialog
begin

text \<open>
  The inside of a lookup dialog and the set-up of lookup fields, from \<open>fieldlookup.js\<close> and
  \<open>OfbizUtil.js\<close>: \<open>ButtonModifier\<close>, which turns the links and buttons of the loaded page into requests
  of the dialog, those requests, the binding of fields to lookups in \<open>bindObservers\<close>, and the
  addresses of pop-up lookups.
\<close>

section \<open>Collapsible title bars\<close>

text \<open>A title bar: the class names of the children of its list, with the mark whether the child has a
  link in it; \<^const>\<open>None\<close> when the bar is empty.  The \<open>onclick\<close> of the link and the identifier of
  the panel behind the bar are what \<open>_modifyCollapseable\<close> sets.\<close>

record title_bar =
  barChildren :: "(string \<times> bool) list option"
  linkOnclick :: string
  linkHref :: string
  panelId :: string

definition lec_id :: "nat \<Rightarrow> string" where
  "lec_id n = ''lec'' @ nat_str n"

definition quote :: "string \<Rightarrow> string" where
  "quote s = CHR 0x27 # s @ [CHR 0x27]"

definition toggle_call :: "string \<Rightarrow> string" where
  "toggle_call panel =
     ''javascript:toggleScreenlet(this, '' @ quote panel @ '', '' @ quote ''true'' @ '', ''
       @ quote ''Expand'' @ '', '' @ quote ''Collapse'' @ '');''"

fun toggle_child :: "(string \<times> bool) list \<Rightarrow> bool option" where
  "toggle_child [] = None"
| "toggle_child ((cls, link) # cs) =
     (if cls = ''expanded'' \<or> cls = ''collapsed'' then Some link else toggle_child cs)"

text \<open>Without a matching child the loop ends on a method of the node list, which has no link either:
  setting its attribute throws.  The number is taken before that.\<close>

definition modify_bar :: "title_bar \<Rightarrow> title_bar list \<times> nat \<Rightarrow> (title_bar list \<times> nat) result" where
  "modify_bar b s =
     (case s of (done_bars, seq) \<Rightarrow>
        case barChildren b of
          None \<Rightarrow> Inl TypeError
        | Some cs \<Rightarrow>
            if toggle_child cs = Some True
            then Inr (done_bars @ [b\<lparr>linkOnclick := toggle_call (lec_id (Suc seq)),
                                     linkHref := ''javascript:void(0);'',
                                     panelId := lec_id (Suc seq)\<rparr>], Suc seq)
            else Inl TypeError)"

definition modifyCollapseable :: "title_bar list \<Rightarrow> nat \<Rightarrow> (title_bar list \<times> nat) result" where
  "modifyCollapseable bars seq = each_result modify_bar bars ([], seq)"

section \<open>The search form\<close>

record lookup_form =
  lfName :: string
  lfId :: string
  lfAction :: string
  lfSubmits :: "string list"
  lfButtons :: "(string \<times> string \<times> string) list"

text \<open>The submit inputs give way to one button each of whose parents gets; its text is the first
  input's value, and a click posts the form to the action it had.\<close>

definition modifySubmitButton :: "string \<Rightarrow> lookup_form \<Rightarrow> lookup_form" where
  "modifySubmitButton lookupDiv f =
     (let nm = ''form_'' @ lookupDiv
      in f\<lparr>lfName := nm, lfId := nm, lfAction := [], lfSubmits := [],
           lfButtons := lfButtons f
             @ (case lfSubmits f of [] \<Rightarrow> [] | txt # _ \<Rightarrow> [(txt, lfAction f, nm)])\<rparr>)"

section \<open>Pagination and result links\<close>

text \<open>A pagination link marks itself before it runs the handler it had.\<close>

definition mark_pager :: "pager \<Rightarrow> pager" where
  "mark_pager ob = ob\<lparr>lookupajax := Some ''true''\<rparr>"

definition modify_link :: "string \<Rightarrow> string" where
  "modify_link link =
     (if indexOf link ''javascript:set_'' \<noteq> -1 then link
      else
        let liSub = substring link (lastIndexOf link ''/'' + 1) (int (length link))
        in ''javascript:lookupAjaxRequest('' @ quote (liSub @ ''&presentation=layer'') @ '')'')"

definition modifyResultTable :: "(string \<times> string) list list list \<Rightarrow> (string \<times> string) list list list" where
  "modifyResultTable rows =
     map (map (map (\<lambda>(tag, href). (tag, if tag = ''A'' then modify_link href else href)))) rows"

section \<open>Requests of the dialog\<close>

text \<open>The part of the page a dialog fills: its content, the spinners on its title bar, the requests it
  sent with their data, and whether the page has been reloaded.\<close>

record pane =
  paneContent :: string
  indicators :: nat
  paneRequests :: "(string \<times> string) list"
  reloaded :: bool

definition pane_load :: "string \<Rightarrow> pane \<Rightarrow> pane" where
  "pane_load request p = p\<lparr>paneRequests := paneRequests p @ [split_request request]\<rparr>"

definition lookupAjaxRequest :: "string \<Rightarrow> window \<Rightarrow> pane \<Rightarrow> pane result" where
  "lookupAjaxRequest request w p =
     (case getReference (refArr w) (activated w) of
        None \<Rightarrow> Inl TypeError
      | Some r \<Rightarrow> Inr (pane_load request p))"

definition add_indicator :: "pane \<Rightarrow> pane" where
  "add_indicator p = (if indicators p = 0 then p\<lparr>indicators := 1\<rparr> else p)"

definition lookupFormAjaxRequest :: "string \<Rightarrow> string \<Rightarrow> window \<Rightarrow> pane \<Rightarrow> pane result" where
  "lookupFormAjaxRequest formAct serialized w p =
     (case getReference (refArr w) (activated w) of
        None \<Rightarrow> Inl TypeError
      | Some r \<Rightarrow>
          let q = add_indicator p
          in Inr (q\<lparr>paneRequests := paneRequests q
                      @ [(formAct, serialized @ ''&presentation='' @ presentation r)]\<rparr>))"

definition lookupPaginationAjaxRequest :: "string \<Rightarrow> window \<Rightarrow> pane \<Rightarrow> pane result" where
  "lookupPaginationAjaxRequest navAction w p =
     (case getReference (refArr w) (activated w) of
        None \<Rightarrow> Inl TypeError
      | Some r \<Rightarrow>
          let q = add_indicator p
          in Inr (q\<lparr>paneRequests := paneRequests q @ [split_request navAction]\<rparr>))"

text \<open>The answer: a login page reloads the window, anything else replaces the content and the spinners.\<close>

definition pane_success :: "string \<Rightarrow> pane \<Rightarrow> pane" where
  "pane_success content p =
     (if occurs ''loginform'' content then p\<lparr>reloaded := True\<rparr>
      else p\<lparr>paneContent := content, indicators := 0\<rparr>)"

text \<open>What a click on a pagination link inside the dialog does.\<close>

definition click_pager :: "pager \<Rightarrow> string \<Rightarrow> window \<Rightarrow> pane \<Rightarrow> pane result" where
  "click_pager ob url w p =
     (case fst (submitPagination True (mark_pager ob) url) of
        LookupAjax u _ \<Rightarrow> lookupPaginationAjaxRequest u w p
      | _ \<Rightarrow> Inr p)"

section \<open>Panels that start collapsed\<close>

text \<open>\<open>CollapsePanel\<close> asks a jQuery collection for Prototype's \<open>up\<close>: it throws.\<close>

definition CollapsePanel :: "unit result" where
  "CollapsePanel = Inl TypeError"

definition initiallyCollapse :: "title_bar list option \<Rightarrow> string option \<Rightarrow> unit result" where
  "initiallyCollapse lookup_div initially_collapsed =
     (case lookup_div of
        None \<Rightarrow> Inr ()
      | Some bars \<Rightarrow>
          if initially_collapsed \<noteq> Some ''true'' then Inr ()
          else case bars of
                 [] \<Rightarrow> Inr ()
               | b # _ \<Rightarrow> (case barChildren b of None \<Rightarrow> Inl TypeError | Some _ \<Rightarrow> CollapsePanel))"

section \<open>Binding fields to lookups\<close>

record lookup_attrs =
  atPresentation :: string
  atAjaxEnabled :: js_data
  atDescriptionField :: string
  atFieldFormName :: string
  atOptionalTarget :: string
  atArgs :: string
  atRequestUrl :: string
  atWidth :: string
  atHeight :: string
  atPosition :: string
  atModal :: js_data
  atAjaxUrl :: string
  atShowDescription :: js_data

record lookup_form_env =
  envFormName :: string
  envInput :: "string \<Rightarrow> nat option"
  envValue :: "nat \<Rightarrow> string"

datatype binding =
    Unbound
  | PopupTwo "nat option" string string "string list"
  | PopupOne string string "string list"
  | Layer lookup_options

fun all_some :: "'a option list \<Rightarrow> 'a list option" where
  "all_some [] = Some []"
| "all_some (x # xs) = (case (x, all_some xs) of (Some a, Some as) \<Rightarrow> Some (a # as) | _ \<Rightarrow> None)"

definition arg_names :: "lookup_attrs \<Rightarrow> string list" where
  "arg_names a = (if atArgs a = [] then [] else split (atArgs a) '', '')"

text \<open>A pop-up takes the values of its argument fields when it is bound, and an argument field that is
  missing throws; a layer keeps the fields themselves.\<close>

definition bind_lookup :: "lookup_attrs \<Rightarrow> string \<Rightarrow> nat \<Rightarrow> lookup_form_env \<Rightarrow> binding result" where
  "bind_lookup a fieldId field env =
     (if envFormName env = [] then Inr Unbound
      else if atPresentation a = ''window'' then
        case all_some (map (envInput env) (arg_names a)) of
          None \<Rightarrow> Inl TypeError
        | Some ns \<Rightarrow>
            let vals = map (envValue env) ns
            in if atDescriptionField a \<noteq> []
               then Inr (PopupTwo (envInput env (atDescriptionField a)) (atFieldFormName a) (atPresentation a) vals)
               else Inr (PopupOne (atFieldFormName a) (atPresentation a) vals)
      else
        Inr (Layer \<lparr>requestUrl = atRequestUrl a, inputFieldId = fieldId, dialogTarget = field,
                    dialogOptionalTarget = (if atOptionalTarget a \<noteq> [] then envInput env (atOptionalTarget a)
                                            else None),
                    optFormName = envFormName env, optWidth = atWidth a, optHeight = atHeight a,
                    optPosition = atPosition a, modal = atModal a, ajaxUrl = atAjaxUrl a,
                    optDescription = atShowDescription a,
                    optPresentation = (if atPresentation a = [] then ''layer'' else atPresentation a),
                    optArgs = map (envInput env) (arg_names a)\<rparr>))"

text \<open>A pop-up lookup gets an auto-completer of its own when the field asks for one.\<close>

definition bind_completer :: "lookup_attrs \<Rightarrow> string option" where
  "bind_completer a =
     (if truthy (atAjaxEnabled a) \<and> atPresentation a = ''window'' then Some (atAjaxUrl a) else None)"

text \<open>The address a bound pop-up opens.  The presentation is the name the call stored, and the
  arguments are those of the call: the elements at the first places are never printed.\<close>

definition popup_address :: "string \<Rightarrow> binding \<Rightarrow> string option" where
  "popup_address lid b =
     (case b of
        PopupOne viewName pres vals \<Rightarrow>
          Some (lookup_popup2_url pres lid (Some ([[], viewName, pres] @ vals)) viewName)
      | PopupTwo _ viewName pres vals \<Rightarrow>
          Some (lookup_popup2_url pres lid (Some ([[], [], viewName, pres] @ vals)) viewName)
      | _ \<Rightarrow> None)"

section \<open>Lemmas\<close>

lemma lec_id_inject [simp]: "lec_id m = lec_id n \<longleftrightarrow> m = n"
  by (simp add: lec_id_def)

definition linked_bar :: "nat \<Rightarrow> title_bar \<Rightarrow> title_bar" where
  "linked_bar n b =
     b\<lparr>linkOnclick := toggle_call (lec_id n), linkHref := ''javascript:void(0);'', panelId := lec_id n\<rparr>"

lemma modify_bar_Inr:
  "modify_bar b (done_bars, seq) = Inr s \<Longrightarrow> s = (done_bars @ [linked_bar (Suc seq) b], Suc seq)"
  by (auto simp: modify_bar_def linked_bar_def split: option.splits if_splits)

lemma modify_bars:
  "each_result modify_bar bars (done_bars, seq) = Inr (bs, n) \<Longrightarrow>
   n = seq + length bars \<and> (\<exists>new. bs = done_bars @ new
     \<and> map panelId new = map lec_id [Suc seq..<Suc (seq + length bars)]
     \<and> (\<forall>b \<in> set new. linkOnclick b = toggle_call (panelId b)))"
proof (induction bars arbitrary: done_bars seq)
  case (Cons b bars)
  then have "each_result modify_bar bars (done_bars @ [linked_bar (Suc seq) b], Suc seq) = Inr (bs, n)"
    by (auto simp: and_then_Inr dest!: modify_bar_Inr)
  from Cons.IH [OF this] obtain new where "n = Suc seq + length bars"
    "bs = done_bars @ linked_bar (Suc seq) b # new"
    "map panelId new = map lec_id [Suc (Suc seq)..<Suc (Suc seq + length bars)]"
    "\<forall>b \<in> set new. linkOnclick b = toggle_call (panelId b)" by auto
  then show ?case
    by (auto simp: upt_conv_Cons linked_bar_def simp del: upt_Suc)
qed simp

text \<open>Cutting a link at its last slash.\<close>

lemma modify_link_name:
  assumes "CHR ''/'' \<notin> set req" and "\<not> occurs ''javascript:set_'' (base @ ''/'' @ req)"
  shows "modify_link (base @ ''/'' @ req) = ''javascript:lookupAjaxRequest('' @ quote (req @ ''&presentation=layer'') @ '')''"
proof -
  have "substring (base @ ''/'' @ req) (int (length base) + 1) (int (length (base @ ''/'' @ req))) = req"
    using substring_to_end [of "base @ ''/'' @ req" "length base"] by simp
  then show ?thesis
    using assms lastIndexOf_last [of "CHR ''/''" req base]
    by (simp add: modify_link_def indexOf_minus1_iff)
qed

lemma popup2_args_skip: "2 \<le> i \<Longrightarrow> popup2_args i as =
    concat (map (\<lambda>k. ''&parm'' @ int_str (int (i + k) - 3) @ ''='' @ as ! k) [0..<length as])"
proof (induction as arbitrary: i)
  case (Cons a as)
  have "map (\<lambda>k. ''&parm'' @ int_str (int (i + k) - 3) @ ''='' @ (a # as) ! k) [0..<Suc (length as)]
      = (''&parm'' @ int_str (int i - 3) @ ''='' @ a)
        # map (\<lambda>k. ''&parm'' @ int_str (int (Suc i + k) - 3) @ ''='' @ as ! k) [0..<length as]"
    by (simp add: upt_conv_Cons map_Suc_upt [symmetric] comp_def algebra_simps del: upt_Suc)
  with Cons show ?case by simp
qed simp

section \<open>Properties\<close>

text \<open>After the title bars of a dialog were modified, every panel has an identifier of its own, greater
  than all those handed out before, and the link of each bar toggles exactly its own panel.\<close>

lemma bars_toggle_own_panel:
  assumes "modifyCollapseable bars seq = Inr (bars', seq')"
  shows "seq' = seq + length bars \<and> map panelId bars' = map lec_id [Suc seq..<Suc seq'] \<and> distinct (map panelId bars')
    \<and> list_all (\<lambda>b. linkOnclick b = toggle_call (panelId b)) bars'"
  using modify_bars [of bars "[]" seq bars' seq'] assms
  by (auto simp: modifyCollapseable_def list_all_iff distinct_map inj_on_def simp del: upt_Suc)

lemma bars_toggle_own_panel_witness:
  "\<exists>bars'. modifyCollapseable [\<lparr>barChildren = Some [([], False), (''expanded'', True)], linkOnclick = [],
      linkHref = [], panelId = []\<rparr>] 1999 = Inr (bars', 2000) \<and> map panelId bars' = [lec_id 2000]"
proof -
  let ?b = "\<lparr>barChildren = Some [([], False), (''expanded'', True)], linkOnclick = [], linkHref = [], panelId = []\<rparr>"
  obtain bs n where m: "modifyCollapseable [?b] 1999 = Inr (bs, n)"
    by (simp add: modifyCollapseable_def modify_bar_def)
  with bars_toggle_own_panel [OF m] show ?thesis by auto
qed

text \<open>A result link of a dialog becomes a request of that dialog: it asks for the page the link named,
  with the parameters of the link and the mark for the layer.  A link without parameters loses its
  page: the request goes to the empty address, with the page's name among the data.\<close>

theorem result_link_requested:
  assumes "CHR ''/'' \<notin> set (page @ q)" and "CHR ''?'' \<notin> set page"
    and "\<not> occurs ''javascript:set_'' (base @ ''/'' @ page @ q)"
    and "getReference (refArr w) (activated w) = Some r"
  shows "\<exists>request. modify_link (base @ ''/'' @ page @ q) = ''javascript:lookupAjaxRequest('' @ quote request @ '')''
    \<and> (q = [] \<longrightarrow> lookupAjaxRequest request w p
          = Inr (p\<lparr>paneRequests := paneRequests p @ [([], page @ ''&presentation=layer'')]\<rparr>))
    \<and> (\<forall>ps. q = ''?'' @ ps \<longrightarrow> lookupAjaxRequest request w p
          = Inr (p\<lparr>paneRequests := paneRequests p @ [(page, ps @ ''&presentation=layer'')]\<rparr>))"
proof (intro exI conjI impI allI)
  let ?request = "(page @ q) @ ''&presentation=layer''"
  show "modify_link (base @ ''/'' @ page @ q) = ''javascript:lookupAjaxRequest('' @ quote ?request @ '')''"
    using assms(1,3) by (intro modify_link_name) simp_all
  show "lookupAjaxRequest ?request w p
      = Inr (p\<lparr>paneRequests := paneRequests p @ [([], page @ ''&presentation=layer'')]\<rparr>)" if "q = []"
    using that assms(2,4) by (simp add: lookupAjaxRequest_def pane_load_def split_request_no_query)
  show "lookupAjaxRequest ?request w p
      = Inr (p\<lparr>paneRequests := paneRequests p @ [(page, ps @ ''&presentation=layer'')]\<rparr>)" if "q = ''?'' @ ps" for ps
    using that assms(2,4) split_request_join [of page "ps @ ''&presentation=layer''"]
    by (simp add: lookupAjaxRequest_def pane_load_def)
qed

text \<open>The parameters of a pop-up lookup are numbered from zero when it fills one field, and from one
  when it fills a field and its description: the page that is opened finds the first argument
  under another name, and the presentation under the first one's.\<close>

theorem popup_parameters_shift:
  "popup_address lid (PopupOne v pres vals) = Some (getViewNameWithSeparator v @ ''presentation='' @ pres
      @ ''&id='' @ lid @ ''&parm-1='' @ pres
      @ concat (map (\<lambda>k. ''&parm'' @ int_str (int k) @ ''='' @ vals ! k) [0..<length vals]))
   \<and> popup_address lid (PopupTwo d v pres vals) = Some (getViewNameWithSeparator v @ ''presentation='' @ pres
      @ ''&id='' @ lid @ ''&parm-1='' @ v @ ''&parm0='' @ pres
      @ concat (map (\<lambda>k. ''&parm'' @ int_str (int k + 1) @ ''='' @ vals ! k) [0..<length vals]))"
proof -
  have m: "int_str (- 1) = ''-1''" and z: "int_str 0 = ''0''" by code_simp+
  have a: "popup2_args (Suc (Suc (Suc 0))) vals = concat (map (\<lambda>k. ''&parm'' @ int_str (int k) @ ''='' @ vals ! k) [0..<length vals])"
    "popup2_args (Suc (Suc (Suc (Suc 0)))) vals = concat (map (\<lambda>k. ''&parm'' @ int_str (int k + 1) @ ''='' @ vals ! k) [0..<length vals])"
    using popup2_args_skip [of "Suc (Suc (Suc 0))" vals] popup2_args_skip [of "Suc (Suc (Suc (Suc 0)))" vals]
    by (simp_all add: algebra_simps)
  show ?thesis
    by (simp add: popup_address_def lookup_popup2_url_def m z) (simp add: a)
qed

theorem result_link_requested_witness:
  "let w = click_button (lookup_key 0) two_lookups
   in \<exists>request. modify_link (''https://h/c'' @ ''/'' @ ''LookupParty'' @ ''?a=1'')
        = ''javascript:lookupAjaxRequest('' @ quote request @ '')''
      \<and> lookupAjaxRequest request w \<lparr>paneContent = [], indicators = 0, paneRequests = [], reloaded = False\<rparr>
        = Inr \<lparr>paneContent = [], indicators = 0,
               paneRequests = [(''LookupParty'', ''a=1&presentation=layer'')], reloaded = False\<rparr>"
proof -
  let ?w = "click_button (lookup_key 0) two_lookups"
  obtain r where r: "getReference (refArr ?w) (activated ?w) = Some r"
    using getReference_top [OF opened_one(1)] by blast
  have n: "\<not> occurs ''javascript:set_'' (''https://h/c'' @ ''/'' @ ''LookupParty'' @ ''?a=1'')" by code_simp
  show ?thesis
    using result_link_requested [OF _ _ n r,
        of "\<lparr>paneContent = [], indicators = 0, paneRequests = [], reloaded = False\<rparr>"]
    by (simp add: Let_def)
qed

section \<open>The window that a pop-up hands values back to\<close>

text \<open>The number in the address of the window: the first \<open>id=\<close> that is followed by a digit, or zero.\<close>

fun find_id :: "string \<Rightarrow> nat option" where
  "find_id [] = None"
| "find_id (c # s) =
     (let ds = takeWhile is_digit (drop 2 s)
      in if prefix ''id='' (c # s) \<and> ds \<noteq> [] then Some (digits_val 0 ds) else find_id s)"

definition num_id :: "string \<Rightarrow> nat" where
  "num_id address = (case find_id address of None \<Rightarrow> 0 | Some n \<Rightarrow> n)"

text \<open>A window of another origin throws when it is read; the lookups of an opener, when it has any, by number.\<close>

datatype window_opener = No_Opener | Foreign_Opener | Opener "(nat \<Rightarrow> bool) option"

datatype caller_window = Lookup_Of nat | The_Opener | The_Parent

definition find_caller :: "string \<Rightarrow> window_opener \<Rightarrow> caller_window" where
  "find_caller address w =
     (case w of
        No_Opener \<Rightarrow> The_Parent
      | Foreign_Opener \<Rightarrow> The_Parent
      | Opener lookups \<Rightarrow>
          (case lookups of
             None \<Rightarrow> The_Opener
           | Some l \<Rightarrow> if l (num_id address) then Lookup_Of (num_id address) else The_Opener))"

lemma takeWhile_digits: "b = [] \<or> \<not> is_digit (hd b) \<Longrightarrow> takeWhile is_digit (nat_str n @ b) = nat_str n"
  using nat_str_digits [of n] by (cases b) (simp_all add: takeWhile_append)

text \<open>An address with the number of a lookup, and no other \<open>=\<close> before it, leads to that lookup of the opener.\<close>

lemma numbered_caller:
  assumes "CHR ''='' \<notin> set a" "b = [] \<or> \<not> is_digit (hd b)" "l n"
  shows "find_caller (a @ ''id='' @ nat_str n @ b) (Opener (Some l)) = Lookup_Of n"
proof -
  note digits = takeWhile_digits [OF assms(2), of n]
  have "find_id (a @ ''id='' @ nat_str n @ b) = Some n"
    using assms(1)
  proof (induction a)
    case Nil
    then show ?case using digits by simp
  next
    case (Cons c a)
    have "\<not> prefix ''id='' ((c # a) @ ''id='' @ nat_str n @ b)"
      using Cons.prems by (cases a; cases "tl a") auto
    then show ?case using Cons by (auto simp: Let_def)
  qed
  then show ?thesis using assms(3) by (simp add: find_caller_def num_id_def)
qed

end
