(* ===== verification/Js_Date.thy ===== *)
theory Js_Date
  imports Js_Prelude
begin

text \<open>
  Dates of JavaScript, as the Gantt chart and the time zone code use them: the proleptic Gregorian
  calendar of the language standard, over the milliseconds of local time.  \<^const>\<open>None\<close> is the invalid
  date.  Local time is taken to run without shifts, so that a day has 86400000 milliseconds, and the
  bound of the standard on the size of a time value is left out.
\<close>

type_synonym date = "int option"

abbreviation msPerDay :: int where
  "msPerDay \<equiv> 86400000"

section \<open>Years and days\<close>

definition DayFromYear :: "int \<Rightarrow> int" where
  "DayFromYear y = 365 * (y - 1970) + (y - 1969) div 4 - (y - 1901) div 100 + (y - 1601) div 400"

definition leap :: "int \<Rightarrow> bool" where
  "leap y \<longleftrightarrow> y mod 4 = 0 \<and> (y mod 100 \<noteq> 0 \<or> y mod 400 = 0)"

definition days_in_year :: "int \<Rightarrow> int" where
  "days_in_year y = (if leap y then 366 else 365)"

text \<open>The year of a day: an estimate from the mean length of a year, which is off by one at most.\<close>

definition year_guess :: "int \<Rightarrow> int" where
  "year_guess d = 1970 + (400 * d) div 146097"

definition YearFromDay :: "int \<Rightarrow> int" where
  "YearFromDay d =
     (let y = year_guess d
      in if d < DayFromYear y then y - 1 else if DayFromYear (y + 1) \<le> d then y + 1 else y)"

lemma quotient_bounds:
  fixes n x :: int
  assumes "0 < n"
  shows "n * (x div n) \<le> x" and "x < n * (x div n) + n"
  using mult_div_mod_eq [of n x] pos_mod_sign [OF assms, of x] pos_mod_bound [OF assms, of x] by linarith+

lemma DayFromYear_bounds:
  "146097 * y - 287811890 < 400 * DayFromYear y" "400 * DayFromYear y < 146097 * y - 287810290"
proof -
  define a where "a = (y - 1969) div 4"
  define b where "b = (y - 1901) div 100"
  define c where "c = (y - 1601) div 400"
  have a: "4 * a \<le> y - 1969" "y - 1969 < 4 * a + 4" unfolding a_def by (rule quotient_bounds; simp)+
  have b: "100 * b \<le> y - 1901" "y - 1901 < 100 * b + 100" unfolding b_def by (rule quotient_bounds; simp)+
  have c: "400 * c \<le> y - 1601" "y - 1601 < 400 * c + 400" unfolding c_def by (rule quotient_bounds; simp)+
  have d: "DayFromYear y = 365 * y - 719050 + a - b + c"
    by (simp add: DayFromYear_def a_def b_def c_def)
  show "146097 * y - 287811890 < 400 * DayFromYear y" using a b c d by linarith
  show "400 * DayFromYear y < 146097 * y - 287810290" using a b c d by linarith
qed

lemma div_pred:
  assumes "0 < (n :: int)"
  shows "y div n = (y - 1) div n + (if y mod n = 0 then 1 else 0)"
proof (cases "y mod n = 0")
  case True
  then have "y = n * (y div n)" using mult_div_mod_eq [of n y] by simp
  then have "y - 1 = n * (y div n - 1) + (n - 1)" by (simp add: algebra_simps)
  then have "(y - 1) div n = y div n - 1" using assms by (intro int_div_pos_eq [of _ _ _ "n - 1"]) auto
  with True show ?thesis by simp
next
  case False
  have "y - 1 = n * (y div n) + (y mod n - 1)" using mult_div_mod_eq [of n y] by simp
  moreover have "0 \<le> y mod n" "y mod n < n" using assms by simp_all
  ultimately have "(y - 1) div n = y div n"
    using False by (intro int_div_pos_eq [of _ _ _ "y mod n - 1"]) auto
  with False show ?thesis by simp
qed

lemma div_shift: "(y - (1 + n * k)) div n = (y - 1) div n - k" if "0 < n" for n k y :: int
proof -
  have eq: "y - (1 + n * k) = (y - 1) + (- k) * n" by (simp add: algebra_simps)
  show ?thesis unfolding eq using that by (subst div_mult_self1) simp_all
qed

lemma DayFromYear_alt:
  "DayFromYear y = 365 * (y - 1970) + ((y - 1) div 4 - 492) - ((y - 1) div 100 - 19) + ((y - 1) div 400 - 4)"
  using div_shift [of 4 y 492] div_shift [of 100 y 19] div_shift [of 400 y 4] by (simp add: DayFromYear_def)

lemma DayFromYear_Suc: "DayFromYear (y + 1) = DayFromYear y + days_in_year y"
proof -
  have d: "y div 4 = (y - 1) div 4 + (if y mod 4 = 0 then 1 else 0)"
    "y div 100 = (y - 1) div 100 + (if y mod 100 = 0 then 1 else 0)"
    "y div 400 = (y - 1) div 400 + (if y mod 400 = 0 then 1 else 0)" by (intro div_pred; simp)+
  have "400 dvd y \<Longrightarrow> 100 dvd y" "100 dvd y \<Longrightarrow> 4 dvd y" by (auto intro: dvd_trans [rotated])
  then have m: "y mod 400 = 0 \<Longrightarrow> y mod 100 = 0" "y mod 100 = 0 \<Longrightarrow> y mod 4 = 0"
    by (simp_all add: mod_eq_0_iff_dvd)
  have s: "(x + p - u) - (z + q - v) + (w + r - t) = (x - u) - (z - v) + (w - t) + p - q + r"
    for x p u z q v w r t :: int by simp
  have "DayFromYear (y + 1) = 365 * (y - 1970) + 365 + ((y div 4 - 492) - (y div 100 - 19) + (y div 400 - 4))"
    by (simp add: DayFromYear_alt)
  also have "\<dots> = DayFromYear y + 365 + (if y mod 4 = 0 then 1 else 0) - (if y mod 100 = 0 then 1 else 0)
      + (if y mod 400 = 0 then 1 else 0)"
    unfolding d s by (simp add: DayFromYear_alt)
  finally have e: "DayFromYear (y + 1) = DayFromYear y + 365 + (if y mod 4 = 0 then 1 else 0)
    - (if y mod 100 = 0 then 1 else 0) + (if y mod 400 = 0 then 1 else 0)" .
  define A B C where abc: "A \<longleftrightarrow> y mod 4 = 0" "B \<longleftrightarrow> y mod 100 = 0" "C \<longleftrightarrow> y mod 400 = 0"
  have "C \<longrightarrow> B" "B \<longrightarrow> A" using m unfolding abc by blast+
  then show ?thesis
    unfolding e days_in_year_def leap_def abc [symmetric] by (cases A; cases B; cases C; simp)
qed

lemma DayFromYear_less: "x < y \<Longrightarrow> DayFromYear x < DayFromYear y"
proof -
  have "DayFromYear x < DayFromYear (x + 1 + int n)" for n
  proof (induction n)
    case 0
    show ?case by (simp add: DayFromYear_Suc days_in_year_def)
  next
    case (Suc n)
    then show ?case using DayFromYear_Suc [of "x + 1 + int n"] by (simp add: days_in_year_def add.assoc)
  qed
  moreover assume "x < y"
  then have "y = x + 1 + int (nat (y - x - 1))" by simp
  ultimately show ?thesis by metis
qed

text \<open>Every day lies in its year, and in no other.\<close>

lemma YearFromDay_bounds: "DayFromYear (YearFromDay d) \<le> d" "d < DayFromYear (YearFromDay d + 1)"
proof -
  define y where "y = year_guess d"
  have g: "146097 * y - 287811090 \<le> 400 * d" "400 * d < 146097 * y - 287664993"
    using quotient_bounds [of 146097 "400 * d"] unfolding y_def year_guess_def by simp_all
  have "DayFromYear (y - 1) \<le> d" using DayFromYear_bounds(2) [of "y - 1"] g by (simp add: right_diff_distrib)
  moreover have "d < DayFromYear (y + 2)" using DayFromYear_bounds(1) [of "y + 2"] g by (simp add: distrib_left)
  ultimately have "DayFromYear (YearFromDay d) \<le> d \<and> d < DayFromYear (YearFromDay d + 1)"
    unfolding YearFromDay_def Let_def y_def [symmetric] by (auto simp: add.commute)
  then show "DayFromYear (YearFromDay d) \<le> d" "d < DayFromYear (YearFromDay d + 1)" by simp_all
qed

lemma YearFromDay_unique: "DayFromYear y \<le> d \<Longrightarrow> d < DayFromYear (y + 1) \<Longrightarrow> YearFromDay d = y"
  using YearFromDay_bounds [of d] DayFromYear_less [of y "YearFromDay d"] DayFromYear_less [of "YearFromDay d" y]
    DayFromYear_less [of "y + 1" "YearFromDay d"] DayFromYear_less [of "YearFromDay d + 1" y]
  by (smt (verit))

section \<open>Months\<close>

text \<open>The days of the year before a month, from 0 for January.\<close>

definition month_start :: "bool \<Rightarrow> int \<Rightarrow> int" where
  "month_start lp m =
     (let l = (if lp then 1 else 0)
      in if m \<le> 0 then 0 else if m = 1 then 31 else if m = 2 then 59 + l else if m = 3 then 90 + l
         else if m = 4 then 120 + l else if m = 5 then 151 + l else if m = 6 then 181 + l
         else if m = 7 then 212 + l else if m = 8 then 243 + l else if m = 9 then 273 + l
         else if m = 10 then 304 + l else if m = 11 then 334 + l else 365 + l)"

definition month_of :: "bool \<Rightarrow> int \<Rightarrow> int" where
  "month_of lp day =
     (let l = (if lp then 1 else 0)
      in if day < 31 then 0 else if day < 59 + l then 1 else if day < 90 + l then 2
         else if day < 120 + l then 3 else if day < 151 + l then 4 else if day < 181 + l then 5
         else if day < 212 + l then 6 else if day < 243 + l then 7 else if day < 273 + l then 8
         else if day < 304 + l then 9 else if day < 334 + l then 10 else 11)"

definition MonthFromDay :: "int \<Rightarrow> int" where
  "MonthFromDay d = (let y = YearFromDay d in month_of (leap y) (d - DayFromYear y))"

definition DateFromDay :: "int \<Rightarrow> int" where
  "DateFromDay d =
     (let y = YearFromDay d in d - DayFromYear y - month_start (leap y) (MonthFromDay d) + 1)"

definition days_in_month :: "int \<Rightarrow> int \<Rightarrow> int" where
  "days_in_month y m = month_start (leap y) (m + 1) - month_start (leap y) m"

text \<open>\<open>MakeDay\<close>: months outside the year carry over into the years, days are simply added.\<close>

definition MakeDay :: "int \<Rightarrow> int \<Rightarrow> int \<Rightarrow> int" where
  "MakeDay y m dt =
     (let ym = y + m div 12; mn = m mod 12
      in DayFromYear ym + month_start (leap ym) mn + dt - 1)"

lemma twelve_months:
  "0 \<le> m \<Longrightarrow> m < 12 \<Longrightarrow> m = 0 \<or> m = 1 \<or> m = 2 \<or> m = 3 \<or> m = 4 \<or> m = 5 \<or> m = 6 \<or> m = 7
     \<or> m = 8 \<or> m = 9 \<or> m = 10 \<or> m = (11 :: int)"
  by presburger

lemma month_of_start:
  assumes "0 \<le> m" "m < 12" "month_start lp m \<le> day" "day < month_start lp (m + 1)"
  shows "month_of lp day = m"
proof -
  from twelve_months [OF assms(1,2)] consider "m = 0" | "m = 1" | "m = 2" | "m = 3" | "m = 4" | "m = 5" | "m = 6" | "m = 7" | "m = 8"
    | "m = 9" | "m = 10" | "m = 11" by blast
  then show ?thesis using assms(3,4)
    by cases (simp_all add: month_start_def month_of_def Let_def split: if_splits)
qed

lemma month_of_range: "0 \<le> month_of lp day" "month_of lp day < 12"
  by (simp_all add: month_of_def Let_def)

lemma month_of_bounds:
  assumes "0 \<le> day" "day < (if lp then 366 else 365)"
  shows "month_start lp (month_of lp day) \<le> day \<and> day < month_start lp (month_of lp day + 1)"
  using assms by (simp add: month_start_def month_of_def Let_def split: if_splits)

lemma month_start_12: "month_start lp 12 = (if lp then 366 else 365)"
  by (simp add: month_start_def)

lemma month_start_mono: "0 \<le> m \<Longrightarrow> m < 12 \<Longrightarrow> 0 \<le> month_start lp m \<and> month_start lp (m + 1) \<le> month_start lp 12"
  by (auto simp: month_start_def Let_def)

lemma day_in_year: "0 \<le> d - DayFromYear (YearFromDay d)"
  "d - DayFromYear (YearFromDay d) < (if leap (YearFromDay d) then 366 else 365)"
  using YearFromDay_bounds [of d] DayFromYear_Suc [of "YearFromDay d"] by (simp_all add: days_in_year_def)

lemma MonthFromDay_range: "0 \<le> MonthFromDay d" "MonthFromDay d < 12"
  by (simp_all add: MonthFromDay_def Let_def month_of_range)

lemma days_in_month_range:
  assumes "0 \<le> m" "m < 12"
  shows "28 \<le> days_in_month y m" "days_in_month y m \<le> 31"
  using twelve_months [OF assms] by (auto simp: days_in_month_def month_start_def)

text \<open>Taking a day apart and putting it together again.\<close>

lemma MakeDay_fields [simp]: "MakeDay (YearFromDay d) (MonthFromDay d) (DateFromDay d) = d"
  using MonthFromDay_range [of d]
  by (simp add: MakeDay_def DateFromDay_def Let_def div_pos_pos_trivial mod_pos_pos_trivial)

lemma MakeDay_shift: "MakeDay y m (dt + k) = MakeDay y m dt + k"
  by (simp add: MakeDay_def Let_def)

lemma DateFromDay_range:
  "1 \<le> DateFromDay d" "DateFromDay d \<le> days_in_month (YearFromDay d) (MonthFromDay d)"
  using month_of_bounds [OF day_in_year, of d]
  by (simp_all add: DateFromDay_def MonthFromDay_def days_in_month_def Let_def)

lemma fields_MakeDay:
  assumes "0 \<le> m" "m < 12" "1 \<le> dt" "dt \<le> days_in_month y m"
  shows "YearFromDay (MakeDay y m dt) = y" "MonthFromDay (MakeDay y m dt) = m"
    "DateFromDay (MakeDay y m dt) = dt"
proof -
  let ?d = "MakeDay y m dt"
  have d: "?d = DayFromYear y + month_start (leap y) m + dt - 1"
    using assms by (simp add: MakeDay_def Let_def div_pos_pos_trivial mod_pos_pos_trivial)
  have start: "month_start (leap y) m \<le> ?d - DayFromYear y" "?d - DayFromYear y < month_start (leap y) (m + 1)"
    using assms(3,4) by (simp_all add: d days_in_month_def)
  with month_start_mono [OF assms(1,2), of "leap y"]
  have "DayFromYear y \<le> ?d" "?d < DayFromYear (y + 1)"
    by (simp_all add: DayFromYear_Suc days_in_year_def month_start_12)
  then show y: "YearFromDay ?d = y" by (rule YearFromDay_unique)
  then show m: "MonthFromDay ?d = m"
    using month_of_start [OF assms(1,2) start] by (simp add: MonthFromDay_def Let_def)
  show "DateFromDay ?d = dt" using y m by (simp add: DateFromDay_def Let_def d)
qed

section \<open>The methods of dates\<close>

definition getFullYear :: "int \<Rightarrow> int" where "getFullYear t = YearFromDay (t div msPerDay)"
definition getMonth :: "int \<Rightarrow> int" where "getMonth t = MonthFromDay (t div msPerDay)"
definition getDate :: "int \<Rightarrow> int" where "getDate t = DateFromDay (t div msPerDay)"
definition getDay :: "int \<Rightarrow> int" where "getDay t = (t div msPerDay + 4) mod 7"
definition getHours :: "int \<Rightarrow> int" where "getHours t = t mod msPerDay div 3600000"
definition getMinutes :: "int \<Rightarrow> int" where "getMinutes t = t mod 3600000 div 60000"

definition MakeDate :: "int \<Rightarrow> int \<Rightarrow> int" where
  "MakeDate day tm = day * msPerDay + tm"

text \<open>\<open>setFullYear\<close> revives an invalid date at midnight of day zero; an argument that is not a number
  makes any date invalid.\<close>

definition setFullYear :: "int option \<Rightarrow> int option \<Rightarrow> int option \<Rightarrow> date \<Rightarrow> date" where
  "setFullYear y m dt d =
     (case (y, m, dt) of
        (Some y', Some m', Some dt') \<Rightarrow>
          let t = (case d of None \<Rightarrow> 0 | Some t \<Rightarrow> t) in Some (MakeDate (MakeDay y' m' dt') (t mod msPerDay))
      | _ \<Rightarrow> None)"

definition setDate :: "int \<Rightarrow> int \<Rightarrow> int" where
  "setDate n t = MakeDate (MakeDay (getFullYear t) (getMonth t) n) (t mod msPerDay)"

definition setHours :: "int \<Rightarrow> int \<Rightarrow> int" where
  "setHours h t = MakeDate (t div msPerDay) (h * 3600000 + t mod 3600000)"

definition setMinutes :: "int \<Rightarrow> int \<Rightarrow> int" where
  "setMinutes m t = t div 3600000 * 3600000 + (m * 60000 + t mod 60000)"

text \<open>\<open>Date.parse\<close> of a date goes through its text, which has no milliseconds.\<close>

definition parse_of_date :: "int \<Rightarrow> int" where
  "parse_of_date t = t div 1000 * 1000"

lemma div_MakeDate [simp]: "0 \<le> tm \<Longrightarrow> tm < msPerDay \<Longrightarrow> MakeDate day tm div msPerDay = day"
  by (simp add: MakeDate_def)

lemma mod_MakeDate [simp]: "0 \<le> tm \<Longrightarrow> tm < msPerDay \<Longrightarrow> MakeDate day tm mod msPerDay = tm"
  by (simp add: MakeDate_def)

lemma MakeDate_parts [simp]: "MakeDate (t div msPerDay) (t mod msPerDay) = t"
  by (simp add: MakeDate_def)

text \<open>Adding to the day of the month moves a date by whole days.\<close>

lemma setDate_shift [simp]: "setDate (getDate t + k) t = t + k * msPerDay"
  by (simp add: setDate_def getFullYear_def getMonth_def getDate_def MakeDay_shift MakeDate_def
      distrib_right)

lemma setDate_shift_back [simp]: "setDate (getDate t - k) t = t - k * msPerDay"
  using setDate_shift [of t "- k"] by simp

lemma getDay_range: "0 \<le> getDay t" "getDay t < 7"
  by (simp_all add: getDay_def)

lemma getDay_shift: "getDay (t + k * msPerDay) = (getDay t + k) mod 7"
  by (simp add: getDay_def mod_simps algebra_simps)

lemma getDate_first: "getDate t = 1 \<longleftrightarrow> t div msPerDay = MakeDay (getFullYear t) (getMonth t) 1"
  using MakeDay_shift [of "getFullYear t" "getMonth t" 1 "getDate t - 1"]
    MakeDay_fields [of "t div msPerDay"]
  by (auto simp: getFullYear_def getMonth_def getDate_def)

lemma getDate_range: "1 \<le> getDate t" "getDate t \<le> 31"
proof -
  have "days_in_month (YearFromDay (t div msPerDay)) (MonthFromDay (t div msPerDay)) \<le> 31"
    by (intro days_in_month_range MonthFromDay_range)
  then show "1 \<le> getDate t" "getDate t \<le> 31"
    using DateFromDay_range [of "t div msPerDay"] by (simp_all add: getDate_def)
qed

end
