(* ===== verification/Gantt_Task.thy ===== *)
theory Gantt_Task
  imports Js_Date
begin

text \<open>
  The tasks of the Gantt chart, \<open>JSGantt.TaskItem\<close>, with the dates they are built from and shown
  with: \<open>parseDateStr\<close>, \<open>formatDateStr\<close> and \<open>getDuration\<close>.  Identifiers and percentages are
  whole numbers.  What \<open>Date.parse\<close> makes of the text of a date is left to the browser by the language
  standard and is a parameter, as is the moment at which a chart is drawn.
\<close>

section \<open>Dates as text\<close>

definition date_part :: "string list \<Rightarrow> nat \<Rightarrow> int option" where
  "date_part parts i = (if i < length parts then parseInt (parts ! i) else None)"

definition month_part :: "string list \<Rightarrow> nat \<Rightarrow> int option" where
  "month_part parts i = map_option (\<lambda>m. m - 1) (date_part parts i)"

text \<open>The last format takes the day from the part of the month, as the code does.\<close>

definition parseDateStr :: "(string \<Rightarrow> date) \<Rightarrow> string \<Rightarrow> string \<Rightarrow> date" where
  "parseDateStr date_parse pDateStr pFormatStr =
     (let vDate = date_parse pDateStr
      in if pFormatStr = ''mm/dd/yyyy'' then
           let vDateParts = split pDateStr ''/''
           in setFullYear (date_part vDateParts 2) (month_part vDateParts 0) (date_part vDateParts 1) vDate
         else if pFormatStr = ''dd/mm/yyyy'' then
           let vDateParts = split pDateStr ''/''
           in setFullYear (date_part vDateParts 2) (month_part vDateParts 1) (date_part vDateParts 0) vDate
         else if pFormatStr = ''yyyy-mm-dd'' then
           let vDateParts = split pDateStr ''-''
           in setFullYear (date_part vDateParts 0) (month_part vDateParts 1) (date_part vDateParts 1) vDate
         else vDate)"

definition num_text :: "int option \<Rightarrow> string" where
  "num_text n = (case n of None \<Rightarrow> ''NaN'' | Some k \<Rightarrow> int_str k)"

text \<open>A format the code does not know gives no text.\<close>

definition formatDateStr :: "date \<Rightarrow> string \<Rightarrow> string option" where
  "formatDateStr pDate pFormatStr =
     (let vYear4Str = num_text (map_option getFullYear pDate);
          vYear2Str = substring vYear4Str 2 4;
          vMonthStr = num_text (map_option (\<lambda>t. getMonth t + 1) pDate);
          vDayStr = num_text (map_option getDate pDate)
      in if pFormatStr = ''mm/dd/yyyy'' then Some (vMonthStr @ ''/'' @ vDayStr @ ''/'' @ vYear4Str)
         else if pFormatStr = ''dd/mm/yyyy'' then Some (vDayStr @ ''/'' @ vMonthStr @ ''/'' @ vYear4Str)
         else if pFormatStr = ''yyyy-mm-dd'' then Some (vYear4Str @ ''-'' @ vMonthStr @ ''-'' @ vDayStr)
         else if pFormatStr = ''mm/dd/yy'' then Some (vMonthStr @ ''/'' @ vDayStr @ ''/'' @ vYear2Str)
         else if pFormatStr = ''dd/mm/yy'' then Some (vDayStr @ ''/'' @ vMonthStr @ ''/'' @ vYear2Str)
         else if pFormatStr = ''yy-mm-dd'' then Some (vYear2Str @ ''-'' @ vMonthStr @ ''-'' @ vDayStr)
         else if pFormatStr = ''mm/dd'' then Some (vMonthStr @ ''/'' @ vDayStr)
         else if pFormatStr = ''dd/mm'' then Some (vDayStr @ ''/'' @ vMonthStr)
         else None)"

section \<open>Tasks\<close>

record task =
  vID :: int
  vName :: string
  vStart :: date
  vEnd :: date
  vColor :: string
  vLink :: string
  vMile :: int
  vRes :: string
  vComp :: "int option"
  vGroup :: int
  vParent :: int
  vOpen :: int
  vDepend :: string
  vCaption :: string
  vLevel :: nat
  vNumKid :: nat
  vVisible :: nat
  x1 :: int
  y1 :: int
  x2 :: int
  y2 :: int

text \<open>The parameters of the constructor.\<close>

record task_args =
  pID :: int
  pName :: string
  pStart :: string
  pEnd :: string
  pColor :: string
  pLink :: string
  pMile :: int
  pRes :: string
  pComp :: "int option"
  pGroup :: int
  pParent :: int
  pOpen :: int
  pDepend :: string
  pCaption :: string

text \<open>The third argument is the input format of the chart that the page calls \<open>g\<close>.\<close>

definition TaskItem :: "(string \<Rightarrow> date) \<Rightarrow> int \<Rightarrow> string \<Rightarrow> task_args \<Rightarrow> task" where
  "TaskItem date_parse now fmt a =
     \<lparr>vID = pID a, vName = pName a,
      vStart = (if pGroup a \<noteq> 1 then parseDateStr date_parse (pStart a) fmt else Some now),
      vEnd = (if pGroup a \<noteq> 1 then parseDateStr date_parse (pEnd a) fmt else Some now),
      vColor = pColor a, vLink = pLink a, vMile = pMile a, vRes = pRes a, vComp = pComp a,
      vGroup = pGroup a, vParent = pParent a, vOpen = pOpen a, vDepend = pDepend a,
      vCaption = pCaption a, vLevel = 0, vNumKid = 0, vVisible = 1, x1 = 0, y1 = 0, x2 = 0, y2 = 0\<rparr>"

definition getDepend :: "task \<Rightarrow> string option" where
  "getDepend t = (if vDepend t = [] then None else Some (vDepend t))"

definition getResource :: "task \<Rightarrow> string" where
  "getResource t = (if vRes t = [] then ''&nbsp'' else vRes t)"

text \<open>An invalid percentage counts as none.\<close>

definition getCompVal :: "task \<Rightarrow> int" where
  "getCompVal t = (case vComp t of None \<Rightarrow> 0 | Some c \<Rightarrow> c)"

definition getCompStr :: "task \<Rightarrow> string" where
  "getCompStr t = (if getCompVal t = 0 then [] else int_str (getCompVal t) @ ''%'')"

definition date_diff :: "task \<Rightarrow> int option" where
  "date_diff t = (case (vStart t, vEnd t) of (Some s, Some e) \<Rightarrow> Some (e - s) | _ \<Rightarrow> None)"

definition ceil_div :: "int \<Rightarrow> int \<Rightarrow> int" where
  "ceil_div a b = - ((- a) div b)"

definition counted :: "int option \<Rightarrow> string \<Rightarrow> string" where
  "counted n unit = (if n = Some 1 then ''1 '' @ unit else num_text n @ '' '' @ unit @ ''s'')"

definition getDuration :: "string \<Rightarrow> task \<Rightarrow> string" where
  "getDuration vFormat t =
     (if vMile t \<noteq> 0 then ''-''
      else if vFormat = ''hour'' then counted (map_option (\<lambda>d. ceil_div d 3600000) (date_diff t)) ''Hour''
      else if vFormat = ''minute'' then counted (map_option (\<lambda>d. ceil_div d 60000) (date_diff t)) ''Minute''
      else counted (map_option (\<lambda>d. ceil_div d msPerDay + 1) (date_diff t)) ''Day'')"

section \<open>What can be set\<close>

definition setDepend :: "string \<Rightarrow> task \<Rightarrow> task" where "setDepend pDep t = t\<lparr>vDepend := pDep\<rparr>"
definition setStart :: "date \<Rightarrow> task \<Rightarrow> task" where "setStart p t = t\<lparr>vStart := p\<rparr>"
definition setEnd :: "date \<Rightarrow> task \<Rightarrow> task" where "setEnd p t = t\<lparr>vEnd := p\<rparr>"
definition setLevel :: "nat \<Rightarrow> task \<Rightarrow> task" where "setLevel p t = t\<lparr>vLevel := p\<rparr>"
definition setNumKid :: "nat \<Rightarrow> task \<Rightarrow> task" where "setNumKid p t = t\<lparr>vNumKid := p\<rparr>"
definition setCompVal :: "int option \<Rightarrow> task \<Rightarrow> task" where "setCompVal p t = t\<lparr>vComp := p\<rparr>"
definition setStartX :: "int \<Rightarrow> task \<Rightarrow> task" where "setStartX p t = t\<lparr>x1 := p\<rparr>"
definition setStartY :: "int \<Rightarrow> task \<Rightarrow> task" where "setStartY p t = t\<lparr>y1 := p\<rparr>"
definition setEndX :: "int \<Rightarrow> task \<Rightarrow> task" where "setEndX p t = t\<lparr>x2 := p\<rparr>"
definition setEndY :: "int \<Rightarrow> task \<Rightarrow> task" where "setEndY p t = t\<lparr>y2 := p\<rparr>"
definition setOpen :: "int \<Rightarrow> task \<Rightarrow> task" where "setOpen p t = t\<lparr>vOpen := p\<rparr>"
definition setVisible :: "nat \<Rightarrow> task \<Rightarrow> task" where "setVisible p t = t\<lparr>vVisible := p\<rparr>"

section \<open>Lemmas\<close>

lemma int_str_no_slash [simp]: "CHR ''/'' \<notin> set (int_str n)"
  using nat_str_no_sep [of "CHR ''/''"] by (simp add: int_str_def)

lemma nat_str_no_dash [simp]: "0 \<le> n \<Longrightarrow> CHR ''-'' \<notin> set (int_str n)"
  using nat_str_no_sep [of "CHR ''-''"] by (simp add: int_str_def)

lemma split_three:
  assumes "c \<notin> set a" "c \<notin> set b" "c \<notin> set d"
  shows "split (a @ [c] @ b @ [c] @ d) [c] = [a, b, d]"
  using split_join [of "[a, b, d]" c] assms by auto

lemma setFullYear_day:
  "setFullYear (Some y) (Some m) (Some dt) d = Some t \<Longrightarrow> t div msPerDay = MakeDay y m dt"
  by (auto simp: setFullYear_def Let_def)

lemma setFullYear_Some: "\<exists>t. setFullYear (Some y) (Some m) (Some dt) d = Some t"
  by (simp add: setFullYear_def)

lemma ceil_div_unique: "0 < b \<Longrightarrow> b * (q - 1) < a \<Longrightarrow> a \<le> b * q \<Longrightarrow> ceil_div a b = q"
proof -
  assume "0 < b" "b * (q - 1) < a" "a \<le> b * q"
  then have "- a = b * (- q) + (b * q - a)" "0 \<le> b * q - a" "b * q - a < b"
    by (simp_all add: algebra_simps)
  then have "(- a) div b = - q" using \<open>0 < b\<close> by (intro int_div_pos_eq [of _ _ _ "b * q - a"]) auto
  then show ?thesis by (simp add: ceil_div_def)
qed

lemma parse_printed:
  "parseDateStr dp (int_str m @ ''/'' @ int_str d @ ''/'' @ int_str y) ''mm/dd/yyyy''
     = setFullYear (Some y) (Some (m - 1)) (Some d) (dp (int_str m @ ''/'' @ int_str d @ ''/'' @ int_str y))"
  "parseDateStr dp (int_str d @ ''/'' @ int_str m @ ''/'' @ int_str y) ''dd/mm/yyyy''
     = setFullYear (Some y) (Some (m - 1)) (Some d) (dp (int_str d @ ''/'' @ int_str m @ ''/'' @ int_str y))"
  "0 \<le> y \<Longrightarrow> 0 \<le> m \<Longrightarrow> 0 \<le> d \<Longrightarrow>
   parseDateStr dp (int_str y @ ''-'' @ int_str m @ ''-'' @ int_str d) ''yyyy-mm-dd''
     = setFullYear (Some y) (Some (m - 1)) (Some m) (dp (int_str y @ ''-'' @ int_str m @ ''-'' @ int_str d))"
proof -
  have parts: "split (int_str a @ ''/'' @ int_str b @ ''/'' @ int_str c) ''/'' = [int_str a, int_str b, int_str c]"
    for a b c using split_three [of "CHR ''/''" "int_str a" "int_str b" "int_str c"] by simp
  show "parseDateStr dp (int_str m @ ''/'' @ int_str d @ ''/'' @ int_str y) ''mm/dd/yyyy''
     = setFullYear (Some y) (Some (m - 1)) (Some d) (dp (int_str m @ ''/'' @ int_str d @ ''/'' @ int_str y))"
    unfolding parseDateStr_def Let_def parts by (simp add: date_part_def month_part_def parseInt_int_str)
  show "parseDateStr dp (int_str d @ ''/'' @ int_str m @ ''/'' @ int_str y) ''dd/mm/yyyy''
     = setFullYear (Some y) (Some (m - 1)) (Some d) (dp (int_str d @ ''/'' @ int_str m @ ''/'' @ int_str y))"
    unfolding parseDateStr_def Let_def parts by (simp add: date_part_def month_part_def parseInt_int_str)
next
  assume "0 \<le> y" "0 \<le> m" "0 \<le> d"
  then have dash: "split (int_str y @ ''-'' @ int_str m @ ''-'' @ int_str d) ''-'' = [int_str y, int_str m, int_str d]"
    using split_three [of "CHR ''-''" "int_str y" "int_str m" "int_str d"] by simp
  show "parseDateStr dp (int_str y @ ''-'' @ int_str m @ ''-'' @ int_str d) ''yyyy-mm-dd''
     = setFullYear (Some y) (Some (m - 1)) (Some m) (dp (int_str y @ ''-'' @ int_str m @ ''-'' @ int_str d))"
    unfolding parseDateStr_def Let_def dash by (simp add: date_part_def month_part_def parseInt_int_str)
qed

lemma day_parts: "MakeDay (getFullYear t) (getMonth t) (getDate t) = t div msPerDay"
  by (simp add: getFullYear_def getMonth_def getDate_def)

lemma getMonth_range: "0 \<le> getMonth t" "getMonth t < 12"
  by (simp_all add: getMonth_def MonthFromDay_range)

section \<open>Properties\<close>

text \<open>C38: With either of the two formats that separate by slashes, a date that was printed is read back as
  the same day, whatever the browser's own parser makes of the text.\<close>

theorem slash_dates_roundtrip:
  assumes "fmt = ''mm/dd/yyyy'' \<or> fmt = ''dd/mm/yyyy''"
  shows "\<exists>s t'. formatDateStr (Some t) fmt = Some s \<and> parseDateStr date_parse s fmt = Some t'
    \<and> t' div msPerDay = t div msPerDay"
proof -
  have day: "\<exists>t'. setFullYear (Some (getFullYear t)) (Some (getMonth t + 1 - 1)) (Some (getDate t)) d = Some t'
      \<and> t' div msPerDay = t div msPerDay" for d
    using setFullYear_Some setFullYear_day day_parts by (metis add_diff_cancel_right')
  from assms show ?thesis
  proof
    assume "fmt = ''mm/dd/yyyy''"
    then show ?thesis using day by (simp add: formatDateStr_def num_text_def parse_printed(1) del: append.simps)
  next
    assume "fmt = ''dd/mm/yyyy''"
    then show ?thesis using day by (simp add: formatDateStr_def num_text_def parse_printed(2) del: append.simps)
  qed
qed

theorem slash_dates_roundtrip_witness:
  "\<exists>s t'. formatDateStr (Some 951782400000) ''dd/mm/yyyy'' = Some s
    \<and> parseDateStr (\<lambda>_. None) s ''dd/mm/yyyy'' = Some t' \<and> t' div msPerDay = 11016"
  using slash_dates_roundtrip [of "''dd/mm/yyyy''" 951782400000 "\<lambda>_. None"] by simp

text \<open>With the format \<open>yyyy-mm-dd\<close> a printed date is read back with the number of its month in the
  place of its day, so only the dates whose day and month agree survive.\<close>

lemma dash_dates_lose_day:
  assumes "0 \<le> getFullYear t"
  shows "\<exists>s t'. formatDateStr (Some t) ''yyyy-mm-dd'' = Some s \<and> parseDateStr date_parse s ''yyyy-mm-dd'' = Some t'
    \<and> getFullYear t' = getFullYear t \<and> getMonth t' = getMonth t \<and> getDate t' = getMonth t + 1"
proof -
  let ?s = "int_str (getFullYear t) @ ''-'' @ int_str (getMonth t + 1) @ ''-'' @ int_str (getDate t)"
  obtain t' where t': "setFullYear (Some (getFullYear t)) (Some (getMonth t)) (Some (getMonth t + 1)) (date_parse ?s) = Some t'"
    using setFullYear_Some by blast
  have "days_in_month (getFullYear t) (getMonth t) \<ge> 28"
    by (intro days_in_month_range getMonth_range)
  then have "getFullYear t' = getFullYear t" "getMonth t' = getMonth t" "getDate t' = getMonth t + 1"
    using getMonth_range [of t] setFullYear_day [OF t'] fields_MakeDay [of "getMonth t" "getMonth t + 1" "getFullYear t"]
    by (simp_all add: getFullYear_def [of t'] getMonth_def [of t'] getDate_def [of t'])
  moreover have "parseDateStr date_parse ?s ''yyyy-mm-dd'' = Some t'"
    using parse_printed(3) [of "getFullYear t" "getMonth t + 1" "getDate t" date_parse] assms t'
      getMonth_range [of t] getDate_range [of t] by simp
  moreover have "formatDateStr (Some t) ''yyyy-mm-dd'' = Some ?s" by (simp add: formatDateStr_def num_text_def)
  ultimately show ?thesis by blast
qed

lemma dash_dates_lose_day_witness:
  "\<exists>s t'. formatDateStr (Some 0) ''yyyy-mm-dd'' = Some s \<and> parseDateStr (\<lambda>_. None) s ''yyyy-mm-dd'' = Some t'"
proof -
  have "getFullYear 0 = 1970" by code_simp
  then show ?thesis using dash_dates_lose_day [of 0 "\<lambda>_. None"] by auto
qed

end
