(* ===== verification/Gantt_Rows.thy ===== *)
theory Gantt_Rows
  imports Gantt_Task
begin

text \<open>
  \<open>JSGantt.processRows\<close>: the recursive pass over the task list that sets the level and the visibility
  of every task and gives the groups the earliest start, the latest end, the number and the mean
  completion of their children.  The first argument of \<open>processRows\<close> is the depth of the call stack
  that is left; \<^const>\<open>None\<close> is the overflow of the stack.
\<close>

section \<open>The pass\<close>

record row_acc =
  vMinDate :: date
  vMaxDate :: date
  vMinSet :: bool
  vMaxSet :: bool
  vKids :: nat
  vCompSum :: int

definition new_acc :: "int \<Rightarrow> row_acc" where
  "new_acc now =
     \<lparr>vMinDate = Some now, vMaxDate = Some now, vMinSet = False, vMaxSet = False, vKids = 0, vCompSum = 0\<rparr>"

text \<open>A comparison with an invalid date fails.\<close>

definition date_less :: "date \<Rightarrow> date \<Rightarrow> bool" where
  "date_less a b = (case (a, b) of (Some s, Some t) \<Rightarrow> s < t | _ \<Rightarrow> False)"

definition add_kid :: "row_acc \<Rightarrow> task \<Rightarrow> row_acc" where
  "add_kid a t =
     a\<lparr>vMinDate := (if \<not> vMinSet a \<or> date_less (vStart t) (vMinDate a) then vStart t else vMinDate a),
       vMinSet := True,
       vMaxDate := (if \<not> vMaxSet a \<or> date_less (vMaxDate a) (vEnd t) then vEnd t else vMaxDate a),
       vMaxSet := True,
       vKids := vKids a + 1,
       vCompSum := vCompSum a + getCompVal t\<rparr>"

text \<open>The mean of no children is not a number.\<close>

definition sum_up :: "row_acc \<Rightarrow> task \<Rightarrow> task" where
  "sum_up a t =
     t\<lparr>vStart := vMinDate a, vEnd := vMaxDate a, vNumKid := vKids a,
       vComp := (if vKids a = 0 then None else Some (ceil_div (vCompSum a) (int (vKids a))))\<rparr>"

definition finish_row :: "nat option \<Rightarrow> row_acc \<Rightarrow> task list \<Rightarrow> task list" where
  "finish_row pRow a l = (case pRow of None \<Rightarrow> l | Some r \<Rightarrow> l[r := sum_up a (l ! r)])"

definition pass_on :: "nat \<Rightarrow> int \<Rightarrow> nat" where
  "pass_on pVis opn = (if pVis = 1 \<and> opn = 0 then 0 else pVis)"

fun row_loop ::
    "(int \<Rightarrow> nat option \<Rightarrow> nat \<Rightarrow> nat \<Rightarrow> task list \<Rightarrow> task list option) \<Rightarrow> int \<Rightarrow> nat \<Rightarrow> nat
     \<Rightarrow> nat list \<Rightarrow> row_acc \<Rightarrow> task list \<Rightarrow> (row_acc \<times> task list) option" where
  "row_loop rec p lvl pVis [] a l = Some (a, l)"
| "row_loop rec p lvl pVis (i # is) a l =
     (let t = l ! i
      in if vParent t = p then
           let l1 = l[i := t\<lparr>vVisible := pVis, vLevel := lvl\<rparr>]
           in Option.bind
                (if vGroup t = 1 then rec (vID t) (Some i) (lvl + 1) (pass_on pVis (vOpen t)) l1 else Some l1)
                (\<lambda>l2. row_loop rec p lvl pVis is (add_kid a (l2 ! i)) l2)
         else row_loop rec p lvl pVis is a l)"

fun processRows :: "int \<Rightarrow> nat \<Rightarrow> int \<Rightarrow> nat option \<Rightarrow> nat \<Rightarrow> nat \<Rightarrow> task list \<Rightarrow> task list option" where
  "processRows now 0 p row lvl pVis l = None"
| "processRows now (Suc n) p row lvl pVis l =
     map_option (\<lambda>(a, l'). finish_row row a l')
       (row_loop (processRows now n) p lvl pVis [0..<length l] (new_acc now) l)"

section \<open>The shape of a chart\<close>

text \<open>The pass leaves identifiers, parents, the group flag and the open flag alone: they are its shape.\<close>

type_synonym shape = "(int \<times> int \<times> int \<times> int) list"

definition shape_of :: "task list \<Rightarrow> shape" where
  "shape_of l = map (\<lambda>t. (vID t, vParent t, vGroup t, vOpen t)) l"

definition sid :: "shape \<Rightarrow> nat \<Rightarrow> int" where "sid s i = fst (s ! i)"
definition par :: "shape \<Rightarrow> nat \<Rightarrow> int" where "par s i = fst (snd (s ! i))"
definition grp :: "shape \<Rightarrow> nat \<Rightarrow> int" where "grp s i = fst (snd (snd (s ! i)))"
definition opn :: "shape \<Rightarrow> nat \<Rightarrow> int" where "opn s i = snd (snd (snd (s ! i)))"

lemma shape_simps [simp]:
  "length (shape_of l) = length l"
  "i < length l \<Longrightarrow> sid (shape_of l) i = vID (l ! i)"
  "i < length l \<Longrightarrow> par (shape_of l) i = vParent (l ! i)"
  "i < length l \<Longrightarrow> grp (shape_of l) i = vGroup (l ! i)"
  "i < length l \<Longrightarrow> opn (shape_of l) i = vOpen (l ! i)"
  by (simp_all add: shape_of_def sid_def par_def grp_def opn_def)

text \<open>The rows below an identifier: its children, and the children of the groups below it.\<close>

inductive under :: "shape \<Rightarrow> int \<Rightarrow> nat \<Rightarrow> bool" for s p where
  child: "i < length s \<Longrightarrow> par s i = p \<Longrightarrow> under s p i"
| deeper: "under s p j \<Longrightarrow> grp s j = 1 \<Longrightarrow> i < length s \<Longrightarrow> par s i = sid s j \<Longrightarrow> under s p i"

text \<open>The identifiers the pass reaches from the root, whose identifier is 0.\<close>

definition reached :: "shape \<Rightarrow> int \<Rightarrow> bool" where
  "reached s p \<longleftrightarrow> p = 0 \<or> (\<exists>j. under s 0 j \<and> grp s j = 1 \<and> sid s j = p)"

text \<open>What is reached is a forest when identifiers are unique and some rank of the identifiers falls from
  the parent of every group to the group.\<close>

definition forest :: "(int \<Rightarrow> nat) \<Rightarrow> shape \<Rightarrow> bool" where
  "forest r s \<longleftrightarrow>
     distinct (map fst s) \<and> (\<forall>i. under s 0 i \<and> grp s i = 1 \<longrightarrow> r (sid s i) < r (par s i))"

lemma under_length: "under s p i \<Longrightarrow> i < length s"
  by (induction rule: under.induct) auto

lemma under_below:
  assumes "k < length s" "par s k = p" "grp s k = 1"
  shows "under s (sid s k) i \<Longrightarrow> under s p i"
proof (induction rule: under.induct)
  case (child i)
  have "under s p k" using assms(1,2) by (rule under.child)
  then show ?case using assms(3) child by (rule under.deeper)
next
  case (deeper j i)
  show ?case by (rule under.deeper [OF deeper.IH deeper.hyps(2-4)])
qed

lemma under_kid:
  "under s p i \<Longrightarrow> \<exists>k < length s. par s k = p \<and> (i = k \<or> grp s k = 1 \<and> under s (sid s k) i)"
proof (induction rule: under.induct)
  case (child i)
  then show ?case by auto
next
  case (deeper j i)
  then obtain k where k: "k < length s" "par s k = p" "j = k \<or> grp s k = 1 \<and> under s (sid s k) j" by auto
  from k(3) have "grp s k = 1 \<and> under s (sid s k) i"
    using deeper k by (auto intro: under.intros)
  with k show ?case by auto
qed

lemma reached_kid: "reached s p \<Longrightarrow> i < length s \<Longrightarrow> par s i = p \<Longrightarrow> under s 0 i"
  by (auto simp: reached_def intro: under.intros)

lemma reached_under: "under s p i \<Longrightarrow> reached s p \<Longrightarrow> under s 0 i"
proof (induction rule: under.induct)
  case (child i)
  then show ?case using reached_kid by blast
next
  case (deeper j i)
  show ?case by (rule under.deeper [OF deeper.IH [OF deeper.prems] deeper.hyps(2-4)])
qed

lemma reached_group: "reached s p \<Longrightarrow> i < length s \<Longrightarrow> par s i = p \<Longrightarrow> grp s i = 1 \<Longrightarrow> reached s (sid s i)"
  using reached_kid by (auto simp: reached_def)

lemma rank_under: "under s p i \<Longrightarrow> forest r s \<Longrightarrow> reached s p \<Longrightarrow> r (par s i) \<le> r p"
proof (induction rule: under.induct)
  case (deeper j i)
  have "under s 0 j" using reached_under [OF deeper.hyps(1) deeper.prems(2)] .
  then have "r (sid s j) < r (par s j)" using deeper by (auto simp: forest_def)
  with deeper show ?case by simp
qed simp

lemma same_id: "forest r s \<Longrightarrow> i < length s \<Longrightarrow> j < length s \<Longrightarrow> sid s i = sid s j \<Longrightarrow> i = j"
  by (auto simp: forest_def sid_def distinct_conv_nth nth_eq_iff_index_eq)

lemma kid_not_under:
  assumes "forest r s" "k < length s" "m < length s" "par s k = par s m" "grp s m = 1" "reached s (par s m)"
  shows "\<not> under s (sid s m) k"
  using rank_under [of s "sid s m" k r] reached_group [OF assms(6,3) refl assms(5)]
    reached_kid [OF assms(6,3) refl] assms by (auto simp: forest_def)

text \<open>The rows below two children of the same parent are different ones.\<close>

lemma subtrees_apart:
  assumes "forest r s" "k < length s" "m < length s" "k \<noteq> m" "par s k = par s m" "grp s k = 1" "grp s m = 1"
    "reached s (par s m)"
  shows "under s (sid s k) i \<Longrightarrow> \<not> under s (sid s m) i"
proof (induction rule: under.induct)
  case (child i)
  show ?case
  proof
    assume "under s (sid s m) i"
    then show False
    proof cases
      case child
      with \<open>par s i = sid s k\<close> assms show False using same_id [OF assms(1), of k m] by simp
    next
      case (deeper j)
      then have "j = k" using \<open>par s i = sid s k\<close> assms(2) same_id [OF assms(1), of j k] under_length by auto
      with deeper assms show False using kid_not_under [OF assms(1-3,5,7,8)] by simp
    qed
  qed
next
  case (deeper j i)
  show ?case
  proof
    assume "under s (sid s m) i"
    then show False
    proof cases
      case child
      then have "j = m" using deeper assms(3) same_id [OF assms(1), of j m] under_length by auto
      with deeper show False using kid_not_under [OF assms(1,3,2)] assms(5,6,8) by simp
    next
      case (deeper j')
      then have "j' = j" using \<open>par s i = sid s j\<close> \<open>under s (sid s k) j\<close>
          same_id [OF assms(1), of j' j] under_length by auto
      with deeper \<open>\<not> under s (sid s m) j\<close> show False by simp
    qed
  qed
qed

section \<open>The pass keeps the shape and ends\<close>

lemma shape_update:
  assumes "\<And>t. vID (f t) = vID t" "\<And>t. vParent (f t) = vParent t" "\<And>t. vGroup (f t) = vGroup t"
    "\<And>t. vOpen (f t) = vOpen t"
  shows "shape_of (l[i := f (l ! i)]) = shape_of l"
  by (rule nth_equalityI) (auto simp: shape_of_def list_update_nth assms)

lemma shape_sum_up [simp]: "shape_of (l[i := sum_up a (l ! i)]) = shape_of l"
  by (rule shape_update) (simp_all add: sum_up_def)

lemma shape_visit [simp]: "shape_of (l[i := (l ! i)\<lparr>vVisible := v, vLevel := n\<rparr>]) = shape_of l"
  by (rule shape_update) simp_all

lemma shape_finish [simp]: "shape_of (finish_row row a l) = shape_of l"
  by (simp add: finish_row_def split: option.splits)

text \<open>Whatever is neither level, visibility nor a sum is kept.\<close>

definition kept :: "(task \<Rightarrow> 'a) \<Rightarrow> bool" where
  "kept h \<longleftrightarrow> (\<forall>t v n. h (t\<lparr>vVisible := v, vLevel := n\<rparr>) = h t) \<and> (\<forall>a t. h (sum_up a t) = h t)"

lemma map_update_same: "h y = h (l ! i) \<Longrightarrow> map h (l[i := y]) = map h l"
  by (cases "i < length l") (auto simp: map_update list_update_same_conv list_update_beyond)

lemma row_loop_keeps:
  assumes "kept h" and rec: "\<And>q row n v l l'. rec q row n v l = Some l' \<Longrightarrow> map h l' = map h l"
  shows "row_loop rec p lvl v is a l = Some (a', l') \<Longrightarrow> map h l' = map h l"
proof (induction "is" arbitrary: a l)
  case (Cons i "is")
  have "map h (l[i := (l ! i)\<lparr>vVisible := v, vLevel := lvl\<rparr>]) = map h l"
    using assms(1) by (intro map_update_same) (simp add: kept_def)
  with Cons show ?case
    by (auto simp: Let_def bind_eq_Some_conv split: if_splits dest!: rec)
qed simp

lemma processRows_keeps:
  assumes "kept h"
  shows "processRows now n p row lvl v l = Some l' \<Longrightarrow> map h l' = map h l"
proof (induction n arbitrary: p row lvl v l l')
  case (Suc n)
  then obtain a l1 where l1: "row_loop (processRows now n) p lvl v [0..<length l] (new_acc now) l = Some (a, l1)"
    "l' = finish_row row a l1" by auto
  have "map h l' = map h l1"
    using assms unfolding l1(2) finish_row_def kept_def by (cases row) (simp_all add: map_update_same)
  also have "\<dots> = map h l" using row_loop_keeps [OF assms Suc.IH l1(1)] .
  finally show ?case .
qed simp

lemma processRows_shape: "processRows now n p row lvl v l = Some l' \<Longrightarrow> shape_of l' = shape_of l"
  unfolding shape_of_def by (rule processRows_keeps) (simp_all add: kept_def sum_up_def)

lemma row_loop_total:
  assumes rec: "\<And>i row n v l. i < length l \<Longrightarrow> shape_of l = s \<Longrightarrow> vGroup (l ! i) = 1 \<Longrightarrow> vParent (l ! i) = p \<Longrightarrow>
      \<exists>l'. rec (vID (l ! i)) row n v l = Some l' \<and> shape_of l' = s"
  shows "shape_of l = s \<Longrightarrow> \<forall>i \<in> set is. i < length s \<Longrightarrow> \<exists>a' l'. row_loop rec p lvl v is a l = Some (a', l')"
proof (induction "is" arbitrary: a l)
  case (Cons i "is")
  then have i: "i < length l" by auto
  show ?case
  proof (cases "vParent (l ! i) = p \<and> vGroup (l ! i) = 1")
    case True
    let ?l = "l[i := (l ! i)\<lparr>vVisible := v, vLevel := lvl\<rparr>]"
    obtain l' where "rec (vID (l ! i)) (Some i) (lvl + 1) (pass_on v (vOpen (l ! i))) ?l = Some l'" "shape_of l' = s"
      using rec [of i ?l "Some i" "lvl + 1" "pass_on v (vOpen (l ! i))"] i True Cons.prems by auto
    with True Cons.prems Cons.IH [of l'] show ?thesis by (simp add: Let_def)
  next
    case False
    with Cons.prems Cons.IH show ?thesis by (simp add: Let_def)
  qed
qed simp

lemma processRows_total:
  "forest r (shape_of l) \<Longrightarrow> reached (shape_of l) p \<Longrightarrow> r p < n \<Longrightarrow>
   \<exists>l'. processRows now n p row lvl v l = Some l'"
proof (induction n arbitrary: p row lvl v l)
  case (Suc n)
  let ?s = "shape_of l"
  have "\<exists>a l'. row_loop (processRows now n) p lvl v [0..<length l] (new_acc now) l = Some (a, l')"
  proof (rule row_loop_total [where s = ?s])
    fix i row k u l1
    assume l1: "i < length l1" "shape_of l1 = ?s" "vGroup (l1 ! i) = 1" "vParent (l1 ! i) = p"
    then have i: "i < length ?s" "grp ?s i = 1" "par ?s i = p" "sid ?s i = vID (l1 ! i)"
      by (simp_all flip: l1(2))
    have "under ?s 0 i" using reached_kid [OF Suc.prems(2) i(1,3)] .
    then have "r (vID (l1 ! i)) < r p" using Suc.prems(1) i by (auto simp: forest_def)
    then have "r (vID (l1 ! i)) < n" using Suc.prems(3) by simp
    moreover have "reached ?s (vID (l1 ! i))" using reached_group [OF Suc.prems(2) i(1,3,2)] i(4) by simp
    ultimately show "\<exists>l'. processRows now n (vID (l1 ! i)) row k u l1 = Some l' \<and> shape_of l' = ?s"
      using Suc.IH [of l1 "vID (l1 ! i)" row k u] processRows_shape l1(2) Suc.prems(1) by metis
  qed simp_all
  then show ?case by auto
qed simp

section \<open>What the pass computes\<close>

text \<open>The sums over the children of an identifier, in row order.\<close>

definition kid_acc :: "int \<Rightarrow> shape \<Rightarrow> int \<Rightarrow> task list \<Rightarrow> row_acc" where
  "kid_acc now s q l = foldl add_kid (new_acc now) (map ((!) l) (filter (\<lambda>i. par s i = q) [0..<length s]))"

definition kids_at :: "shape \<Rightarrow> int \<Rightarrow> nat \<Rightarrow> nat \<Rightarrow> task list \<Rightarrow> bool" where
  "kids_at s q lvl v l \<longleftrightarrow> (\<forall>i < length s. par s i = q \<longrightarrow> vLevel (l ! i) = lvl \<and> vVisible (l ! i) = v)"

text \<open>A group is finished when it holds the sums of its children and they are one level below it.\<close>

definition group_done :: "int \<Rightarrow> shape \<Rightarrow> task list \<Rightarrow> nat \<Rightarrow> bool" where
  "group_done now s l j \<longleftrightarrow>
     l ! j = sum_up (kid_acc now s (sid s j) l) (l ! j)
     \<and> kids_at s (sid s j) (vLevel (l ! j) + 1) (pass_on (vVisible (l ! j)) (opn s j)) l"

definition tree_done :: "int \<Rightarrow> shape \<Rightarrow> int \<Rightarrow> task list \<Rightarrow> bool" where
  "tree_done now s q l \<longleftrightarrow> (\<forall>j. under s q j \<and> grp s j = 1 \<longrightarrow> group_done now s l j)"

text \<open>A child and everything below it.\<close>

definition branch :: "shape \<Rightarrow> nat \<Rightarrow> nat set" where
  "branch s k = insert k (if grp s k = 1 then {i. under s (sid s k) i} else {})"

definition kid_done :: "int \<Rightarrow> shape \<Rightarrow> nat \<Rightarrow> nat \<Rightarrow> nat \<Rightarrow> task list \<Rightarrow> bool" where
  "kid_done now s lvl v k l \<longleftrightarrow>
     vLevel (l ! k) = lvl \<and> vVisible (l ! k) = v
     \<and> (grp s k = 1 \<longrightarrow> group_done now s l k \<and> tree_done now s (sid s k) l)"

lemma kid_acc_cong: "(\<And>i. under s q i \<Longrightarrow> l ! i = l' ! i) \<Longrightarrow> kid_acc now s q l = kid_acc now s q l'"
  unfolding kid_acc_def by (intro arg_cong [where f = "foldl add_kid (new_acc now)"] map_cong) (auto intro: under.child)

lemma group_done_cong:
  assumes "l ! j = l' ! j" "\<And>i. i < length s \<Longrightarrow> par s i = sid s j \<Longrightarrow> l ! i = l' ! i"
  shows "group_done now s l j = group_done now s l' j"
proof -
  have "kid_acc now s (sid s j) l = kid_acc now s (sid s j) l'"
    unfolding kid_acc_def using assms(2)
    by (intro arg_cong [where f = "foldl add_kid (new_acc now)"] map_cong) auto
  then show ?thesis using assms by (simp add: group_done_def kids_at_def)
qed

lemma tree_done_cong:
  assumes "\<And>i. under s q i \<Longrightarrow> l ! i = l' ! i"
  shows "tree_done now s q l = tree_done now s q l'"
proof -
  have "group_done now s l j = group_done now s l' j" if "under s q j" "grp s j = 1" for j
    using that assms by (intro group_done_cong) (auto intro: under.deeper)
  then show ?thesis by (auto simp: tree_done_def)
qed

lemma kid_done_cong:
  assumes "\<And>i. i \<in> branch s k \<Longrightarrow> l ! i = l' ! i"
  shows "kid_done now s lvl v k l = kid_done now s lvl v k l'"
proof (cases "grp s k = 1")
  case True
  then have "group_done now s l k = group_done now s l' k"
    using assms by (intro group_done_cong) (auto simp: branch_def intro: under.child)
  moreover have "tree_done now s (sid s k) l = tree_done now s (sid s k) l'"
    using assms True by (intro tree_done_cong) (auto simp: branch_def)
  ultimately show ?thesis using assms [of k] by (simp add: kid_done_def branch_def)
next
  case False
  then show ?thesis using assms [of k] by (simp add: kid_done_def branch_def)
qed

lemma branches_apart:
  assumes "forest r s" "k < length s" "m < length s" "k \<noteq> m" "par s k = par s m" "reached s (par s m)"
  shows "branch s k \<inter> branch s m = {}"
  using kid_not_under [OF assms(1-3,5)] kid_not_under [OF assms(1,3,2)] subtrees_apart [OF assms(1-5)] assms(4-6)
  by (auto simp: branch_def)

lemma branch_under: "k < length s \<Longrightarrow> par s k = p \<Longrightarrow> i \<in> branch s k \<Longrightarrow> under s p i"
  by (auto simp: branch_def intro: under.child under_below split: if_splits)

lemma sum_up_simps [simp]:
  "vLevel (sum_up a t) = vLevel t" "vVisible (sum_up a t) = vVisible t" "sum_up a (sum_up b t) = sum_up a t"
  by (simp_all add: sum_up_def)

section \<open>The loop over the children\<close>

text \<open>After the rows of a prefix: they are finished, the other branches and the rows that are not below
  the parent are as they were, and the sums are those of the children seen.\<close>

definition loop_inv :: "int \<Rightarrow> shape \<Rightarrow> int \<Rightarrow> nat \<Rightarrow> nat \<Rightarrow> task list \<Rightarrow> nat list \<Rightarrow> row_acc \<Rightarrow> task list \<Rightarrow> bool" where
  "loop_inv now s p lvl v l0 seen a l \<longleftrightarrow>
     shape_of l = s
     \<and> a = foldl add_kid (new_acc now) (map ((!) l) (filter (\<lambda>i. par s i = p) seen))
     \<and> (\<forall>k \<in> set seen. par s k = p \<longrightarrow> kid_done now s lvl v k l)
     \<and> (\<forall>i < length s. \<not> under s p i \<longrightarrow> l ! i = l0 ! i)"

text \<open>What a recursive call is assumed to do.\<close>

definition rec_ok :: "int \<Rightarrow> shape \<Rightarrow>
    (int \<Rightarrow> nat option \<Rightarrow> nat \<Rightarrow> nat \<Rightarrow> task list \<Rightarrow> task list option) \<Rightarrow> bool" where
  "rec_ok now s rec \<longleftrightarrow>
     (\<forall>j lvl v l l'. shape_of l = s \<and> under s 0 j \<and> grp s j = 1 \<and> rec (sid s j) (Some j) lvl v l = Some l' \<longrightarrow>
        shape_of l' = s \<and> tree_done now s (sid s j) l' \<and> kids_at s (sid s j) lvl v l'
        \<and> l' ! j = sum_up (kid_acc now s (sid s j) l') (l ! j)
        \<and> (\<forall>i < length s. i \<noteq> j \<and> \<not> under s (sid s j) i \<longrightarrow> l' ! i = l ! i))"

lemma rec_okD:
  assumes "rec_ok now s rec" "shape_of l = s" "under s 0 j" "grp s j = 1" "rec (sid s j) (Some j) lvl v l = Some l'"
  shows "shape_of l' = s \<and> tree_done now s (sid s j) l' \<and> kids_at s (sid s j) lvl v l'
    \<and> l' ! j = sum_up (kid_acc now s (sid s j) l') (l ! j)
    \<and> (\<forall>i < length s. i \<noteq> j \<and> \<not> under s (sid s j) i \<longrightarrow> l' ! i = l ! i)"
  using assms unfolding rec_ok_def by blast

lemma visit_kid:
  assumes "forest r s" "rec_ok now s rec" "shape_of l = s" "under s 0 i"
    and "(if grp s i = 1 then rec (sid s i) (Some i) (lvl + 1) (pass_on v (opn s i))
            (l[i := (l ! i)\<lparr>vVisible := v, vLevel := lvl\<rparr>])
          else Some (l[i := (l ! i)\<lparr>vVisible := v, vLevel := lvl\<rparr>])) = Some l'"
  shows "shape_of l' = s \<and> kid_done now s lvl v i l' \<and> (\<forall>k < length s. k \<notin> branch s i \<longrightarrow> l' ! k = l ! k)"
proof -
  let ?l = "l[i := (l ! i)\<lparr>vVisible := v, vLevel := lvl\<rparr>]"
  have here: "?l ! i = (l ! i)\<lparr>vVisible := v, vLevel := lvl\<rparr>" and others: "\<And>k. k \<noteq> i \<Longrightarrow> ?l ! k = l ! k"
    and sh: "shape_of ?l = s" using assms(3) under_length [OF assms(4)] by auto
  show ?thesis
  proof (cases "grp s i = 1")
    case True
    then have "rec (sid s i) (Some i) (lvl + 1) (pass_on v (opn s i)) ?l = Some l'" using assms(5) by simp
    then have r: "shape_of l' = s" "tree_done now s (sid s i) l'"
      "kids_at s (sid s i) (lvl + 1) (pass_on v (opn s i)) l'"
      "l' ! i = sum_up (kid_acc now s (sid s i) l') (?l ! i)"
      "\<forall>k < length s. k \<noteq> i \<and> \<not> under s (sid s i) k \<longrightarrow> l' ! k = ?l ! k"
      using rec_okD [OF assms(2) sh assms(4) True] by blast+
    have at: "vLevel (l' ! i) = lvl" "vVisible (l' ! i) = v" unfolding r(4) here by simp_all
    then have "group_done now s l' i" using r(3,4) by (metis group_done_def sum_up_simps(3))
    with at r True others show ?thesis by (auto simp: kid_done_def branch_def)
  next
    case False
    then have "l' = ?l" using assms(5) by simp
    with False here others sh show ?thesis by (simp add: kid_done_def branch_def)
  qed
qed

lemma loop_step:
  assumes "forest r s" "rec_ok now s rec" "loop_inv now s p lvl v l0 seen a l" "i < length s" "par s i = p"
    "i \<notin> set seen" "set seen \<subseteq> {0..<length s}" "reached s p"
    and "(if grp s i = 1 then rec (sid s i) (Some i) (lvl + 1) (pass_on v (opn s i))
            (l[i := (l ! i)\<lparr>vVisible := v, vLevel := lvl\<rparr>])
          else Some (l[i := (l ! i)\<lparr>vVisible := v, vLevel := lvl\<rparr>])) = Some l'"
  shows "loop_inv now s p lvl v l0 (seen @ [i]) (add_kid a (l' ! i)) l'"
proof -
  have inv: "shape_of l = s" "a = foldl add_kid (new_acc now) (map ((!) l) (filter (\<lambda>i. par s i = p) seen))"
    "\<And>k. k \<in> set seen \<Longrightarrow> par s k = p \<Longrightarrow> kid_done now s lvl v k l"
    "\<And>k. k < length s \<Longrightarrow> \<not> under s p k \<Longrightarrow> l ! k = l0 ! k"
    using assms(3) by (auto simp: loop_inv_def)
  have v: "shape_of l' = s" "kid_done now s lvl v i l'" "\<And>k. k < length s \<Longrightarrow> k \<notin> branch s i \<Longrightarrow> l' ! k = l ! k"
    using visit_kid [OF assms(1,2) inv(1) reached_kid [OF assms(8,4,5)] assms(9)] by blast+
  have apart: "l ! q = l' ! q" if "k \<in> set seen" "par s k = p" "q \<in> branch s k" for k q
  proof -
    have "k < length s" "k \<noteq> i" using that assms(6,7) by auto
    then have "q \<notin> branch s i" using branches_apart [OF assms(1), of k i] assms(4,5,8) that by auto
    moreover have "q < length s" using branch_under [OF \<open>k < length s\<close> that(2,3)] by (rule under_length)
    ultimately show ?thesis using v(3) by simp
  qed
  have m: "map ((!) l) (filter (\<lambda>i. par s i = p) seen) = map ((!) l') (filter (\<lambda>i. par s i = p) seen)"
    using apart by (intro map_cong) (auto simp: branch_def)
  have "add_kid a (l' ! i) = foldl add_kid (new_acc now) (map ((!) l') (filter (\<lambda>i. par s i = p) (seen @ [i])))"
    using assms(5) unfolding inv(2) m by simp
  moreover have "kid_done now s lvl v k l'" if "k \<in> set seen" "par s k = p" for k
    using inv(3) [OF that] kid_done_cong [of s k l l'] apart [OF that] by simp
  moreover have "l' ! k = l0 ! k" if k: "k < length s" "\<not> under s p k" for k
  proof -
    have "k \<notin> branch s i" using k(2) branch_under [OF assms(4,5), of k] by blast
    with k show ?thesis using inv(4) v(3) by simp
  qed
  ultimately show ?thesis using v(1,2) unfolding loop_inv_def by auto
qed

lemma loop_inv_skip:
  "loop_inv now s p lvl v l0 seen a l \<Longrightarrow> par s i \<noteq> p \<Longrightarrow> loop_inv now s p lvl v l0 (seen @ [i]) a l"
  by (auto simp: loop_inv_def)

lemma row_loop_inv:
  assumes "forest r s" "rec_ok now s rec" "reached s p"
  shows "loop_inv now s p lvl v l0 seen a l \<Longrightarrow> distinct (seen @ is) \<Longrightarrow> set (seen @ is) \<subseteq> {0..<length s} \<Longrightarrow>
    row_loop rec p lvl v is a l = Some (a', l') \<Longrightarrow> loop_inv now s p lvl v l0 (seen @ is) a' l'"
proof (induction "is" arbitrary: seen a l)
  case (Cons i "is")
  from Cons.prems(1) have sh: "shape_of l = s" by (simp add: loop_inv_def)
  then have i: "i < length l" "i < length s" using Cons.prems(3) by auto
  have fields: "vParent (l ! i) = par s i" "vGroup (l ! i) = grp s i" "vID (l ! i) = sid s i" "vOpen (l ! i) = opn s i"
    using i by (simp_all flip: sh)
  show ?case
  proof (cases "par s i = p")
    case True
    then obtain l2 where "(if grp s i = 1 then rec (sid s i) (Some i) (lvl + 1) (pass_on v (opn s i))
            (l[i := (l ! i)\<lparr>vVisible := v, vLevel := lvl\<rparr>])
          else Some (l[i := (l ! i)\<lparr>vVisible := v, vLevel := lvl\<rparr>])) = Some l2"
      and rest: "row_loop rec p lvl v is (add_kid a (l2 ! i)) l2 = Some (a', l')"
      using Cons.prems(4) unfolding row_loop.simps Let_def fields
      by (auto simp: True bind_eq_Some_conv)
    then have "loop_inv now s p lvl v l0 (seen @ [i]) (add_kid a (l2 ! i)) l2"
      using Cons.prems i True assms(3) by (intro loop_step [OF assms(1,2) Cons.prems(1)]) auto
    with Cons.IH [OF this] Cons.prems rest show ?thesis by simp
  next
    case False
    with Cons.IH [OF loop_inv_skip [OF Cons.prems(1) False]] Cons.prems show ?thesis
      by (simp add: Let_def fields)
  qed
qed simp

text \<open>A call does what its caller assumes, and more generally for every parent.\<close>

lemma processRows_correct:
  assumes "forest r s"
  shows "shape_of l = s \<Longrightarrow> reached s p \<Longrightarrow> (\<And>j. row = Some j \<Longrightarrow> j < length s \<and> \<not> under s p j) \<Longrightarrow>
    processRows now n p row lvl v l = Some l' \<Longrightarrow>
    shape_of l' = s \<and> tree_done now s p l' \<and> kids_at s p lvl v l'
    \<and> (\<forall>j. row = Some j \<longrightarrow> l' ! j = sum_up (kid_acc now s p l') (l ! j))
    \<and> (\<forall>i < length s. row \<noteq> Some i \<and> \<not> under s p i \<longrightarrow> l' ! i = l ! i)"
proof (induction n arbitrary: p row lvl v l l')
  case (Suc n)
  have rec: "rec_ok now s (processRows now n)"
    unfolding rec_ok_def
  proof (intro allI impI, elim conjE)
    fix j k u m m'
    assume "shape_of m = s" and j: "under s 0 j" "grp s j = 1"
      and "processRows now n (sid s j) (Some j) k u m = Some m'"
    moreover have "reached s (sid s j)" using j by (auto simp: reached_def)
    moreover have "j < length s" using j(1) by (rule under_length)
    moreover have "\<not> under s (sid s j) j" using rank_under [of s "sid s j" j r] assms j \<open>reached s (sid s j)\<close>
      by (auto simp: forest_def)
    ultimately show "shape_of m' = s \<and> tree_done now s (sid s j) m' \<and> kids_at s (sid s j) k u m'
        \<and> m' ! j = sum_up (kid_acc now s (sid s j) m') (m ! j)
        \<and> (\<forall>i < length s. i \<noteq> j \<and> \<not> under s (sid s j) i \<longrightarrow> m' ! i = m ! i)"
      using Suc.IH [of m "sid s j" "Some j" k u m'] by auto
  qed
  obtain a l1 where loop: "row_loop (processRows now n) p lvl v [0..<length s] (new_acc now) l = Some (a, l1)"
    and l': "l' = finish_row row a l1" using Suc.prems(1,4) by (auto simp: shape_of_def)
  have "loop_inv now s p lvl v l [] (new_acc now) l" using Suc.prems(1) by (simp add: loop_inv_def)
  from row_loop_inv [OF assms rec Suc.prems(2) this _ _ loop] have inv: "shape_of l1 = s" "a = kid_acc now s p l1"
    "\<And>k. k < length s \<Longrightarrow> par s k = p \<Longrightarrow> kid_done now s lvl v k l1"
    "\<And>i. i < length s \<Longrightarrow> \<not> under s p i \<Longrightarrow> l1 ! i = l ! i"
    by (auto simp: loop_inv_def kid_acc_def)
  have same: "l' ! i = l1 ! i" if "row \<noteq> Some i" for i
    using that by (simp add: l' finish_row_def list_update_nth split: option.splits)
  have below: "l' ! i = l1 ! i" if "under s p i" for i
    using same Suc.prems(3) that by blast
  have "kids_at s p lvl v l1" using inv(3) by (simp add: kids_at_def kid_done_def)
  moreover have "l' ! i = l1 ! i" if "i < length s" "par s i = p" for i
    using that by (intro below under.child)
  ultimately have kids: "kids_at s p lvl v l'" by (simp add: kids_at_def)
  have "group_done now s l1 j" if j: "under s p j" "grp s j = 1" for j
    using under_kid [OF j(1)] inv(3) j(2) by (auto simp: kid_done_def tree_done_def)
  then have "tree_done now s p l1" by (simp add: tree_done_def)
  then have tree: "tree_done now s p l'" using tree_done_cong [of s p l' l1] below by blast
  have acc: "kid_acc now s p l' = a" using kid_acc_cong [of s p l' l1] below inv(2) by simp
  have "l' ! j = sum_up (kid_acc now s p l') (l ! j)" if "row = Some j" for j
    using that Suc.prems(3) [OF that] inv(4) inv(1) unfolding acc by (auto simp: l' finish_row_def)
  moreover have "shape_of l' = s" using inv(1) by (simp add: l')
  ultimately show ?case using kids tree same inv(4) by simp
qed simp

section \<open>Charts with unique identifiers\<close>

text \<open>When identifiers are unique and none is 0, the number of rows below an identifier is such a rank.\<close>

definition unique_ids :: "task list \<Rightarrow> bool" where
  "unique_ids l \<longleftrightarrow> distinct (map vID l) \<and> 0 \<notin> vID ` set l"

definition rows_under :: "shape \<Rightarrow> int \<Rightarrow> nat" where
  "rows_under s p = card {i. under s p i}"

lemma unique_ids_shape:
  assumes "unique_ids l"
  shows "distinct (map fst (shape_of l))" "\<And>i. i < length l \<Longrightarrow> sid (shape_of l) i \<noteq> 0"
  using assms by (auto simp: unique_ids_def shape_of_def sid_def comp_def)

lemma not_under_itself:
  assumes "distinct (map fst s)" "\<And>i. i < length s \<Longrightarrow> sid s i \<noteq> 0"
  shows "under s 0 i \<Longrightarrow> grp s i = 1 \<Longrightarrow> \<not> under s (sid s i) i"
proof (induction rule: under.induct)
  case (child i)
  then show ?case using assms(2) by (metis under.cases under_length)
next
  case (deeper j i)
  have same: "k = j" if "k < length s" "sid s k = sid s j" for k
    using that assms(1) under_length [OF deeper.hyps(1)]
    by (auto simp: sid_def distinct_conv_nth nth_eq_iff_index_eq)
  show ?case
  proof
    assume "under s (sid s i) i"
    then have "under s (sid s i) j \<or> i = j"
      by cases (use same deeper.hyps under_length in auto)
    moreover have "i \<noteq> j" using deeper by (auto intro: under.child)
    ultimately have "under s (sid s i) j" by simp
    then show False using under_below [OF deeper.hyps(3,4) deeper.prems] deeper by auto
  qed
qed

lemma unique_ids_forest:
  assumes "unique_ids l"
  shows "forest (rows_under (shape_of l)) (shape_of l)"
proof -
  let ?s = "shape_of l"
  have "rows_under ?s (sid ?s i) < rows_under ?s (par ?s i)" if i: "under ?s 0 i" "grp ?s i = 1" for i
    unfolding rows_under_def
  proof (rule psubset_card_mono)
    show "finite {k. under ?s (par ?s i) k}"
      by (rule finite_subset [of _ "{..<length ?s}"]) (auto dest: under_length)
    have "under ?s (par ?s i) i" using under_length [OF i(1)] by (intro under.child) auto
    moreover have "\<not> under ?s (sid ?s i) i"
      using not_under_itself [of ?s i] unique_ids_shape [OF assms] i by simp
    ultimately show "{k. under ?s (sid ?s i) k} \<subset> {k. under ?s (par ?s i) k}"
      using under_below [OF under_length [OF i(1)] refl i(2)] by blast
  qed
  then show ?thesis using unique_ids_shape [OF assms] by (simp add: forest_def)
qed

lemma rows_under_bound: "rows_under (shape_of l) p \<le> length l"
proof -
  have "{i. under (shape_of l) p i} \<subseteq> {..<length l}" by (auto dest: under_length)
  from card_mono [OF finite_lessThan this] show ?thesis by (simp add: rows_under_def)
qed

lemma reached_root [simp]: "reached s 0"
  by (simp add: reached_def)

text \<open>The two uses of the pass on a whole chart.\<close>

lemma chart_pass:
  assumes "unique_ids l" "processRows now n 0 None 1 1 l = Some l'"
  shows "shape_of l' = shape_of l \<and> tree_done now (shape_of l) 0 l' \<and> kids_at (shape_of l) 0 1 1 l'"
  using processRows_correct [OF unique_ids_forest [OF assms(1)] refl reached_root _ assms(2)] by simp

lemma chart_pass_frame:
  assumes "unique_ids l" "processRows now n 0 None 1 1 l = Some l'" "i < length l" "\<not> under (shape_of l) 0 i"
  shows "l' ! i = l ! i"
  using processRows_correct [OF unique_ids_forest [OF assms(1)] refl reached_root _ assms(2)] assms(3,4) by simp

lemma chart_pass_total:
  assumes "unique_ids l" "length l < n"
  shows "\<exists>l'. processRows now n 0 None 1 1 l = Some l'"
  using processRows_total [OF unique_ids_forest [OF assms(1)] reached_root] rows_under_bound [of l 0] assms(2)
  by simp

section \<open>The sums of a group\<close>

definition kids_of :: "int \<Rightarrow> task list \<Rightarrow> task list" where
  "kids_of q l = filter (\<lambda>t. vParent t = q) l"

lemma kid_acc_kids:
  assumes "shape_of l = s"
  shows "kid_acc now s q l = foldl add_kid (new_acc now) (kids_of q l)"
proof -
  have "kids_of q l = filter (\<lambda>t. vParent t = q) (map ((!) l) [0..<length l])" by (simp add: kids_of_def map_nth)
  also have "\<dots> = map ((!) l) (filter (\<lambda>i. par s i = q) [0..<length s])"
    by (auto simp: filter_map comp_def simp flip: assms intro!: arg_cong [where f = "map ((!) l)"] filter_cong)
  finally show ?thesis by (simp add: kid_acc_def)
qed

lemma add_kid_fields [simp]:
  "vMinDate (add_kid a t) = (if \<not> vMinSet a \<or> date_less (vStart t) (vMinDate a) then vStart t else vMinDate a)"
  "vMaxDate (add_kid a t) = (if \<not> vMaxSet a \<or> date_less (vMaxDate a) (vEnd t) then vEnd t else vMaxDate a)"
  "vMinSet (add_kid a t)" "vMaxSet (add_kid a t)" "vKids (add_kid a t) = vKids a + 1"
  "vCompSum (add_kid a t) = vCompSum a + getCompVal t"
  "vMinSet (new_acc now) = False" "vMaxSet (new_acc now) = False" "vKids (new_acc now) = 0" "vCompSum (new_acc now) = 0"
  by (simp_all add: add_kid_def new_acc_def)

lemma sums_count:
  "vKids (foldl add_kid (new_acc now) ts) = length ts"
  "vCompSum (foldl add_kid (new_acc now) ts) = sum_list (map getCompVal ts)"
  "vMinSet (foldl add_kid (new_acc now) ts) = (ts \<noteq> [])"
  "vMaxSet (foldl add_kid (new_acc now) ts) = (ts \<noteq> [])"
  by (induction ts rule: rev_induct) simp_all

lemma sums_min:
  "ts \<noteq> [] \<Longrightarrow> \<forall>t \<in> set ts. vStart t \<noteq> None \<Longrightarrow>
   vMinDate (foldl add_kid (new_acc now) ts) = Some (Min ((\<lambda>t. the (vStart t)) ` set ts))"
proof (induction ts rule: rev_induct)
  case (snoc t ts)
  then obtain d where d: "vStart t = Some d" by auto
  show ?case
  proof (cases "ts = []")
    case False
    with snoc obtain m where m: "vMinDate (foldl add_kid (new_acc now) ts) = Some m"
      "m = Min ((\<lambda>t. the (vStart t)) ` set ts)" by simp
    have "Min ((\<lambda>t. the (vStart t)) ` set (ts @ [t])) = min d m"
      using False d m(2) by simp
    then show ?thesis using False d m(1) by (simp add: sums_count date_less_def min_def del: set_append)
  qed (simp add: d)
qed simp

lemma sums_max:
  "ts \<noteq> [] \<Longrightarrow> \<forall>t \<in> set ts. vEnd t \<noteq> None \<Longrightarrow>
   vMaxDate (foldl add_kid (new_acc now) ts) = Some (Max ((\<lambda>t. the (vEnd t)) ` set ts))"
proof (induction ts rule: rev_induct)
  case (snoc t ts)
  then obtain d where d: "vEnd t = Some d" by auto
  show ?case
  proof (cases "ts = []")
    case False
    with snoc obtain m where m: "vMaxDate (foldl add_kid (new_acc now) ts) = Some m"
      "m = Max ((\<lambda>t. the (vEnd t)) ` set ts)" by simp
    have "Max ((\<lambda>t. the (vEnd t)) ` set (ts @ [t])) = max d m"
      using False d m(2) by simp
    then show ?thesis using False d m(1) by (simp add: sums_count date_less_def max_def del: set_append)
  qed (simp add: d)
qed simp

lemma group_of_chart:
  assumes "unique_ids l" "processRows now n 0 None 1 1 l = Some l'" "under (shape_of l) 0 j" "vGroup (l ! j) = 1"
  shows "shape_of l' = shape_of l" "j < length l" "group_done now (shape_of l) l' j"
proof -
  show "shape_of l' = shape_of l" using chart_pass [OF assms(1,2)] by simp
  show j: "j < length l" using under_length [OF assms(3)] by simp
  show "group_done now (shape_of l) l' j"
    using chart_pass [OF assms(1,2)] assms(3,4) j by (auto simp: tree_done_def)
qed

text \<open>A closed group with one task from day 1 to day 3.\<close>

definition small_chart :: "task list" where
  "small_chart =
     (let t = \<lparr>vID = 1, vName = ''g'', vStart = Some 0, vEnd = Some 0, vColor = [], vLink = [], vMile = 0,
               vRes = [], vComp = None, vGroup = 1, vParent = 0, vOpen = 0, vDepend = [], vCaption = [],
               vLevel = 0, vNumKid = 0, vVisible = 1, x1 = 0, y1 = 0, x2 = 0, y2 = 0\<rparr>
      in [t, t\<lparr>vID := 2, vGroup := 0, vParent := 1, vStart := Some 86400000, vEnd := Some 259200000, vComp := Some 40\<rparr>])"

lemma small_chart_ids: "unique_ids small_chart"
  by (simp add: unique_ids_def small_chart_def Let_def)

lemma small_chart_group: "under (shape_of small_chart) 0 0"
  by (rule under.child) (simp_all add: shape_of_def small_chart_def par_def Let_def)

lemma small_chart_rows:
  "length small_chart = 2" "vGroup (small_chart ! 0) = 1" "vID (small_chart ! 0) = 1"
  "vParent (small_chart ! 0) = 0" "vParent (small_chart ! 1) = 1" "vOpen (small_chart ! 0) = 0"
  by (simp_all add: small_chart_def Let_def)

lemma small_chart_pass:
  "processRows 5 3 0 None 1 1 small_chart =
     Some [(small_chart ! 0)\<lparr>vLevel := 1, vNumKid := 1, vStart := Some 86400000, vEnd := Some 259200000, vComp := Some 40\<rparr>,
           (small_chart ! 1)\<lparr>vLevel := 2, vVisible := 0\<rparr>]"
  by (simp add: small_chart_def Let_def numeral_3_eq_3 upt_rec add_kid_def new_acc_def finish_row_def sum_up_def
      pass_on_def getCompVal_def ceil_div_def)

text \<open>C2: the pass ends on every chart with unique identifiers, with a stack of one call more than the chart is long.
  Afterwards the tasks at the top are shown on level 1, and the children of a group that is reached from the top are
  one level below it and shown exactly when it is shown and open.  Every other task, whose parent is missing, no
  group or itself not reached, is left as it was.\<close>

theorem chart_levels:
  assumes "unique_ids l"
  shows "\<exists>l'. processRows now (length l + 1) 0 None 1 1 l = Some l'
    \<and> (\<forall>i < length l. vParent (l ! i) = 0 \<longrightarrow> vLevel (l' ! i) = 1 \<and> vVisible (l' ! i) = 1)
    \<and> (\<forall>j i. under (shape_of l) 0 j \<and> vGroup (l ! j) = 1 \<and> i < length l \<and> vParent (l ! i) = vID (l ! j) \<longrightarrow>
          vLevel (l' ! i) = vLevel (l' ! j) + 1
          \<and> (vVisible (l' ! i) = 1 \<longleftrightarrow> vVisible (l' ! j) = 1 \<and> vOpen (l ! j) \<noteq> 0))
    \<and> (\<forall>i < length l. \<not> under (shape_of l) 0 i \<longrightarrow> l' ! i = l ! i)"
proof -
  obtain l' where pass: "processRows now (length l + 1) 0 None 1 1 l = Some l'"
    using chart_pass_total [OF assms, of "length l + 1" now] by (auto simp del: processRows.simps)
  have "vLevel (l' ! i) = 1 \<and> vVisible (l' ! i) = 1" if "i < length l" "vParent (l ! i) = 0" for i
    using chart_pass [OF assms pass] that by (auto simp: kids_at_def)
  moreover have "vLevel (l' ! i) = vLevel (l' ! j) + 1
      \<and> (vVisible (l' ! i) = 1 \<longleftrightarrow> vVisible (l' ! j) = 1 \<and> vOpen (l ! j) \<noteq> 0)"
    if "under (shape_of l) 0 j" "vGroup (l ! j) = 1" "i < length l" "vParent (l ! i) = vID (l ! j)" for j i
    using group_of_chart [OF assms pass that(1,2)] that(3,4)
    by (auto simp: group_done_def kids_at_def pass_on_def)
  moreover have "l' ! i = l ! i" if "i < length l" "\<not> under (shape_of l) 0 i" for i
    using chart_pass_frame [OF assms pass that] .
  ultimately show ?thesis using pass by blast
qed

theorem chart_levels_witness:
  "\<exists>l'. processRows 5 3 0 None 1 1 small_chart = Some l'
     \<and> vLevel (l' ! 0) = 1 \<and> vVisible (l' ! 0) = 1 \<and> vLevel (l' ! 1) = 2 \<and> vVisible (l' ! 1) \<noteq> 1"
proof -
  have "length small_chart + 1 = 3" by (simp add: small_chart_rows)
  with chart_levels [OF small_chart_ids, of 5] show ?thesis
    using small_chart_group small_chart_rows
    by (metis numeral_2_eq_2 zero_less_numeral one_add_one one_less_numeral_iff semiring_norm(76))
qed

text \<open>C6: after the pass a group that is reached, all of whose children have dates, starts with the first
  of them, ends with the last of them, counts them and is done to the mean of their percentages,
  rounded up.\<close>

theorem group_sums:
  assumes "unique_ids l" "processRows now n 0 None 1 1 l = Some l'"
    "under (shape_of l) 0 j" "vGroup (l ! j) = 1"
    "kids_of (vID (l ! j)) l' \<noteq> []" "\<forall>t \<in> set (kids_of (vID (l ! j)) l'). vStart t \<noteq> None \<and> vEnd t \<noteq> None"
  shows "let kids = kids_of (vID (l ! j)) l'
    in vStart (l' ! j) = Some (Min ((\<lambda>t. the (vStart t)) ` set kids))
       \<and> vEnd (l' ! j) = Some (Max ((\<lambda>t. the (vEnd t)) ` set kids))
       \<and> vNumKid (l' ! j) = length kids
       \<and> vComp (l' ! j) = Some (ceil_div (sum_list (map getCompVal kids)) (int (length kids)))"
proof -
  note g = group_of_chart [OF assms(1-4)]
  have "l' ! j = sum_up (kid_acc now (shape_of l) (vID (l ! j)) l') (l' ! j)" using g(2,3) by (simp add: group_done_def)
  then have "l' ! j = sum_up (foldl add_kid (new_acc now) (kids_of (vID (l ! j)) l')) (l' ! j)"
    by (simp only: kid_acc_kids [OF g(1)])
  then obtain t where "l' ! j = sum_up (foldl add_kid (new_acc now) (kids_of (vID (l ! j)) l')) t" by blast
  then show ?thesis
    using assms(5,6) by (simp add: Let_def sum_up_def sums_count sums_min sums_max)
qed

theorem group_sums_witness:
  "\<exists>l'. processRows 5 3 0 None 1 1 small_chart = Some l'
     \<and> vStart (l' ! 0) = Some 86400000 \<and> vEnd (l' ! 0) = Some 259200000 \<and> vNumKid (l' ! 0) = 1 \<and> vComp (l' ! 0) = Some 40"
proof -
  let ?l = "[(small_chart ! 0)\<lparr>vLevel := 1, vNumKid := 1, vStart := Some 86400000, vEnd := Some 259200000, vComp := Some 40\<rparr>,
    (small_chart ! 1)\<lparr>vLevel := 2, vVisible := 0\<rparr>]"
  have kids: "kids_of (vID (small_chart ! 0)) ?l = [(small_chart ! 1)\<lparr>vLevel := 2, vVisible := 0\<rparr>]"
    by (simp add: kids_of_def small_chart_def Let_def)
  show ?thesis
    using group_sums [OF small_chart_ids small_chart_pass small_chart_group small_chart_rows(2)]
    unfolding kids small_chart_pass by (simp add: small_chart_def Let_def getCompVal_def ceil_div_def)
qed

text \<open>A task that is its own parent and a group never lets the pass end.\<close>

lemma row_loop_stuck:
  assumes "\<And>row n v l. shape_of l = s \<Longrightarrow> rec (sid s i) row n v l = None" "i < length s" "par s i = p" "grp s i = 1"
    "\<And>q row n v l l'. rec q row n v l = Some l' \<Longrightarrow> shape_of l' = shape_of l"
  shows "i \<in> set is \<Longrightarrow> shape_of l = s \<Longrightarrow> set is \<subseteq> {0..<length s} \<Longrightarrow> row_loop rec p lvl v is a l = None"
proof (induction "is" arbitrary: a l)
  case (Cons k "is")
  have sh: "shape_of (l[k := (l ! k)\<lparr>vVisible := v, vLevel := lvl\<rparr>]) = s" using Cons.prems by simp
  show ?case
  proof (cases "k = i")
    case True
    have "i < length l" using assms(2) Cons.prems(2) by auto
    then have "vParent (l ! i) = p" "vGroup (l ! i) = 1" "vID (l ! i) = sid s i"
      using assms(3,4) by (simp_all flip: Cons.prems(2))
    then show ?thesis using assms(1) [OF sh] True by (simp add: Let_def)
  next
    case False
    then have "i \<in> set is" using Cons.prems by simp
    then show ?thesis using Cons.IH Cons.prems sh assms(5)
      by (cases "vGroup (l ! k) = 1") (auto simp: Let_def split: Option.bind_split)
  qed
qed simp

lemma own_parent_overflows:
  "i < length l \<Longrightarrow> vID (l ! i) = p \<Longrightarrow> vParent (l ! i) = p \<Longrightarrow> vGroup (l ! i) = 1 \<Longrightarrow>
   processRows now n p row lvl v l = None"
proof (induction n arbitrary: row lvl v l)
  case (Suc n)
  have "processRows now n (sid (shape_of l) i) row' k u l1 = None" if "shape_of l1 = shape_of l" for row' k u l1
  proof -
    have "i < length l1" using that Suc.prems(1) by (metis shape_simps(1))
    then show ?thesis using Suc.IH [of l1 row' k u] Suc.prems that by (metis shape_simps(2-4))
  qed
  then show ?case
    using row_loop_stuck [of "shape_of l" "processRows now n" i p "[0..<length l]"] Suc.prems processRows_shape
    by simp
qed simp

end
