(* ===== verification/Gantt_Dates.thy ===== *)
theory Gantt_Dates
  imports Gantt_Rows
begin

text \<open>
  \<open>JSGantt.getMinDate\<close> and \<open>JSGantt.getMaxDate\<close>: the first and the last moment a chart shows.  Both
  start from the moment of the call, whose time of day they keep, take over the day of a task and move
  it to a boundary of the display format with loops that step through the days.
\<close>

section \<open>Steps through the days\<close>

definition day_of :: "int \<Rightarrow> int" where
  "day_of t = t div msPerDay"

lemma day_of_shift [simp]: "day_of (t + k * msPerDay) = day_of t + k" "day_of (t - k * msPerDay) = day_of t - k"
  using div_mult_self1 [of msPerDay t k] div_mult_self1 [of msPerDay t "- k"] by (simp_all add: day_of_def)

lemma setDate_next [simp]: "setDate (getDate t + 1) t = t + msPerDay" "setDate (getDate t - 1) t = t - msPerDay"
  using setDate_shift [of t 1] setDate_shift_back [of t 1] by simp_all

lemma getDay_next:
  "getDay (t + msPerDay) = (getDay t + 1) mod 7" "getDay (t - msPerDay) = (getDay t - 1) mod 7"
  using getDay_shift [of t 1] getDay_shift [of t "- 1"] by simp_all

text \<open>Back to a Sunday, which is day 0 of the week.\<close>

function sunday_back :: "int \<Rightarrow> int" where
  "sunday_back t = (if getDay t mod 7 > 0 then sunday_back (setDate (getDate t - 1) t) else t)"
  by auto
termination
proof (relation "measure (nat \<circ> getDay)")
  fix t assume "0 < getDay t mod 7"
  then show "(setDate (getDate t - 1) t, t) \<in> measure (nat \<circ> getDay)"
    using getDay_range [of t] by (simp add: getDay_next)
qed simp

text \<open>On to a Saturday or a Sunday.\<close>

function weekend_forward :: "int \<Rightarrow> int" where
  "weekend_forward t = (if getDay t mod 6 > 0 then weekend_forward (setDate (getDate t + 1) t) else t)"
  by auto
termination
proof (relation "measure (\<lambda>t. nat (6 - getDay t))")
  fix t assume "0 < getDay t mod 6"
  then have "1 \<le> getDay t" "getDay t < 6" using getDay_range [of t] by presburger+
  then show "(setDate (getDate t + 1) t, t) \<in> measure (\<lambda>t. nat (6 - getDay t))"
    by (simp add: getDay_next)
qed simp

text \<open>Back to the first of the month.\<close>

lemma day_before:
  assumes "getDate t > 1"
  shows "getDate (t - msPerDay) = getDate t - 1" "getMonth (t - msPerDay) = getMonth t"
    "getFullYear (t - msPerDay) = getFullYear t"
proof -
  let ?d = "t div msPerDay"
  have e: "(t - msPerDay) div msPerDay = MakeDay (YearFromDay ?d) (MonthFromDay ?d) (DateFromDay ?d - 1)"
    using MakeDay_shift [of "YearFromDay ?d" "MonthFromDay ?d" "DateFromDay ?d" "- 1"] day_of_shift(2) [of t 1]
    by (simp add: day_of_def)
  have "1 \<le> DateFromDay ?d - 1" "DateFromDay ?d - 1 \<le> days_in_month (YearFromDay ?d) (MonthFromDay ?d)"
    using assms DateFromDay_range [of ?d] by (simp_all add: getDate_def)
  note f = fields_MakeDay [OF MonthFromDay_range this]
  show "getDate (t - msPerDay) = getDate t - 1" "getMonth (t - msPerDay) = getMonth t"
    "getFullYear (t - msPerDay) = getFullYear t"
    by (simp_all only: getDate_def getMonth_def getFullYear_def e f)
qed

function month_back :: "int \<Rightarrow> int" where
  "month_back t = (if getDate t > 1 then month_back (setDate (getDate t - 1) t) else t)"
  by auto
termination
  by (relation "measure (nat \<circ> getDate)") (simp_all add: day_before)

text \<open>What is meant to go on to the end of the month looks at the day of the week: it goes on until that
  is a Sunday or a Monday.\<close>

function monday_forward :: "int \<Rightarrow> int" where
  "monday_forward t = (if getDay t > 1 then monday_forward (setDate (getDate t + 1) t) else t)"
  by auto
termination
proof (relation "measure (\<lambda>t. if getDay t = 0 then 0 else nat (7 - getDay t))")
  fix t assume "1 < getDay t"
  then have "getDay t < 6 \<or> getDay t = 6" "1 < getDay t" using getDay_range [of t] by auto
  then show "(setDate (getDate t + 1) t, t) \<in> measure (\<lambda>t. if getDay t = 0 then 0 else nat (7 - getDay t))"
    by (auto simp: getDay_next)
qed simp

declare sunday_back.simps [simp del] weekend_forward.simps [simp del]
  month_back.simps [simp del] monday_forward.simps [simp del]

lemma sunday_back_eq: "sunday_back t = t - getDay t * msPerDay"
proof (induction t rule: sunday_back.induct)
  case (1 t)
  then show ?case using getDay_range [of t]
    by (subst sunday_back.simps) (auto simp: getDay_next left_diff_distrib distrib_right)
qed

lemma weekend_forward_eq: "weekend_forward t = t + (if getDay t = 0 then 0 else 6 - getDay t) * msPerDay"
proof (induction t rule: weekend_forward.induct)
  case (1 t)
  consider "getDay t = 0" | "getDay t = 6" | "1 \<le> getDay t" "getDay t < 6" using getDay_range [of t] by linarith
  then show ?case
  proof cases
    case 3
    then have "getDay (t + msPerDay) = getDay t + 1" by (simp add: getDay_next)
    moreover have "0 < getDay t mod 6" using 3 by simp
    ultimately show ?thesis using 3 1 by (subst weekend_forward.simps) (simp add: left_diff_distrib distrib_right)
  qed (subst weekend_forward.simps, simp)+
qed

lemma monday_forward_eq: "monday_forward t = t + (if getDay t \<le> 1 then 0 else 7 - getDay t) * msPerDay"
proof (induction t rule: monday_forward.induct)
  case (1 t)
  have "getDay t \<le> 1 \<or> getDay t = 6 \<or> 2 \<le> getDay t \<and> getDay t < 6" using getDay_range [of t] by auto
  then show ?case using 1
    by (subst monday_forward.simps) (auto simp: getDay_next left_diff_distrib distrib_right)
qed

lemma month_back_first:
  "getDate (month_back t) = 1 \<and> getMonth (month_back t) = getMonth t \<and> getFullYear (month_back t) = getFullYear t
   \<and> month_back t mod msPerDay = t mod msPerDay"
proof (induction t rule: month_back.induct)
  case (1 t)
  show ?case
  proof (cases "getDate t > 1")
    case True
    with 1 show ?thesis by (subst (1 2 3 4) month_back.simps) (simp add: day_before mod_simps)
  next
    case False
    with getDate_range [of t] show ?thesis by (subst (1 2 3 4) month_back.simps) simp
  qed
qed

section \<open>The first moment of a chart\<close>

text \<open>\<open>v.setFullYear(d.getFullYear(), d.getMonth(), d.getDate())\<close>.\<close>

definition on_day_of :: "date \<Rightarrow> date \<Rightarrow> date" where
  "on_day_of d v = setFullYear (map_option getFullYear d) (map_option getMonth d) (map_option getDate d) v"

definition earlier :: "date \<Rightarrow> task \<Rightarrow> date" where
  "earlier v t =
     (if date_less (map_option parse_of_date (vStart t)) (map_option parse_of_date v)
      then on_day_of (vStart t) v else v)"

definition quarter_start :: "int \<Rightarrow> date" where
  "quarter_start v =
     (if getMonth v = 0 \<or> getMonth v = 1 \<or> getMonth v = 2 then setFullYear (Some (getFullYear v)) (Some 0) (Some 1) (Some v)
      else if getMonth v = 3 \<or> getMonth v = 4 \<or> getMonth v = 5 then setFullYear (Some (getFullYear v)) (Some 3) (Some 1) (Some v)
      else if getMonth v = 6 \<or> getMonth v = 7 \<or> getMonth v = 8 then setFullYear (Some (getFullYear v)) (Some 6) (Some 1) (Some v)
      else if getMonth v = 9 \<or> getMonth v = 10 \<or> getMonth v = 11 then setFullYear (Some (getFullYear v)) (Some 9) (Some 1) (Some v)
      else Some v)"

definition min_boundary :: "string \<Rightarrow> int \<Rightarrow> date" where
  "min_boundary pFormat v =
     (if pFormat = ''minute'' then Some (setMinutes 0 (setHours 0 v))
      else if pFormat = ''hour'' then Some (setMinutes 0 (setHours 0 v))
      else if pFormat = ''day'' then Some (sunday_back (setDate (getDate v - 1) v))
      else if pFormat = ''week'' then Some (sunday_back (setDate (getDate v - 7) v))
      else if pFormat = ''month'' then Some (month_back v)
      else if pFormat = ''quarter'' then quarter_start v
      else Some v)"

text \<open>The first element of the list is read before the loop: without one there is nothing to read from.\<close>

definition getMinDate :: "int \<Rightarrow> task list \<Rightarrow> string \<Rightarrow> date result" where
  "getMinDate now pList pFormat =
     (case pList of
        [] \<Rightarrow> Inl TypeError
      | t # _ \<Rightarrow> Inr (Option.bind (foldl earlier (on_day_of (vStart t) (Some now)) pList) (min_boundary pFormat)))"

section \<open>The last moment of a chart\<close>

definition later :: "date \<Rightarrow> task \<Rightarrow> date" where
  "later v t =
     (if date_less (map_option parse_of_date v) (map_option parse_of_date (vEnd t))
      then map_option parse_of_date (vEnd t) else v)"

definition quarter_end :: "int \<Rightarrow> date" where
  "quarter_end v =
     (if getMonth v = 0 \<or> getMonth v = 1 \<or> getMonth v = 2 then setFullYear (Some (getFullYear v)) (Some 2) (Some 31) (Some v)
      else if getMonth v = 3 \<or> getMonth v = 4 \<or> getMonth v = 5 then setFullYear (Some (getFullYear v)) (Some 5) (Some 30) (Some v)
      else if getMonth v = 6 \<or> getMonth v = 7 \<or> getMonth v = 8 then setFullYear (Some (getFullYear v)) (Some 8) (Some 30) (Some v)
      else if getMonth v = 9 \<or> getMonth v = 10 \<or> getMonth v = 11 then setFullYear (Some (getFullYear v)) (Some 11) (Some 31) (Some v)
      else Some v)"

definition max_boundary :: "string \<Rightarrow> int \<Rightarrow> date" where
  "max_boundary pFormat v =
     (if pFormat = ''minute'' then let u = setHours (getHours v + 1) v in Some (setMinutes 59 u)
      else if pFormat = ''hour'' then Some (setHours (getHours v + 2) v)
      else if pFormat = ''day'' then Some (weekend_forward (setDate (getDate v + 1) v))
      else if pFormat = ''week'' then Some (weekend_forward (setDate (getDate v + 11) v))
      else if pFormat = ''month'' then let u = monday_forward v in Some (setDate (getDate u - 1) u)
      else if pFormat = ''quarter'' then quarter_end v
      else Some v)"

definition getMaxDate :: "int \<Rightarrow> task list \<Rightarrow> string \<Rightarrow> date result" where
  "getMaxDate now pList pFormat =
     (case pList of
        [] \<Rightarrow> Inl TypeError
      | t # _ \<Rightarrow> Inr (Option.bind (foldl later (on_day_of (vEnd t) (Some now)) pList) (max_boundary pFormat)))"

section \<open>What the loops over the tasks find\<close>

lemma on_day_of_valid [simp]:
  "on_day_of (Some s) (Some v) = Some (MakeDate (day_of s) (v mod msPerDay))"
  by (simp add: on_day_of_def setFullYear_def getFullYear_def getMonth_def getDate_def day_of_def)

lemma day_of_MakeDate [simp]: "day_of (MakeDate d (v mod msPerDay)) = d"
  by (simp add: day_of_def)

lemma day_of_parse [simp]: "day_of (parse_of_date t) = day_of t"
proof -
  have "t div 1000 * 1000 div msPerDay = t div 1000 div 86400"
    using div_mult_mult2 [of 1000 "t div 1000" 86400] by simp
  also have "\<dots> = t div msPerDay" by (simp add: div_mult2_eq zdiv_zmult2_eq [symmetric])
  finally show ?thesis by (simp add: day_of_def parse_of_date_def)
qed

lemma parse_twice [simp]: "parse_of_date (parse_of_date t) = parse_of_date t"
  by (simp add: parse_of_date_def)

lemma day_of_mono: "s \<le> t \<Longrightarrow> day_of s \<le> day_of t"
  by (simp add: day_of_def zdiv_mono1)

lemma parse_mono: "s \<le> t \<Longrightarrow> parse_of_date s \<le> parse_of_date t"
  by (simp add: parse_of_date_def zdiv_mono1)

text \<open>The day found first is the first day on which a task starts, at the time of day of the call.\<close>

lemma earliest_day:
  assumes "\<forall>t \<in> set ts. \<exists>s. vStart t = Some s"
  shows "foldl earlier (Some v) ts =
    Some (MakeDate (Min (insert (day_of v) ((\<lambda>t. day_of (the (vStart t))) ` set ts))) (v mod msPerDay))"
  using assms
proof (induction ts arbitrary: v)
  case Nil
  then show ?case by (simp add: day_of_def)
next
  case (Cons t ts)
  then obtain s where s: "vStart t = Some s" by auto
  have step: "\<exists>w. earlier (Some v) t = Some w \<and> w mod msPerDay = v mod msPerDay \<and> day_of w = min (day_of v) (day_of s)"
  proof (cases "parse_of_date s < parse_of_date v")
    case True
    then have "day_of s \<le> day_of v" using day_of_mono [of "parse_of_date s" "parse_of_date v"] by simp
    with True show ?thesis by (simp add: earlier_def date_less_def s)
  next
    case False
    then have "day_of v \<le> day_of s" using day_of_mono [of "parse_of_date v" "parse_of_date s"] by simp
    with False show ?thesis by (simp add: earlier_def date_less_def s)
  qed
  then obtain w where w: "earlier (Some v) t = Some w" "w mod msPerDay = v mod msPerDay"
    "day_of w = min (day_of v) (day_of s)" by blast
  have "Min (insert (min (day_of v) (day_of s)) ((\<lambda>t. day_of (the (vStart t))) ` set ts))
      = Min (insert (day_of v) (insert (day_of s) ((\<lambda>t. day_of (the (vStart t))) ` set ts)))"
    by (cases "ts = []") (simp_all add: min.assoc)
  then show ?case using Cons w by (simp add: s)
qed

definition first_day :: "task list \<Rightarrow> int" where
  "first_day ts = Min ((\<lambda>t. day_of (the (vStart t))) ` set ts)"

lemma getMinDate_valid:
  assumes "ts \<noteq> []" "\<forall>t \<in> set ts. \<exists>s. vStart t = Some s"
  shows "getMinDate now ts fmt = Inr (min_boundary fmt (MakeDate (first_day ts) (now mod msPerDay)))"
proof -
  obtain t r s where ts: "ts = t # r" and s: "vStart t = Some s" using assms by (cases ts) auto
  have "foldl earlier (on_day_of (vStart t) (Some now)) ts = Some (MakeDate (first_day ts) (now mod msPerDay))"
    using earliest_day [OF assms(2), of "MakeDate (day_of s) (now mod msPerDay)"]
    by (simp add: s ts first_day_def insert_absorb)
  then show ?thesis by (simp add: getMinDate_def ts)
qed

text \<open>The last moment found is not before the end of any task.\<close>

lemma latest_covers:
  assumes "\<forall>t \<in> set ts. \<exists>e. vEnd t = Some e"
  shows "\<exists>w. foldl later (Some v) ts = Some w \<and> parse_of_date v \<le> parse_of_date w
    \<and> (\<forall>t \<in> set ts. parse_of_date (the (vEnd t)) \<le> parse_of_date w)
    \<and> day_of w \<in> insert (day_of v) ((\<lambda>t. day_of (the (vEnd t))) ` set ts)"
  using assms
proof (induction ts arbitrary: v)
  case (Cons t ts)
  then obtain e where e: "vEnd t = Some e" by auto
  obtain u where u: "later (Some v) t = Some u" "parse_of_date v \<le> parse_of_date u"
    "parse_of_date e \<le> parse_of_date u" "day_of u = day_of v \<or> day_of u = day_of e"
    by (cases "parse_of_date v < parse_of_date e") (auto simp: later_def date_less_def e)
  then show ?case using Cons.IH [of u] Cons.prems e by fastforce
qed simp

definition last_day :: "task list \<Rightarrow> int" where
  "last_day ts = Max ((\<lambda>t. day_of (the (vEnd t))) ` set ts)"

lemma getMaxDate_valid:
  assumes "ts \<noteq> []" "\<forall>t \<in> set ts. \<exists>e. vEnd t = Some e"
  shows "\<exists>w. getMaxDate now ts fmt = Inr (max_boundary fmt w) \<and> day_of w = last_day ts
    \<and> (\<forall>t \<in> set ts. parse_of_date (the (vEnd t)) \<le> parse_of_date w)"
proof -
  obtain t r e where ts: "ts = t # r" and e: "vEnd t = Some e" using assms by (cases ts) auto
  obtain w where w: "foldl later (on_day_of (vEnd t) (Some now)) ts = Some w"
    "\<forall>t \<in> set ts. parse_of_date (the (vEnd t)) \<le> parse_of_date w"
    "day_of w \<in> insert (day_of e) ((\<lambda>t. day_of (the (vEnd t))) ` set ts)"
    using latest_covers [OF assms(2), of "MakeDate (day_of e) (now mod msPerDay)"] by (auto simp: e)
  have "day_of w \<in> (\<lambda>t. day_of (the (vEnd t))) ` set ts" using w(3) e ts by auto
  moreover have "day_of (the (vEnd t)) \<le> day_of w" if "t \<in> set ts" for t
    using day_of_mono w(2) that by (metis day_of_parse)
  ultimately have "day_of w = last_day ts" unfolding last_day_def by (intro Max_eqI [symmetric]) auto
  with w show ?thesis by (auto simp: getMaxDate_def ts)
qed

section \<open>Boundaries\<close>

lemma getDay_zero_diff: "getDay (t - getDay t * msPerDay) = 0"
  using getDay_shift [of t "- getDay t"] by simp

lemma fields_day:
  "getFullYear t = YearFromDay (day_of t)" "getMonth t = MonthFromDay (day_of t)" "getDate t = DateFromDay (day_of t)"
  by (simp_all add: getFullYear_def getMonth_def getDate_def day_of_def)

lemma quarter_start_valid:
  "\<exists>r. quarter_start v = Some r \<and> getFullYear r = getFullYear v \<and> getDate r = 1 \<and> getMonth r mod 3 = 0
     \<and> getMonth r \<le> getMonth v \<and> getMonth v < getMonth r + 3 \<and> r mod msPerDay = v mod msPerDay"
proof -
  have first: "getFullYear (MakeDate (MakeDay y m 1) (v mod msPerDay)) = y"
    "getMonth (MakeDate (MakeDay y m 1) (v mod msPerDay)) = m"
    "getDate (MakeDate (MakeDay y m 1) (v mod msPerDay)) = 1"
    "MakeDate (MakeDay y m 1) (v mod msPerDay) mod msPerDay = v mod msPerDay" if "0 \<le> m" "m < 12" for y m
    using fields_MakeDay [of m 1 y] days_in_month_range [of m y] that by (simp_all add: fields_day)
  have "0 \<le> getMonth v" "getMonth v < 12" using MonthFromDay_range by (simp_all add: fields_day)
  from twelve_months [OF this] show ?thesis
    by (elim disjE) (simp_all add: quarter_start_def setFullYear_def first)
qed

lemma quarter_end_valid:
  "\<exists>r. quarter_end v = Some r \<and> getFullYear r = getFullYear v \<and> getDate r = days_in_month (getFullYear v) (getMonth r)
     \<and> getMonth r mod 3 = 2 \<and> getMonth v \<le> getMonth r \<and> getMonth r < getMonth v + 3 \<and> r mod msPerDay = v mod msPerDay"
proof -
  have last: "getFullYear (MakeDate (MakeDay y m d) (v mod msPerDay)) = y"
    "getMonth (MakeDate (MakeDay y m d) (v mod msPerDay)) = m"
    "getDate (MakeDate (MakeDay y m d) (v mod msPerDay)) = d"
    "MakeDate (MakeDay y m d) (v mod msPerDay) mod msPerDay = v mod msPerDay"
    if "0 \<le> m" "m < 12" "1 \<le> d" "d \<le> days_in_month y m" for y m d
    using fields_MakeDay [of m d y] that by (simp_all add: fields_day)
  have "0 \<le> getMonth v" "getMonth v < 12" using MonthFromDay_range by (simp_all add: fields_day)
  from twelve_months [OF this] show ?thesis
    by (elim disjE) (simp_all add: quarter_end_def setFullYear_def last days_in_month_def month_start_def)
qed

text \<open>Days are ordered as their years, months and days of the month.\<close>

lemma quarter_end_after:
  assumes "getFullYear r = getFullYear v" "getMonth v \<le> getMonth r" "getDate r = days_in_month (getFullYear v) (getMonth r)"
  shows "day_of v \<le> day_of r"
proof -
  let ?y = "getFullYear v" and ?m = "getMonth v" and ?n = "getMonth r"
  have r: "0 \<le> ?m" "?m < 12" "0 \<le> ?n" "?n < 12" using MonthFromDay_range by (simp_all add: fields_day)
  have v: "day_of v = MakeDay ?y ?m (getDate v)" and e: "day_of r = MakeDay ?y ?n (getDate r)"
    by (simp add: fields_day) (metis MakeDay_fields assms(1) fields_day)
  have "getDate v \<le> days_in_month ?y ?m" using DateFromDay_range [of "day_of v"] by (simp add: fields_day)
  moreover have "month_start l (m + 1) \<le> month_start l (n + 1)" if "m \<le> n" "0 \<le> m" "n < 12" for l m n
    using that twelve_months [of m] twelve_months [of n] by (auto simp: month_start_def)
  ultimately show ?thesis using assms(2,3) r unfolding v e
    by (simp add: MakeDay_def days_in_month_def div_pos_pos_trivial mod_pos_pos_trivial) (smt (verit))
qed

lemma same_day_time: "MakeDate (day_of t) (t mod msPerDay) = t"
  by (simp add: day_of_def)

lemma midnight:
  "setMinutes 0 (setHours 0 (MakeDate d (now mod msPerDay))) = d * msPerDay + now mod 60000"
proof -
  have a: "setHours 0 (MakeDate d (now mod msPerDay)) = d * msPerDay + now mod 3600000"
  proof -
    have "MakeDate d (now mod msPerDay) mod 3600000 = now mod 3600000"
      by (simp add: MakeDate_def mod_mod_cancel mod_add_eq [symmetric])
    then show ?thesis by (simp add: setHours_def MakeDate_def)
  qed
  have "(d * msPerDay + now mod 3600000) mod 60000 = now mod 60000"
    by (simp add: mod_mod_cancel mod_add_eq [symmetric])
  moreover have "(d * msPerDay + now mod 3600000) div 3600000 * 3600000 = d * msPerDay"
  proof -
    have "d * msPerDay + now mod 3600000 = d * 24 * 3600000 + now mod 3600000" by simp
    then have "(d * msPerDay + now mod 3600000) div 3600000 = d * 24" by (simp only: div_mult_self3)
    then show ?thesis by simp
  qed
  ultimately show ?thesis unfolding a setMinutes_def by simp
qed

lemma same_time: "(t - k * msPerDay) mod msPerDay = t mod msPerDay"
  using mod_mult_self1 [of t "- k" msPerDay] by simp

lemma sunday_back_fields:
  "sunday_back t mod msPerDay = t mod msPerDay" "getDay (sunday_back t) = 0" "day_of (sunday_back t) = day_of t - getDay t"
  unfolding sunday_back_eq by (rule same_time getDay_zero_diff day_of_shift)+

text \<open>C15: for tasks whose start is known the first moment of a chart lies on the first day of a task, moved
  back to a boundary of the format: in the minute and hour formats that day itself, in the day format the
  Sunday before it, in the week format the Sunday more than a week before or a week before it, in the month
  format the first of its month and in the quarter format the first of its quarter; the search always ends.
  Only the day is found in the tasks: the time of day is that of the drawing, of which the minute and hour
  formats keep the seconds, so that on the first day a task may start before the first moment.\<close>

theorem min_date_boundary:
  assumes "ts \<noteq> []" "\<forall>t \<in> set ts. \<exists>s. vStart t = Some s"
    "fmt \<in> {''minute'', ''hour'', ''day'', ''week'', ''month'', ''quarter''}"
  shows "\<exists>r. getMinDate now ts fmt = Inr (Some r)
    \<and> r mod msPerDay = (if fmt = ''minute'' \<or> fmt = ''hour'' then now mod 60000 else now mod msPerDay)
    \<and> (let d = first_day ts in
      if fmt = ''minute'' \<or> fmt = ''hour'' then day_of r = d
      else if fmt = ''day'' then getDay r = 0 \<and> d - 7 \<le> day_of r \<and> day_of r < d
      else if fmt = ''week'' then getDay r = 0 \<and> d - 13 \<le> day_of r \<and> day_of r \<le> d - 7
      else getDate r = 1 \<and> getFullYear r = YearFromDay d
        \<and> getMonth r = (if fmt = ''month'' then MonthFromDay d else MonthFromDay d div 3 * 3))"
proof -
  define v where "v = MakeDate (first_day ts) (now mod msPerDay)"
  have d: "day_of v = first_day ts" "v mod msPerDay = now mod msPerDay" by (simp_all add: v_def)
  have g: "getMinDate now ts fmt = Inr (min_boundary fmt v)" using getMinDate_valid [OF assms(1,2)] by (simp add: v_def)
  consider "fmt = ''minute'' \<or> fmt = ''hour''" | "fmt = ''day''" | "fmt = ''week''" | "fmt = ''month''" | "fmt = ''quarter''"
    using assms(3) by (elim insertE emptyE) (rule that, simp)+
  then show ?thesis
  proof cases
    case 1
    have s: "0 \<le> now mod 60000" "now mod 60000 < 60000" by simp_all
    then have "(first_day ts * msPerDay + now mod 60000) mod msPerDay = now mod 60000"
      "day_of (first_day ts * msPerDay + now mod 60000) = first_day ts" by (simp_all add: day_of_def)
    with 1 g show ?thesis by (auto simp: min_boundary_def v_def midnight)
  next
    case 2
    define r where "r = sunday_back (v - msPerDay)"
    have m: "r mod msPerDay = now mod msPerDay"
      unfolding r_def sunday_back_fields d(2) [symmetric] using same_time [of v 1] by (simp only: mult_1)
    have f: "getDay r = 0" "day_of r = first_day ts - 1 - getDay (v - msPerDay)"
      using sunday_back_fields(2,3) [of "v - msPerDay"] day_of_shift(2) [of v 1] d(1) by (simp_all only: r_def mult_1)
    have "getMinDate now ts fmt = Inr (Some r)" using g 2 by (simp add: min_boundary_def r_def)
    moreover have "r mod msPerDay = (if fmt = ''minute'' \<or> fmt = ''hour'' then now mod 60000 else now mod msPerDay)"
      unfolding m 2 by simp
    ultimately show ?thesis using 2 f getDay_range [of "v - msPerDay"]
      by (intro exI [of _ r] conjI) (assumption, assumption, simp add: Let_def)
  next
    case 3
    define r where "r = sunday_back (v - 7 * msPerDay)"
    have m: "r mod msPerDay = now mod msPerDay"
      unfolding r_def sunday_back_fields same_time by (rule d(2))
    have f: "getDay r = 0" "day_of r = first_day ts - 7 - getDay (v - 7 * msPerDay)"
      unfolding r_def sunday_back_fields day_of_shift d(1) by (rule refl)+
    have "setDate (getDate v - 7) v = v - 7 * msPerDay" by (rule setDate_shift_back)
    then have "getMinDate now ts fmt = Inr (Some r)" using g 3 by (simp add: min_boundary_def r_def)
    moreover have "r mod msPerDay = (if fmt = ''minute'' \<or> fmt = ''hour'' then now mod 60000 else now mod msPerDay)"
      unfolding m 3 by simp
    ultimately show ?thesis using 3 f getDay_range [of "v - 7 * msPerDay"]
      by (intro exI [of _ r] conjI) (assumption, assumption, simp add: Let_def)
  next
    case 4
    with g show ?thesis using month_back_first [of v] by (simp add: min_boundary_def fields_day d)
  next
    case 5
    obtain r where "quarter_start v = Some r" "getFullYear r = getFullYear v" "getDate r = 1" "getMonth r mod 3 = 0"
      "getMonth r \<le> getMonth v" "getMonth v < getMonth r + 3" "r mod msPerDay = v mod msPerDay"
      using quarter_start_valid [of v] by (elim exE conjE) (rule that; assumption)
    moreover from this have "getMonth r = getMonth v div 3 * 3" by presburger
    ultimately show ?thesis using 5 g by (simp add: min_boundary_def fields_day d)
  qed
qed

lemma small_chart_dates:
  "small_chart \<noteq> []" "\<forall>t \<in> set small_chart. \<exists>s. vStart t = Some s" "\<forall>t \<in> set small_chart. \<exists>e. vEnd t = Some e"
  "first_day small_chart = 0" "last_day small_chart = 3"
  by (simp_all add: small_chart_def Let_def first_day_def last_day_def day_of_def)

theorem min_date_boundary_witness:
  "\<exists>r. getMinDate 5 small_chart ''day'' = Inr (Some r) \<and> getDay r = 0 \<and> - 7 \<le> day_of r \<and> day_of r < 0"
  using min_date_boundary [OF small_chart_dates(1,2), of "''day''" 5] by (auto simp: small_chart_dates(4) Let_def)

lemma weekend_forward_weekend: "t \<le> weekend_forward t" "getDay (weekend_forward t) mod 6 = 0"
proof -
  have "0 \<le> (6 - getDay t) * msPerDay" using getDay_range [of t] by (intro mult_nonneg_nonneg) simp_all
  then show "t \<le> weekend_forward t" unfolding weekend_forward_eq by (simp only: split: if_split) simp
  show "getDay (weekend_forward t) mod 6 = 0"
  proof (cases "getDay t = 0")
    case False
    have "getDay (t + (6 - getDay t) * msPerDay) = 6" unfolding getDay_shift by simp
    with False show ?thesis by (simp only: weekend_forward_eq if_False) simp
  qed (simp add: weekend_forward_eq)
qed

lemma minute_forward: "v \<le> setMinutes 59 (setHours (getHours v + 1) v)" "setHours (getHours v + 2) v = v + 2 * 3600000"
  "setHours (getHours v + 1) v = v + 3600000"
proof -
  have h: "setHours (getHours v + k) v = v + k * 3600000" for k
    using div_mult_mod_eq [of v msPerDay] div_mult_mod_eq [of "v mod msPerDay" 3600000] mod_mod_cancel [of 3600000 msPerDay v]
    by (simp add: setHours_def getHours_def MakeDate_def algebra_simps)
  show "setHours (getHours v + 2) v = v + 2 * 3600000" "setHours (getHours v + 1) v = v + 3600000"
    using h [of 2] h [of 1] by simp_all
  have "t \<le> setMinutes 59 t + 3600000" for t
    using div_mult_mod_eq [of t 3600000] pos_mod_bound [of 3600000 t] pos_mod_sign [of 3600000 t]
    unfolding setMinutes_def by linarith
  with h [of 1] show "v \<le> setMinutes 59 (setHours (getHours v + 1) v)" by (metis add_le_cancel_right mult_1)
qed

lemma max_boundary_valid:
  assumes "fmt = ''minute'' \<or> fmt = ''hour'' \<or> fmt = ''day'' \<or> fmt = ''week'' \<or> fmt = ''quarter''"
  shows "\<exists>r. max_boundary fmt w = Some r \<and> w \<le> r \<and> (fmt = ''day'' \<or> fmt = ''week'' \<longrightarrow> getDay r mod 6 = 0)
    \<and> (fmt = ''quarter'' \<longrightarrow> getDate r = days_in_month (getFullYear r) (getMonth r) \<and> getMonth r mod 3 = 2)"
  using assms
proof (elim disjE)
  assume "fmt = ''quarter''"
  moreover obtain r where r: "quarter_end w = Some r" "getFullYear r = getFullYear w"
    "getDate r = days_in_month (getFullYear w) (getMonth r)" "getMonth r mod 3 = 2" "getMonth w \<le> getMonth r"
    "r mod msPerDay = w mod msPerDay" using quarter_end_valid [of w] by blast
  moreover have "w \<le> r"
    using quarter_end_after [OF r(2,5,3)] div_mult_mod_eq [of w msPerDay] div_mult_mod_eq [of r msPerDay] r(6)
    unfolding day_of_def by linarith
  ultimately show ?thesis by (simp add: max_boundary_def)
next
  assume "fmt = ''week''"
  moreover have "setDate (getDate w + 11) w = w + 11 * msPerDay" by (rule setDate_shift)
  ultimately show ?thesis using weekend_forward_weekend [of "w + 11 * msPerDay"] by (simp add: max_boundary_def)
qed (use weekend_forward_weekend [of "w + msPerDay"] minute_forward [of w] in \<open>simp_all add: max_boundary_def Let_def\<close>)

lemma minute_end: "getMinutes (setMinutes 59 t) = 59"
proof -
  have "0 \<le> t mod 60000" "t mod 60000 < 60000" by simp_all
  then have "(59 * 60000 + t mod 60000) div 60000 = 59" by simp
  moreover have "(t div 3600000 * 3600000 + (59 * 60000 + t mod 60000)) mod 3600000 = 59 * 60000 + t mod 60000"
    using \<open>t mod 60000 < 60000\<close> \<open>0 \<le> t mod 60000\<close> by simp
  ultimately show ?thesis unfolding getMinutes_def setMinutes_def by (simp add: add.assoc)
qed

text \<open>C16: outside the month format the last moment of a chart is not before the end of any task, to the
  second.  In the day and week formats it lies on a Saturday or a Sunday, in the quarter format on the last day
  of a quarter and in the minute format in the last minute of an hour; in the hour format, which looks for no
  boundary, it comes two hours or more after the end of every task.\<close>

theorem max_date_covers:
  assumes "ts \<noteq> []" "\<forall>t \<in> set ts. \<exists>e. vEnd t = Some e"
    "fmt \<in> {''minute'', ''hour'', ''day'', ''week'', ''quarter''}"
  shows "\<exists>r. getMaxDate now ts fmt = Inr (Some r)
    \<and> (\<forall>t \<in> set ts. parse_of_date (the (vEnd t)) \<le> parse_of_date r)
    \<and> (fmt = ''day'' \<or> fmt = ''week'' \<longrightarrow> getDay r mod 6 = 0)
    \<and> (fmt = ''quarter'' \<longrightarrow> getDate r = days_in_month (getFullYear r) (getMonth r) \<and> getMonth r mod 3 = 2)
    \<and> (fmt = ''minute'' \<longrightarrow> getMinutes r = 59)
    \<and> (fmt = ''hour'' \<longrightarrow> (\<forall>t \<in> set ts. parse_of_date (the (vEnd t)) + 7200000 \<le> parse_of_date r))"
proof -
  obtain w where w: "getMaxDate now ts fmt = Inr (max_boundary fmt w)"
    "\<forall>t \<in> set ts. parse_of_date (the (vEnd t)) \<le> parse_of_date w"
    using getMaxDate_valid [OF assms(1,2)] by blast
  have "\<exists>r. max_boundary fmt w = Some r \<and> w \<le> r \<and> (fmt = ''day'' \<or> fmt = ''week'' \<longrightarrow> getDay r mod 6 = 0)
    \<and> (fmt = ''quarter'' \<longrightarrow> getDate r = days_in_month (getFullYear r) (getMonth r) \<and> getMonth r mod 3 = 2)"
    by (rule max_boundary_valid) (use assms(3) in simp)
  then obtain r where r: "max_boundary fmt w = Some r" "w \<le> r" "fmt = ''day'' \<or> fmt = ''week'' \<longrightarrow> getDay r mod 6 = 0"
    "fmt = ''quarter'' \<longrightarrow> getDate r = days_in_month (getFullYear r) (getMonth r) \<and> getMonth r mod 3 = 2" by (elim exE conjE) (rule that; assumption)
  have "\<forall>t \<in> set ts. parse_of_date (the (vEnd t)) \<le> parse_of_date r"
    using w(2) parse_mono [OF r(2)] order_trans by blast
  moreover have "fmt = ''minute'' \<longrightarrow> getMinutes r = 59"
    using r(1) minute_end by (auto simp: max_boundary_def Let_def)
  moreover have "parse_of_date (the (vEnd t)) + 7200000 \<le> parse_of_date r" if "fmt = ''hour''" "t \<in> set ts" for t
  proof -
    have "r = w + 7200000" using r(1) that(1) minute_forward(2) [of w] by (simp add: max_boundary_def)
    moreover have "(w + 7200000) div 1000 = w div 1000 + 7200" using div_mult_self1 [of 1000 w 7200] by simp
    ultimately have "parse_of_date r = parse_of_date w + 7200000" unfolding parse_of_date_def by simp
    then show ?thesis using w(2) that(2) by simp
  qed
  moreover have "getMaxDate now ts fmt = Inr (Some r)" using w(1) r(1) by simp
  ultimately show ?thesis by (intro exI [of _ r] conjI r(3,4)) blast+
qed

theorem max_date_covers_witness:
  "\<exists>r. getMaxDate 5 small_chart ''week'' = Inr (Some r)
     \<and> (\<forall>t \<in> set small_chart. parse_of_date (the (vEnd t)) \<le> parse_of_date r) \<and> getDay r mod 6 = 0"
  using max_date_covers [OF small_chart_dates(1,3), of "''week''" 5] by simp

lemma day_chart_span:
  assumes "ts \<noteq> []" "\<forall>t \<in> set ts. \<exists>s. vStart t = Some s" "\<forall>t \<in> set ts. \<exists>e. vEnd t = Some e"
  shows "\<exists>mn. getMinDate now ts ''day'' = Inr (Some mn) \<and> day_of mn < first_day ts \<and> mn mod msPerDay = now mod msPerDay"
    "\<exists>mx. getMaxDate now ts ''day'' = Inr (Some mx) \<and> last_day ts \<le> day_of mx"
proof -
  define v where "v = MakeDate (first_day ts) (now mod msPerDay)"
  have v: "day_of v = first_day ts" "v mod msPerDay = now mod msPerDay" by (simp_all add: v_def)
  have g: "getMinDate now ts ''day'' = Inr (Some (sunday_back (v - msPerDay)))"
    using getMinDate_valid [OF assms(1,2)] by (simp add: min_boundary_def v_def)
  have "day_of (sunday_back (v - msPerDay)) < first_day ts"
    using sunday_back_fields(3) [of "v - msPerDay"] day_of_shift(2) [of v 1] v(1) getDay_range [of "v - msPerDay"] by simp
  moreover have "sunday_back (v - msPerDay) mod msPerDay = now mod msPerDay"
    unfolding sunday_back_fields v(2) [symmetric] using same_time [of v 1] by (simp only: mult_1)
  ultimately show "\<exists>mn. getMinDate now ts ''day'' = Inr (Some mn) \<and> day_of mn < first_day ts \<and> mn mod msPerDay = now mod msPerDay"
    using g by blast
  obtain w where w: "getMaxDate now ts ''day'' = Inr (max_boundary ''day'' w)" "day_of w = last_day ts"
    using getMaxDate_valid [OF assms(1,3), of now "''day''"] by (elim exE conjE) (rule that)
  have "w \<le> weekend_forward (w + msPerDay)" using weekend_forward_weekend(1) [of "w + msPerDay"] by simp
  then have "last_day ts \<le> day_of (weekend_forward (w + msPerDay))" using day_of_mono w(2) by metis
  then show "\<exists>mx. getMaxDate now ts ''day'' = Inr (Some mx) \<and> last_day ts \<le> day_of mx"
    using w(1) by (simp add: max_boundary_def)
qed

text \<open>In the month format the code looks at the day of the week where it means the day of the month:
  when the last day on which a task ends is a Sunday or a Monday the chart ends the day before, and
  otherwise it ends on the Saturday of that week, whatever the month.\<close>

lemma month_chart_ends_early:
  assumes "ts \<noteq> []" "\<forall>t \<in> set ts. \<exists>e. vEnd t = Some e"
  shows "\<exists>r. getMaxDate now ts ''month'' = Inr (Some r)
    \<and> (if (last_day ts + 4) mod 7 \<le> 1 then day_of r = last_day ts - 1
       else getDay r = 6 \<and> last_day ts \<le> day_of r \<and> day_of r < last_day ts + 5)"
proof -
  obtain w where w: "getMaxDate now ts ''month'' = Inr (max_boundary ''month'' w)" "day_of w = last_day ts"
    using getMaxDate_valid [OF assms, of now "''month''"] by (elim exE conjE) (rule that)
  have g: "getDay w = (last_day ts + 4) mod 7" by (simp add: getDay_def flip: w(2) day_of_def)
  have m: "max_boundary ''month'' w = Some (monday_forward w - msPerDay)" by (simp add: max_boundary_def Let_def)
  show ?thesis
  proof (cases "getDay w \<le> 1")
    case True
    then show ?thesis using day_of_shift(2) [of w 1] g w by (simp add: m monday_forward_eq)
  next
    case False
    then have e: "monday_forward w - msPerDay = w + (6 - getDay w) * msPerDay"
      by (simp add: monday_forward_eq algebra_simps)
    have "getDay (w + (6 - getDay w) * msPerDay) = 6" unfolding getDay_shift by simp
    moreover have "day_of (w + (6 - getDay w) * msPerDay) = last_day ts + (6 - getDay w)" by (simp only: day_of_shift w(2))
    ultimately show ?thesis using False getDay_range [of w] unfolding w(1) m e g by simp
  qed
qed

lemma month_chart_ends_early_witness:
  "\<exists>r. getMaxDate 5 small_chart ''month'' = Inr (Some r) \<and> day_of r = 2"
  using month_chart_ends_early [OF small_chart_dates(1,3), of 5] by (simp add: small_chart_dates(5))

end
