(* ===== verification/Gantt_View.thy ===== *)
theory Gantt_View
  imports Gantt_Rows
begin

text \<open>
  Opening and closing the groups of a drawn chart: \<open>JSGantt.folder\<close>, \<open>hide\<close> and \<open>show\<close>, which walk down
  the task list recursively, the highlighting of \<open>mouseOver\<close> and \<open>mouseOut\<close>, and \<open>taskLink\<close>.  The first
  argument of \<open>hide\<close> and \<open>show\<close> is the depth of the call stack that is left.  The locale \<open>child_walk\<close>
  holds what the two walks have in common.
\<close>

section \<open>The drawn chart\<close>

text \<open>The text in front of the name of a group.  \<open>Draw\<close> writes an en dash for an open group; \<open>folder\<close>
  writes, and \<open>show\<close> looks for, the character U+FFFD that the dash has become in the source file.\<close>

datatype marker = Plus | Ndash | Replacement

text \<open>The \<open>display\<close> styles of the left and the right row of a task, and the markers, by the identifier of
  the task; \<^const>\<open>None\<close> where the page has no such element.  \<open>findObj\<close> finds them by their id.\<close>

record chart_view =
  tasks :: "task list"
  row_display :: "int \<Rightarrow> string option"
  grid_display :: "int \<Rightarrow> string option"
  group_marker :: "int \<Rightarrow> marker option"

text \<open>\<open>findObj\<close> gives \<open>null\<close> for a missing element, and its \<open>style\<close> cannot be read.\<close>

definition set_display :: "int \<Rightarrow> string \<Rightarrow> chart_view \<Rightarrow> chart_view result" where
  "set_display k d v =
     (case (row_display v k, grid_display v k) of
        (Some _, Some _) \<Rightarrow>
          Inr (v\<lparr>row_display := (row_display v)(k \<mapsto> d), grid_display := (grid_display v)(k \<mapsto> d)\<rparr>)
      | _ \<Rightarrow> Inl TypeError)"

definition set_marker :: "int \<Rightarrow> marker \<Rightarrow> chart_view \<Rightarrow> chart_view result" where
  "set_marker k m v =
     (case group_marker v k of
        None \<Rightarrow> Inl TypeError
      | Some _ \<Rightarrow> Inr (v\<lparr>group_marker := (group_marker v)(k \<mapsto> m)\<rparr>))"

definition set_visible :: "nat \<Rightarrow> nat \<Rightarrow> chart_view \<Rightarrow> chart_view" where
  "set_visible i b v = v\<lparr>tasks := (tasks v)[i := (tasks v ! i)\<lparr>vVisible := b\<rparr>]\<rparr>"

definition set_open :: "nat \<Rightarrow> int \<Rightarrow> chart_view \<Rightarrow> chart_view" where
  "set_open i b v = v\<lparr>tasks := (tasks v)[i := (tasks v ! i)\<lparr>vOpen := b\<rparr>]\<rparr>"

section \<open>Closing and opening\<close>

definition hide_row :: "(int \<Rightarrow> chart_view \<Rightarrow> chart_view result) \<Rightarrow> int \<Rightarrow> nat \<Rightarrow> chart_view \<Rightarrow> chart_view result" where
  "hide_row rec p i v =
     (let t = tasks v ! i
      in if vParent t = p then
           and_then (set_display (vID t) ''none'' v)
             (\<lambda>v. let v' = set_visible i 0 v in if vGroup t = 1 then rec (vID t) v' else Inr v')
         else Inr v)"

fun hide :: "nat \<Rightarrow> int \<Rightarrow> chart_view \<Rightarrow> chart_view result" where
  "hide 0 p v = Inl RangeError"
| "hide (Suc n) p v = each_result (hide_row (hide n) p) [0..<length (tasks v)] v"

definition show_row ::
    "(int \<Rightarrow> chart_view \<Rightarrow> chart_view result) \<Rightarrow> int \<Rightarrow> nat \<Rightarrow> nat \<Rightarrow> chart_view \<Rightarrow> chart_view result" where
  "show_row rec p pTop i v =
     (let t = tasks v ! i
      in if vParent t = p then
           case group_marker v p of
             None \<Rightarrow> Inl TypeError
           | Some m \<Rightarrow>
               and_then
                 (if m = (if pTop = 1 then Plus else Replacement)
                  then and_then (set_display (vID t) '''' v) (\<lambda>v. Inr (set_visible i 1 v)) else Inr v)
                 (\<lambda>v. if vGroup t = 1 then rec (vID t) v else Inr v)
         else Inr v)"

fun show_tasks :: "nat \<Rightarrow> int \<Rightarrow> nat \<Rightarrow> chart_view \<Rightarrow> chart_view result" where
  "show_tasks 0 p pTop v = Inl RangeError"
| "show_tasks (Suc n) p pTop v =
     each_result (show_row (\<lambda>q. show_tasks n q 0) p pTop) [0..<length (tasks v)] v"

definition folder_row :: "nat \<Rightarrow> int \<Rightarrow> nat \<Rightarrow> chart_view \<Rightarrow> chart_view result" where
  "folder_row n p i v =
     (if vID (tasks v ! i) = p then
        if vOpen (tasks v ! i) = 1
        then and_then (hide n p (set_open i 0 v)) (set_marker p Plus)
        else and_then (show_tasks n p 1 (set_open i 1 v)) (set_marker p Replacement)
      else Inr v)"

definition folder :: "nat \<Rightarrow> int \<Rightarrow> chart_view \<Rightarrow> chart_view result" where
  "folder n p v = each_result (folder_row n p) [0..<length (tasks v)] v"

section \<open>Walks over the children\<close>

locale child_walk =
  fixes mark :: "nat set \<Rightarrow> 'v \<Rightarrow> 'v"
  assumes mark_none [simp]: "mark {} v = v"
    and mark_mark: "mark S (mark T v) = mark (S \<union> T) v"
begin

text \<open>A loop whose rounds mark some rows each, whatever has been marked before, marks them all.\<close>

lemma loop_marks:
  assumes "\<And>i T. i \<in> set xs \<Longrightarrow> T \<subseteq> A \<Longrightarrow> g i \<subseteq> A \<and> f i (mark T v) = Inr (mark (g i) (mark T v))"
  shows "T \<subseteq> A \<Longrightarrow> each_result f xs (mark T v) = Inr (mark ((\<Union>i \<in> set xs. g i) \<union> T) v)"
  using assms
proof (induction xs arbitrary: T)
  case (Cons i xs)
  then have "g i \<subseteq> A" "f i (mark T v) = Inr (mark (g i \<union> T) v)" by (simp_all add: mark_mark)
  with Cons show ?case by (simp add: Un_ac)
qed simp

lemma loop_marks_all:
  assumes "\<And>i T. i \<in> set xs \<Longrightarrow> T \<subseteq> A \<Longrightarrow> g i \<subseteq> A \<and> f i (mark T v) = Inr (mark (g i) (mark T v))"
  shows "each_result f xs v = Inr (mark (\<Union>i \<in> set xs. g i) v)"
  using loop_marks [where A = A and g = g and f = f and T = "{}" and v = v and xs = xs] assms by simp

end

text \<open>Rows whose display and visibility are set.\<close>

definition mark_rows :: "string \<Rightarrow> nat \<Rightarrow> nat set \<Rightarrow> chart_view \<Rightarrow> chart_view" where
  "mark_rows d b S v =
     (let ids = (\<lambda>i. vID (tasks v ! i)) ` (S \<inter> {..<length (tasks v)})
      in v\<lparr>tasks := map (\<lambda>i. if i \<in> S then (tasks v ! i)\<lparr>vVisible := b\<rparr> else tasks v ! i) [0..<length (tasks v)],
           row_display := (\<lambda>k. if k \<in> ids then Some d else row_display v k),
           grid_display := (\<lambda>k. if k \<in> ids then Some d else grid_display v k)\<rparr>)"

definition row_ids :: "chart_view \<Rightarrow> nat set \<Rightarrow> int set" where
  "row_ids v S = (\<lambda>i. vID (tasks v ! i)) ` (S \<inter> {..<length (tasks v)})"

lemma mark_rows_fields [simp]:
  "length (tasks (mark_rows d b S v)) = length (tasks v)"
  "group_marker (mark_rows d b S v) = group_marker v"
  "i < length (tasks v) \<Longrightarrow>
     tasks (mark_rows d b S v) ! i = (if i \<in> S then (tasks v ! i)\<lparr>vVisible := b\<rparr> else tasks v ! i)"
  "row_display (mark_rows d b S v) k = (if k \<in> row_ids v S then Some d else row_display v k)"
  "grid_display (mark_rows d b S v) k = (if k \<in> row_ids v S then Some d else grid_display v k)"
  "chart_view.more (mark_rows d b S v) = chart_view.more v"
  by (simp_all add: mark_rows_def Let_def row_ids_def)

lemma row_ids_simps [simp]:
  "row_ids v {} = {}" "row_ids (mark_rows d b T v) S = row_ids v S" "row_ids v (S \<union> T) = row_ids v S \<union> row_ids v T"
  by (auto simp: row_ids_def image_iff)

lemma mark_rows_twice: "mark_rows d b S (mark_rows d b T v) = mark_rows d b (S \<union> T) v"
  by (intro chart_view.equality nth_equalityI ext) auto

lemma mark_rows_empty: "mark_rows d b {} v = v"
  by (intro chart_view.equality nth_equalityI ext) auto

interpretation marks: child_walk "mark_rows d b" for d b
  by unfold_locales (simp_all add: mark_rows_twice mark_rows_empty)

text \<open>The page has the elements that \<open>Draw\<close> writes.\<close>

definition drawn :: "chart_view \<Rightarrow> bool" where
  "drawn v \<longleftrightarrow>
     (\<forall>t \<in> set (tasks v). row_display v (vID t) \<noteq> None \<and> grid_display v (vID t) \<noteq> None
        \<and> (vGroup t = 1 \<longrightarrow> group_marker v (vID t) \<noteq> None))"

lemma shape_mark_rows [simp]: "shape_of (tasks (mark_rows d b S v)) = shape_of (tasks v)"
  by (rule nth_equalityI) (auto simp: shape_of_def)

lemma drawn_mark_rows [simp]: "drawn v \<Longrightarrow> drawn (mark_rows d b S v)"
  unfolding drawn_def all_set_conv_all_nth by auto

lemma visit_row:
  assumes "drawn v" "i < length (tasks v)"
  shows "\<exists>w. set_display (vID (tasks v ! i)) d v = Inr w \<and> set_visible i b w = mark_rows d b {i} v"
proof -
  have "row_display v (vID (tasks v ! i)) \<noteq> None" "grid_display v (vID (tasks v ! i)) \<noteq> None"
    using assms by (simp_all add: drawn_def)
  then obtain x y where "row_display v (vID (tasks v ! i)) = Some x" "grid_display v (vID (tasks v ! i)) = Some y" by auto
  moreover have "set_visible i b (v\<lparr>row_display := (row_display v)(vID (tasks v ! i) \<mapsto> d),
      grid_display := (grid_display v)(vID (tasks v ! i) \<mapsto> d)\<rparr>) = mark_rows d b {i} v"
    using assms(2) by (intro chart_view.equality nth_equalityI ext)
      (auto simp: set_visible_def row_ids_def nth_list_update)
  ultimately show ?thesis by (simp add: set_display_def)
qed

text \<open>The rows one round of the loop reaches.\<close>

definition round_rows :: "shape \<Rightarrow> int \<Rightarrow> nat \<Rightarrow> nat set" where
  "round_rows s p i = (if par s i = p then branch s i else {})"

lemma rounds_rows: "(\<Union>i \<in> {0..<length s}. round_rows s p i) = {i. under s p i}"
proof -
  have "under s p i" if "k < length s" "i \<in> round_rows s p k" for i k
    using that branch_under [of k s p i] by (auto simp: round_rows_def split: if_splits)
  moreover have "\<exists>k < length s. i \<in> round_rows s p k" if "under s p i" for i
    using under_kid [OF that] by (auto simp: round_rows_def branch_def)
  ultimately show ?thesis unfolding set_eq_iff UN_iff mem_Collect_eq by (metis atLeastLessThan_iff zero_le)
qed

lemma row_fields:
  assumes "shape_of (tasks v) = s" "i < length s"
  shows "vID (tasks v ! i) = sid s i" "vParent (tasks v ! i) = par s i" "vGroup (tasks v ! i) = grp s i"
  using assms by auto

text \<open>\<open>hide\<close> hides all rows below an identifier.\<close>

lemma hide_rows:
  "forest r s \<Longrightarrow> reached s p \<Longrightarrow> r p < n \<Longrightarrow> drawn v \<Longrightarrow> shape_of (tasks v) = s \<Longrightarrow>
   hide n p v = Inr (mark_rows ''none'' 0 {i. under s p i} v)"
proof (induction n arbitrary: p v)
  case (Suc n)
  have len: "length (tasks v) = length s" using Suc.prems(5) by auto
  have "each_result (hide_row (hide n) p) [0..<length s] v
      = Inr (mark_rows ''none'' 0 (\<Union>i \<in> set [0..<length s]. round_rows s p i) v)"
  proof (rule marks.loop_marks_all [where A = UNIV])
    fix i T assume "i \<in> set [0..<length s]"
    then have i: "i < length s" by simp
    let ?v = "mark_rows ''none'' 0 T v"
    have v: "drawn ?v" "shape_of (tasks ?v) = s" using Suc.prems by simp_all
    note f = row_fields [OF v(2) i]
    have "hide_row (hide n) p i ?v = Inr (mark_rows ''none'' 0 (round_rows s p i) ?v)"
    proof (cases "par s i = p")
      case True
      obtain w where w: "set_display (sid s i) ''none'' ?v = Inr w" "set_visible i 0 w = mark_rows ''none'' 0 {i} ?v"
        using visit_row [OF v(1), of i "''none''" 0] f i len by auto
      have "hide n (sid s i) (mark_rows ''none'' 0 {i} ?v)
          = Inr (mark_rows ''none'' 0 {k. under s (sid s i) k} (mark_rows ''none'' 0 {i} ?v))" if g: "grp s i = 1"
      proof (rule Suc.IH [OF Suc.prems(1)])
        have "under s 0 i" using reached_kid [OF Suc.prems(2) i True] .
        then show "reached s (sid s i)" "r (sid s i) < n"
          using g Suc.prems(1,3) True by (auto simp: reached_def forest_def)
      qed (use v in simp_all)
      then show ?thesis using True w
        by (simp add: hide_row_def f Let_def round_rows_def branch_def marks.mark_mark insert_is_Un [symmetric] Un_ac)
    next
      case False
      then show ?thesis by (simp add: hide_row_def f Let_def round_rows_def)
    qed
    then show "round_rows s p i \<subseteq> UNIV
        \<and> hide_row (hide n) p i ?v = Inr (mark_rows ''none'' 0 (round_rows s p i) ?v)" by simp
  qed
  then show ?case using rounds_rows [of s p] by (simp add: len)
qed simp

text \<open>\<open>show\<close> shows the rows below an identifier whose parent has the right marker.\<close>

definition shown_rows :: "shape \<Rightarrow> (int \<Rightarrow> marker option) \<Rightarrow> int \<Rightarrow> nat \<Rightarrow> nat set" where
  "shown_rows s m p pTop =
     {i. under s p i \<and> m (par s i) = Some (if pTop = 1 \<and> par s i = p then Plus else Replacement)}"

definition shown_round :: "shape \<Rightarrow> (int \<Rightarrow> marker option) \<Rightarrow> int \<Rightarrow> nat \<Rightarrow> nat \<Rightarrow> nat set" where
  "shown_round s m p pTop i =
     (if par s i = p then
        (if m p = Some (if pTop = 1 then Plus else Replacement) then {i} else {})
        \<union> (if grp s i = 1 then shown_rows s m (sid s i) 0 else {})
      else {})"

lemma shown_rounds:
  assumes "forest r s" "reached s p"
  shows "(\<Union>i \<in> set [0..<length s]. shown_round s m p pTop i) = shown_rows s m p pTop" (is "?L = ?R")
proof (rule set_eqI)
  fix i
  have above: "par s i \<noteq> p" if "k < length s" "par s k = p" "grp s k = 1" "under s (sid s k) i" for k
  proof -
    have "under s 0 k" "reached s (sid s k)" using that assms(2) reached_kid reached_group by blast+
    then have "r (sid s k) < r p" "r (par s i) \<le> r (sid s k)"
      using assms(1) that rank_under [OF that(4) assms(1)] by (auto simp: forest_def)
    then show ?thesis by auto
  qed
  show "i \<in> ?L \<longleftrightarrow> i \<in> ?R"
  proof
    assume "i \<in> ?L"
    then obtain k where k: "k < length s" "i \<in> shown_round s m p pTop k" by auto
    show "i \<in> ?R"
    proof (cases "i = k \<and> m p = Some (if pTop = 1 then Plus else Replacement)")
      case True
      with k show ?thesis by (auto simp: shown_round_def shown_rows_def intro: under.child split: if_splits)
    next
      case False
      with k have "par s k = p" "grp s k = 1" "under s (sid s k) i" "m (par s i) = Some Replacement"
        by (auto simp: shown_round_def shown_rows_def split: if_splits)
      with above [OF k(1)] under_below [OF k(1)] show ?thesis by (simp add: shown_rows_def)
    qed
  next
    assume R: "i \<in> ?R"
    then obtain k where k: "k < length s" "par s k = p" "i = k \<or> grp s k = 1 \<and> under s (sid s k) i"
      using under_kid [of s p i] unfolding shown_rows_def by blast
    then have "i \<in> shown_round s m p pTop k"
      using R above [of k] by (auto simp: shown_round_def shown_rows_def)
    with k(1) show "i \<in> ?L" by auto
  qed
qed

lemma show_rows:
  "forest r s \<Longrightarrow> reached s p \<Longrightarrow> r p < n \<Longrightarrow> drawn v \<Longrightarrow> shape_of (tasks v) = s \<Longrightarrow> group_marker v p \<noteq> None \<Longrightarrow>
   show_tasks n p pTop v = Inr (mark_rows '''' 1 (shown_rows s (group_marker v) p pTop) v)"
proof (induction n arbitrary: p pTop v)
  case (Suc n)
  have len: "length (tasks v) = length s" using Suc.prems(5) by auto
  let ?m = "group_marker v"
  have "each_result (show_row (\<lambda>q. show_tasks n q 0) p pTop) [0..<length s] v
      = Inr (mark_rows '''' 1 (\<Union>i \<in> set [0..<length s]. shown_round s ?m p pTop i) v)"
  proof (rule marks.loop_marks_all [where A = UNIV])
    fix i T assume "i \<in> set [0..<length s]"
    then have i: "i < length s" by simp
    let ?v = "mark_rows '''' 1 T v"
    have v: "drawn ?v" "shape_of (tasks ?v) = s" using Suc.prems by simp_all
    note f = row_fields [OF v(2) i]
    obtain w where w: "set_display (sid s i) '''' ?v = Inr w" "set_visible i 1 w = mark_rows '''' 1 {i} ?v"
      using visit_row [OF v(1), of i "''''" 1] f i len by auto
    obtain q where q: "?m p = Some q" using Suc.prems(6) by auto
    have step: "show_tasks n (sid s i) 0 (mark_rows '''' 1 S ?v)
        = Inr (mark_rows '''' 1 (shown_rows s ?m (sid s i) 0) (mark_rows '''' 1 S ?v))"
      if g: "grp s i = 1" and p: "par s i = p" for S
    proof -
      have "under s 0 i" using reached_kid [OF Suc.prems(2) i p] .
      then have "reached s (sid s i)" "r (sid s i) < n"
        using g Suc.prems(1,3) p by (auto simp: reached_def forest_def)
      moreover have "group_marker v (sid s i) \<noteq> None"
        using v(1) f i len g by (metis drawn_def mark_rows_fields(1,2) nth_mem)
      ultimately show ?thesis using Suc.IH [OF Suc.prems(1), of "sid s i" "mark_rows '''' 1 S ?v" 0] v by simp
    qed
    have "show_row (\<lambda>q. show_tasks n q 0) p pTop i ?v = Inr (mark_rows [] 1 (shown_round s ?m p pTop i) ?v)"
    proof (cases "par s i = p")
      case True
      have e: "mark_rows [] 1 {} ?v = ?v" by (simp add: mark_rows_empty)
      show ?thesis using step [OF _ True, of "{i}"] step [OF _ True, of "{}"] w q
        unfolding show_row_def Let_def f e shown_round_def
        by (auto simp: True marks.mark_mark Un_ac)
    next
      case False
      then show ?thesis unfolding show_row_def Let_def f shown_round_def by simp
    qed
    then show "shown_round s ?m p pTop i \<subseteq> UNIV
        \<and> show_row (\<lambda>q. show_tasks n q 0) p pTop i ?v = Inr (mark_rows '''' 1 (shown_round s ?m p pTop i) ?v)" by simp
  qed
  then show ?case using shown_rounds [OF Suc.prems(1,2)] by (simp add: len)
qed simp

section \<open>What a click on a marker does\<close>

lemma under_same_shape:
  assumes "length s' = length s"
    "\<And>i. i < length s \<Longrightarrow> sid s' i = sid s i \<and> par s' i = par s i \<and> grp s' i = grp s i"
  shows "under s p i \<Longrightarrow> under s' p i"
proof (induction rule: under.induct)
  case (child i)
  then show ?case using assms by (intro under.child) auto
next
  case (deeper j i)
  have j: "j < length s" using deeper.hyps(1) by (rule under_length)
  have "grp s' j = 1" "i < length s'" "par s' i = sid s' j"
    using assms(2) [OF j] assms(2) [OF deeper.hyps(3)] assms(1) deeper.hyps by auto
  then show ?case by (rule under.deeper [OF deeper.IH])
qed

lemma set_open_fields [simp]:
  "length (tasks (set_open j b v)) = length (tasks v)" "row_display (set_open j b v) = row_display v"
  "grid_display (set_open j b v) = grid_display v" "group_marker (set_open j b v) = group_marker v"
  "i < length (tasks v) \<Longrightarrow> tasks (set_open j b v) ! i = (if i = j then (tasks v ! i)\<lparr>vOpen := b\<rparr> else tasks v ! i)"
  by (auto simp: set_open_def nth_list_update)

lemma under_set_open [simp]: "under (shape_of (tasks (set_open j b v))) = under (shape_of (tasks v))"
proof (intro ext iffI)
  fix p i
  let ?s = "shape_of (tasks v)" and ?t = "shape_of (tasks (set_open j b v))"
  show "under ?t p i" if "under ?s p i" by (rule under_same_shape [OF _ _ that]) auto
  show "under ?s p i" if "under ?t p i" by (rule under_same_shape [OF _ _ that]) auto
qed

lemma kept_set_open [simp]:
  "unique_ids (tasks v) \<Longrightarrow> unique_ids (tasks (set_open j b v))" "drawn v \<Longrightarrow> drawn (set_open j b v)"
proof -
  have ids: "map vID (tasks (set_open j b v)) = map vID (tasks v)" by (rule nth_equalityI) auto
  show "unique_ids (tasks (set_open j b v))" if "unique_ids (tasks v)"
    using that unfolding unique_ids_def ids set_map [symmetric] by simp
  show "drawn (set_open j b v)" if "drawn v" using that unfolding drawn_def all_set_conv_all_nth by auto
qed

lemma unique_row:
  "unique_ids (tasks v) \<Longrightarrow> i < length (tasks v) \<Longrightarrow> k < length (tasks v) \<Longrightarrow>
   vID (tasks v ! i) = vID (tasks v ! k) \<longleftrightarrow> i = k"
  by (auto simp: unique_ids_def distinct_conv_nth)

lemma in_row_ids:
  "unique_ids (tasks v) \<Longrightarrow> i < length (tasks v) \<Longrightarrow> vID (tasks v ! i) \<in> row_ids v S \<longleftrightarrow> i \<in> S"
  by (auto simp: row_ids_def unique_row)

lemma each_result_single:
  assumes "j < n" "\<And>i. i < n \<Longrightarrow> i \<noteq> j \<Longrightarrow> f i v = Inr v" "f j v = Inr w" "\<And>i. i < n \<Longrightarrow> i \<noteq> j \<Longrightarrow> f i w = Inr w"
  shows "each_result f [0..<n] v = Inr w"
proof -
  have skip: "each_result f xs u = Inr u" if "\<And>i. i \<in> set xs \<Longrightarrow> f i u = Inr u" for xs u
    using that by (induction xs) auto
  have "[0..<n] = [0..<j] @ j # [Suc j..<n]"
    using assms(1) by (metis le_add1 less_imp_le_nat plus_nat.add_0 upt_add_eq_append upt_conv_Cons le_add_diff_inverse)
  moreover have "each_result f [0..<j] v = Inr v" using assms(1,2) by (intro skip) auto
  moreover have "each_result f [Suc j..<n] w = Inr w" using assms(4) by (intro skip) auto
  ultimately show ?thesis using assms(3) by (simp add: each_result_append)
qed

definition closed_view :: "nat \<Rightarrow> chart_view \<Rightarrow> chart_view" where
  "closed_view j v =
     (let p = vID (tasks v ! j); w = mark_rows ''none'' 0 {i. under (shape_of (tasks v)) p i} (set_open j 0 v)
      in w\<lparr>group_marker := (group_marker v)(p \<mapsto> Plus)\<rparr>)"

definition opened_view :: "nat \<Rightarrow> chart_view \<Rightarrow> chart_view" where
  "opened_view j v =
     (let p = vID (tasks v ! j);
          w = mark_rows [] 1 (shown_rows (shape_of (tasks (set_open j 1 v))) (group_marker v) p 1) (set_open j 1 v)
      in w\<lparr>group_marker := (group_marker v)(p \<mapsto> Replacement)\<rparr>)"

lemma folder_works:
  assumes "unique_ids (tasks v)" "drawn v" "under (shape_of (tasks v)) 0 j" "vGroup (tasks v ! j) = 1"
  shows "folder (length (tasks v) + 1) (vID (tasks v ! j)) v =
    Inr (if vOpen (tasks v ! j) = 1 then closed_view j v else opened_view j v)" (is "_ = Inr ?w")
proof -
  let ?p = "vID (tasks v ! j)" and ?n = "length (tasks v) + 1"
  have j: "j < length (tasks v)" using under_length [OF assms(3)] by simp
  let ?s = "\<lambda>b. shape_of (tasks (set_open j b v))"
  have forest: "forest (rows_under (?s b)) (?s b)" for b
    using unique_ids_forest [of "tasks (set_open j b v)"] assms(1) by simp
  have reached: "reached (?s b) ?p" for b using assms(3,4) j by (auto simp: reached_def intro!: exI [of _ j])
  have rank: "rows_under (?s b) ?p < ?n" for b
    using rows_under_bound [of "tasks (set_open j b v)" ?p] by simp
  have drawn: "drawn (set_open j b v)" for b using assms(2) by simp
  have marker: "group_marker v ?p \<noteq> None" using assms(2,4) j by (simp add: drawn_def)
  have "folder_row ?n ?p j v = Inr ?w"
    using hide_rows [OF forest reached rank drawn refl, of 0] show_rows [OF forest reached rank drawn refl, of 1 1] marker
    by (auto simp: folder_row_def closed_view_def opened_view_def Let_def set_marker_def)
  moreover have "folder_row ?n ?p i v = Inr v" "folder_row ?n ?p i ?w = Inr ?w"
    if "i < length (tasks v)" "i \<noteq> j" for i
    using that j unique_row [OF assms(1), of i j]
    by (auto simp: folder_row_def closed_view_def opened_view_def Let_def)
  ultimately show ?thesis unfolding folder_def by (intro each_result_single [OF j])
qed

lemma closed_view_row:
  assumes "unique_ids (tasks v)" "i < length (tasks v)" "j < length (tasks v)"
  shows "let below = under (shape_of (tasks v)) (vID (tasks v ! j)) i; k = vID (tasks v ! i)
    in vVisible (tasks (closed_view j v) ! i) = (if below then 0 else vVisible (tasks v ! i))
       \<and> row_display (closed_view j v) k = (if below then Some ''none'' else row_display v k)
       \<and> grid_display (closed_view j v) k = (if below then Some ''none'' else grid_display v k)"
proof -
  have "vID (tasks v ! i) \<in> row_ids (set_open j 0 v) S \<longleftrightarrow> i \<in> S" for S
    using in_row_ids [of "set_open j 0 v" i S] assms by (simp split: if_splits)
  with assms show ?thesis by (simp add: closed_view_def Let_def)
qed

lemma opened_view_row:
  assumes "unique_ids (tasks v)" "i < length (tasks v)" "j < length (tasks v)" "under (shape_of (tasks v)) 0 j"
  defines "p \<equiv> vID (tasks v ! j)"
  shows "let shown = under (shape_of (tasks v)) p i \<and> group_marker v (vParent (tasks v ! i))
        = Some (if vParent (tasks v ! i) = p then Plus else Replacement); k = vID (tasks v ! i)
    in vVisible (tasks (opened_view j v) ! i) = (if shown then 1 else vVisible (tasks v ! i))
       \<and> row_display (opened_view j v) k = (if shown then Some [] else row_display v k)
       \<and> grid_display (opened_view j v) k = (if shown then Some [] else grid_display v k)"
proof -
  have "vID (tasks v ! i) \<in> row_ids (set_open j 1 v) S \<longleftrightarrow> i \<in> S" for S
    using in_row_ids [of "set_open j 1 v" i S] assms by (simp split: if_splits)
  moreover have "par (shape_of (tasks (set_open j 1 v))) i = vParent (tasks v ! i)" using assms(2) by simp
  ultimately show ?thesis using assms by (simp add: opened_view_def shown_rows_def Let_def)
qed

text \<open>A group with an open group in it, which holds a task, as \<open>Draw\<close> shows them.\<close>

definition nested_view :: "int \<Rightarrow> marker \<Rightarrow> chart_view" where
  "nested_view b m =
     (let t = small_chart ! 0
      in \<lparr>tasks = [t\<lparr>vOpen := b\<rparr>, t\<lparr>vID := 2, vParent := 1, vOpen := 1\<rparr>, t\<lparr>vID := 3, vParent := 2, vGroup := 0\<rparr>],
          row_display = Map.empty(1 \<mapsto> [], 2 \<mapsto> [], 3 \<mapsto> []), grid_display = Map.empty(1 \<mapsto> [], 2 \<mapsto> [], 3 \<mapsto> []),
          group_marker = Map.empty(1 \<mapsto> m, 2 \<mapsto> Ndash)\<rparr>)"

lemma nested_view_rows:
  "length (tasks (nested_view b m)) = 3"
  "vID (tasks (nested_view b m) ! 0) = 1" "vParent (tasks (nested_view b m) ! 0) = 0"
  "vGroup (tasks (nested_view b m) ! 0) = 1" "vOpen (tasks (nested_view b m) ! 0) = b"
  "vID (tasks (nested_view b m) ! 1) = 2" "vParent (tasks (nested_view b m) ! 1) = 1"
  "vGroup (tasks (nested_view b m) ! 1) = 1" "vOpen (tasks (nested_view b m) ! 1) = 1"
  "vID (tasks (nested_view b m) ! 2) = 3" "vParent (tasks (nested_view b m) ! 2) = 2"
  "group_marker (nested_view b m) 1 = Some m" "group_marker (nested_view b m) 2 = Some Ndash"
  by (simp_all add: nested_view_def Let_def small_chart_def)

lemma nested_view_wf: "unique_ids (tasks (nested_view b m))" "drawn (nested_view b m)"
  by (simp_all add: nested_view_def Let_def small_chart_def unique_ids_def drawn_def)

lemma nested_view_under:
  "under (shape_of (tasks (nested_view b m))) 0 0" "under (shape_of (tasks (nested_view b m))) 1 1"
  "under (shape_of (tasks (nested_view b m))) 1 2"
proof -
  show "under (shape_of (tasks (nested_view b m))) 0 0"
    by (rule under.child) (simp_all add: nested_view_def Let_def shape_of_def par_def small_chart_def)
  show u: "under (shape_of (tasks (nested_view b m))) 1 1"
    by (rule under.child) (simp_all add: nested_view_def Let_def shape_of_def par_def small_chart_def)
  show "under (shape_of (tasks (nested_view b m))) 1 2"
    by (rule under.deeper [OF u])
      (simp_all add: nested_view_def Let_def shape_of_def par_def sid_def grp_def small_chart_def)
qed

text \<open>C4: a click on the marker of an open group hides every row below it on both sides of the chart and
  leaves the other rows alone; the group is closed and its marker is a plus.\<close>

theorem folder_closes:
  assumes "unique_ids (tasks v)" "drawn v" "under (shape_of (tasks v)) 0 j" "vGroup (tasks v ! j) = 1" "vOpen (tasks v ! j) = 1"
  shows "\<exists>w. folder (length (tasks v) + 1) (vID (tasks v ! j)) v = Inr w
    \<and> vOpen (tasks w ! j) = 0 \<and> group_marker w = (group_marker v)(vID (tasks v ! j) \<mapsto> Plus)
    \<and> (\<forall>i < length (tasks v).
          let below = under (shape_of (tasks v)) (vID (tasks v ! j)) i; k = vID (tasks v ! i)
          in vVisible (tasks w ! i) = (if below then 0 else vVisible (tasks v ! i))
             \<and> row_display w k = (if below then Some ''none'' else row_display v k)
             \<and> grid_display w k = (if below then Some ''none'' else grid_display v k))"
proof -
  have j: "j < length (tasks v)" using under_length [OF assms(3)] by simp
  have "folder (length (tasks v) + 1) (vID (tasks v ! j)) v = Inr (closed_view j v)"
    using folder_works [OF assms(1-4)] assms(5) by simp
  moreover have "vOpen (tasks (closed_view j v) ! j) = 0"
    "group_marker (closed_view j v) = (group_marker v)(vID (tasks v ! j) \<mapsto> Plus)"
    using j by (simp_all add: closed_view_def Let_def)
  ultimately show ?thesis using closed_view_row [OF assms(1) _ j] by blast
qed

theorem folder_closes_witness:
  "\<exists>w. folder 4 1 (nested_view 1 Ndash) = Inr w \<and> vOpen (tasks w ! 0) = 0
     \<and> vVisible (tasks w ! 1) = 0 \<and> row_display w 3 = Some ''none''"
proof -
  let ?v = "nested_view 1 Ndash"
  note v = nested_view_rows [of 1 Ndash] nested_view_under [of 1 Ndash]
  obtain w where w: "folder (length (tasks ?v) + 1) (vID (tasks ?v ! 0)) ?v = Inr w" "vOpen (tasks w ! 0) = 0"
    and rows: "\<forall>i < length (tasks ?v).
          let below = under (shape_of (tasks ?v)) (vID (tasks ?v ! 0)) i; k = vID (tasks ?v ! i)
          in vVisible (tasks w ! i) = (if below then 0 else vVisible (tasks ?v ! i))
             \<and> row_display w k = (if below then Some ''none'' else row_display ?v k)
             \<and> grid_display w k = (if below then Some ''none'' else grid_display ?v k)"
    using folder_closes [OF nested_view_wf v(14,4,5)] by (elim exE conjE) (rule that)
  from rows [THEN spec, of 1] rows [THEN spec, of 2] show ?thesis
    using w unfolding v by (simp add: v(14-) v(15) [unfolded One_nat_def] Let_def)
qed

text \<open>C14: a click on the marker of a closed group shows its children when its marker is a plus, and further
  down the children of the groups whose marker is the character that only \<open>folder\<close> itself writes,
  whether their parents are shown or not; all other rows stay as they are.\<close>

theorem folder_opens:
  assumes "unique_ids (tasks v)" "drawn v" "under (shape_of (tasks v)) 0 j" "vGroup (tasks v ! j) = 1" "vOpen (tasks v ! j) \<noteq> 1"
  shows "\<exists>w. folder (length (tasks v) + 1) (vID (tasks v ! j)) v = Inr w
    \<and> vOpen (tasks w ! j) = 1 \<and> group_marker w = (group_marker v)(vID (tasks v ! j) \<mapsto> Replacement)
    \<and> (\<forall>i < length (tasks v).
          let p = vID (tasks v ! j); k = vID (tasks v ! i);
              shown = under (shape_of (tasks v)) p i \<and> group_marker v (vParent (tasks v ! i))
                = Some (if vParent (tasks v ! i) = p then Plus else Replacement)
          in vVisible (tasks w ! i) = (if shown then 1 else vVisible (tasks v ! i))
             \<and> row_display w k = (if shown then Some [] else row_display v k)
             \<and> grid_display w k = (if shown then Some [] else grid_display v k))"
proof -
  have j: "j < length (tasks v)" using under_length [OF assms(3)] by simp
  have "folder (length (tasks v) + 1) (vID (tasks v ! j)) v = Inr (opened_view j v)"
    using folder_works [OF assms(1-4)] assms(5) by simp
  moreover have "vOpen (tasks (opened_view j v) ! j) = 1"
    "group_marker (opened_view j v) = (group_marker v)(vID (tasks v ! j) \<mapsto> Replacement)"
    using j by (simp_all add: opened_view_def Let_def)
  ultimately show ?thesis using opened_view_row [OF assms(1) _ j assms(3)] unfolding Let_def by blast
qed

theorem folder_opens_witness:
  "\<exists>w. folder 4 1 (nested_view 0 Plus) = Inr w \<and> vOpen (tasks w ! 0) = 1
     \<and> vVisible (tasks w ! 1) = 1 \<and> row_display w 2 = Some []"
proof -
  let ?v = "nested_view 0 Plus" and ?p = "1 :: int"
  note v = nested_view_rows [of 0 Plus] nested_view_under [of 0 Plus]
  have n: "vOpen (tasks ?v ! 0) \<noteq> 1" by (simp add: v)
  obtain w where w: "folder (length (tasks ?v) + 1) (vID (tasks ?v ! 0)) ?v = Inr w" "vOpen (tasks w ! 0) = 1"
    and rows: "\<forall>i < length (tasks ?v).
          let p = vID (tasks ?v ! 0); k = vID (tasks ?v ! i);
              shown = under (shape_of (tasks ?v)) p i \<and> group_marker ?v (vParent (tasks ?v ! i))
                = Some (if vParent (tasks ?v ! i) = p then Plus else Replacement)
          in vVisible (tasks w ! i) = (if shown then 1 else vVisible (tasks ?v ! i))
             \<and> row_display w k = (if shown then Some [] else row_display ?v k)
             \<and> grid_display w k = (if shown then Some [] else grid_display ?v k)"
    using folder_opens [OF nested_view_wf v(14,4) n] by (elim exE conjE) (rule that)
  from rows [THEN spec, of 1] show ?thesis
    using w unfolding v by (simp add: v(14-) v(15) [unfolded One_nat_def] Let_def)
qed

text \<open>Closing a group keeps a chart well-formed.\<close>

lemma closed_view_fields:
  assumes "i < length (tasks v)"
  shows "vID (tasks (closed_view j v) ! i) = vID (tasks v ! i)" "vParent (tasks (closed_view j v) ! i) = vParent (tasks v ! i)"
    "vGroup (tasks (closed_view j v) ! i) = vGroup (tasks v ! i)"
    "vOpen (tasks (closed_view j v) ! i) = (if i = j then 0 else vOpen (tasks v ! i))"
  using assms by (simp_all add: closed_view_def Let_def)

lemma length_closed_view [simp]: "length (tasks (closed_view j v)) = length (tasks v)"
  by (simp add: closed_view_def Let_def)

lemma closed_view_kept:
  assumes "unique_ids (tasks v)" "drawn v"
  shows "unique_ids (tasks (closed_view j v))" "drawn (closed_view j v)"
    "under (shape_of (tasks (closed_view j v))) = under (shape_of (tasks v))"
    "group_marker (closed_view j v) = (group_marker v)(vID (tasks v ! j) \<mapsto> Plus)"
proof -
  let ?w = "closed_view j v"
  have "map vID (tasks ?w) = map vID (tasks v)" by (rule nth_equalityI) (simp_all add: closed_view_fields)
  then show "unique_ids (tasks ?w)" using assms(1) unfolding unique_ids_def set_map [symmetric] by simp
  show "drawn ?w" using drawn_mark_rows [OF kept_set_open(2) [OF assms(2)]]
    by (auto simp: closed_view_def Let_def drawn_def)
  show "under (shape_of (tasks ?w)) = under (shape_of (tasks v))"
    using under_set_open [of j 0 v] by (simp add: closed_view_def Let_def)
  show "group_marker ?w = (group_marker v)(vID (tasks v ! j) \<mapsto> Plus)" by (simp add: closed_view_def Let_def)
qed

text \<open>Closing a group and opening it again does not bring back everything: below it, the children of
  an open group whose marker is still the dash that \<open>Draw\<close> wrote stay hidden.\<close>

lemma reopened_group_incomplete:
  assumes "unique_ids (tasks v)" "drawn v" "under (shape_of (tasks v)) 0 j" "vGroup (tasks v ! j) = 1" "vOpen (tasks v ! j) = 1"
    and k: "under (shape_of (tasks v)) (vID (tasks v ! j)) k" "vGroup (tasks v ! k) = 1" "k \<noteq> j"
      "group_marker v (vID (tasks v ! k)) = Some Ndash"
    and i: "i < length (tasks v)" "vParent (tasks v ! i) = vID (tasks v ! k)"
  shows "\<exists>w w'. folder (length (tasks v) + 1) (vID (tasks v ! j)) v = Inr w
    \<and> folder (length (tasks w) + 1) (vID (tasks v ! j)) w = Inr w'
    \<and> vOpen (tasks w' ! j) = 1 \<and> vOpen (tasks w' ! k) = vOpen (tasks v ! k)
    \<and> vVisible (tasks w' ! i) = 0 \<and> row_display w' (vID (tasks v ! i)) = Some ''none''"
proof -
  let ?w = "closed_view j v" and ?p = "vID (tasks v ! j)" and ?under = "under (shape_of (tasks v))"
  note w = closed_view_kept [OF assms(1,2), of j]
  have j: "j < length (tasks v)" "k < length (tasks v)" using under_length [OF assms(3)] under_length [OF k(1)] by simp_all
  have f: "vID (tasks ?w ! j) = ?p" "vGroup (tasks ?w ! j) = 1" "vOpen (tasks ?w ! j) \<noteq> 1" "vOpen (tasks ?w ! k) = vOpen (tasks v ! k)"
    "vParent (tasks ?w ! i) = vID (tasks v ! k)" "vID (tasks ?w ! i) = vID (tasks v ! i)"
    using j i k assms(4) by (simp_all add: closed_view_fields)
  have closed: "folder (length (tasks v) + 1) ?p v = Inr ?w" using folder_works [OF assms(1-4)] assms(5) by simp
  have opened: "folder (length (tasks ?w) + 1) ?p ?w = Inr (opened_view j ?w)"
    using folder_works [OF w(1,2), of j] f assms(3) w(3) by simp
  have "?under ?p i" using k(1,2) i j by (intro under.deeper [OF k(1)]) auto
  then have hidden: "vVisible (tasks ?w ! i) = 0" "row_display ?w (vID (tasks v ! i)) = Some ''none''"
    using closed_view_row [OF assms(1) i(1) j(1)] by (simp_all add: Let_def)
  have "vID (tasks v ! k) \<noteq> ?p" using unique_row [OF assms(1) j(2,1)] k(3) by simp
  then have "vVisible (tasks (opened_view j ?w) ! i) = 0" "row_display (opened_view j ?w) (vID (tasks v ! i)) = Some ''none''"
    using opened_view_row [OF w(1), of i j] i(1) j(1) assms(3) w(3,4) f k(4) hidden by (simp_all add: Let_def)
  moreover have "vOpen (tasks (opened_view j ?w) ! j) = 1" "vOpen (tasks (opened_view j ?w) ! k) = vOpen (tasks v ! k)"
    using j f k(3) by (simp_all add: opened_view_def Let_def)
  ultimately show ?thesis using closed opened by blast
qed

lemma reopened_group_incomplete_witness:
  "\<exists>w w'. folder 4 1 (nested_view 1 Ndash) = Inr w \<and> folder (length (tasks w) + 1) 1 w = Inr w'
     \<and> vOpen (tasks w' ! 0) = 1 \<and> vOpen (tasks w' ! 1) = 1 \<and> vVisible (tasks w' ! 2) = 0
     \<and> row_display w' 3 = Some ''none''"
  using reopened_group_incomplete [of "nested_view 1 Ndash" 0 1 2]
  by (simp add: nested_view_wf nested_view_rows nested_view_under nested_view_rows [unfolded One_nat_def]
      nested_view_under [unfolded One_nat_def])

end
