(* ===== verification/Gantt_Draw.thy ===== *)
theory Gantt_Draw
  imports Gantt_Dates Gantt_View Complex_Main
begin

text \<open>
  The options of \<open>JSGantt.GanttChart\<close> and its method \<open>Draw\<close>: the rows of the left table, the format
  selector, the two rows of dates and the bars.  The text of the page is given by its parts, row by row
  and cell by cell, without the mark-up around them.  All dates that one call of \<open>Draw\<close> creates are
  the same moment, and fractions of pixels are exact; a quotient by zero, which the code writes to the page
  as \<open>NaN\<close>, is none.  The chart is the one that the page calls \<open>g\<close>, whose caption type the code reads.
\<close>

section \<open>The chart\<close>

record left_row =
  row_id :: int
  row_group :: bool
  row_hidden :: bool
  row_indent :: nat
  row_marker :: "marker option"
  row_link :: string
  row_name :: string
  row_cells :: "string list"

record format_choice =
  choice_value :: string
  choice_checked :: bool

text \<open>A cell of the lower row of dates and the cell of every task row below it: class, text and colour of
  the first, colour of the second, and whether each closes the table on the right.\<close>

record cell =
  cell_class :: string
  cell_text :: string
  cell_color :: "string option"
  item_color :: "string option"
  cell_border :: bool
  item_border :: bool

datatype bar_kind = Milestone string | Group_Bar string | Task_Bar string string

record bar =
  bar_id :: int
  bar_hidden :: bool
  bar_kind :: bar_kind
  bar_left :: "int option"
  bar_width :: "int option"
  bar_title :: string
  bar_link :: string
  bar_caption :: "string option"

record drawing =
  name_width :: int
  columns :: "string list"
  left_rows :: "left_row list"
  choices :: "format_choice list"
  chart_width :: "rat option"
  major_cells :: "string list"
  minor_cells :: "cell list"
  bars :: "bar list"

record gantt =
  vFormat :: string
  vShowRes :: int
  vShowDur :: int
  vShowComp :: int
  vShowStartDate :: int
  vShowEndDate :: int
  vDateInputFormat :: string
  vDateDisplayFormat :: string
  vCaptionType :: string
  vFormatArr :: "string list"
  vTaskList :: "task list"
  vDiv :: "drawing option"

definition GanttChart :: "string \<Rightarrow> gantt" where
  "GanttChart pFormat =
     \<lparr>vFormat = pFormat, vShowRes = 1, vShowDur = 1, vShowComp = 1, vShowStartDate = 1, vShowEndDate = 1,
      vDateInputFormat = ''mm/dd/yyyy'', vDateDisplayFormat = ''mm/dd/yy'', vCaptionType = [],
      vFormatArr = [''day'', ''week'', ''month'', ''quarter''], vTaskList = [], vDiv = None\<rparr>"

definition setFormatArr :: "string list \<Rightarrow> gantt \<Rightarrow> gantt" where
  "setFormatArr arguments g =
     (let arr = arguments in g\<lparr>vFormatArr := (if length arr > 4 then take 4 arr else arr)\<rparr>)"

definition AddTaskItem :: "task \<Rightarrow> gantt \<Rightarrow> gantt" where
  "AddTaskItem t g = g\<lparr>vTaskList := vTaskList g @ [t]\<rparr>"

definition setShowRes :: "int \<Rightarrow> gantt \<Rightarrow> gantt" where "setShowRes pShow g = g\<lparr>vShowRes := pShow\<rparr>"
definition setShowDur :: "int \<Rightarrow> gantt \<Rightarrow> gantt" where "setShowDur pShow g = g\<lparr>vShowDur := pShow\<rparr>"
definition setShowComp :: "int \<Rightarrow> gantt \<Rightarrow> gantt" where "setShowComp pShow g = g\<lparr>vShowComp := pShow\<rparr>"
definition setShowStartDate :: "int \<Rightarrow> gantt \<Rightarrow> gantt" where "setShowStartDate pShow g = g\<lparr>vShowStartDate := pShow\<rparr>"
definition setShowEndDate :: "int \<Rightarrow> gantt \<Rightarrow> gantt" where "setShowEndDate pShow g = g\<lparr>vShowEndDate := pShow\<rparr>"
definition setDateInputFormat :: "string \<Rightarrow> gantt \<Rightarrow> gantt" where "setDateInputFormat pShow g = g\<lparr>vDateInputFormat := pShow\<rparr>"
definition setDateDisplayFormat :: "string \<Rightarrow> gantt \<Rightarrow> gantt" where
  "setDateDisplayFormat pShow g = g\<lparr>vDateDisplayFormat := pShow\<rparr>"
definition setCaptionType :: "string \<Rightarrow> gantt \<Rightarrow> gantt" where "setCaptionType pType g = g\<lparr>vCaptionType := pType\<rparr>"

section \<open>The left table\<close>

definition draw_name_width :: "gantt \<Rightarrow> int" where
  "draw_name_width g =
     220 + (if vShowRes g \<noteq> 1 then 70 else 0) + (if vShowDur g \<noteq> 1 then 70 else 0)
     + (if vShowComp g \<noteq> 1 then 70 else 0) + (if vShowStartDate g \<noteq> 1 then 70 else 0)
     + (if vShowEndDate g \<noteq> 1 then 70 else 0)"

definition draw_columns :: "gantt \<Rightarrow> string list" where
  "draw_columns g =
     (if vShowRes g = 1 then [''Resource''] else []) @ (if vShowDur g = 1 then [''Duration''] else [])
     @ (if vShowComp g = 1 then [''% Comp.''] else []) @ (if vShowStartDate g = 1 then [''Start Date''] else [])
     @ (if vShowEndDate g = 1 then [''End Date''] else [])"

definition draw_left_row :: "gantt \<Rightarrow> task \<Rightarrow> left_row" where
  "draw_left_row g t =
     \<lparr>row_id = vID t, row_group = (vGroup t \<noteq> 0), row_hidden = (vVisible t = 0), row_indent = vLevel t - 1,
      row_marker = (if vGroup t \<noteq> 0 then Some (if vOpen t = 1 then Ndash else Plus) else None),
      row_link = vLink t, row_name = vName t,
      row_cells =
        (if vShowRes g = 1 then [getResource t] else []) @ (if vShowDur g = 1 then [getDuration (vFormat g) t] else [])
        @ (if vShowComp g = 1 then [getCompStr t] else [])
        @ (if vShowStartDate g = 1 then [undef_text (formatDateStr (vStart t) (vDateDisplayFormat g))] else [])
        @ (if vShowEndDate g = 1 then [undef_text (formatDateStr (vEnd t) (vDateDisplayFormat g))] else [])\<rparr>"

definition draw_choices :: "gantt \<Rightarrow> format_choice list" where
  "draw_choices g =
     concat (map (\<lambda>f. if occurs f (join '','' (vFormatArr g))
                      then [\<lparr>choice_value = f, choice_checked = (vFormat g = f)\<rparr>] else [])
       [''minute'', ''hour'', ''day'', ''week'', ''month'', ''quarter''])"

section \<open>The rows of dates\<close>

definition col_width :: "string \<Rightarrow> int" where
  "col_width f =
     (if f = ''day'' then 18 else if f = ''week'' then 37 else if f = ''month'' then 37
      else if f = ''quarter'' then 60 else if f = ''hour'' then 18 else if f = ''minute'' then 18 else 0)"

definition col_unit :: "string \<Rightarrow> int" where
  "col_unit f =
     (if f = ''day'' then 1 else if f = ''week'' then 7 else if f = ''month'' then 30
      else if f = ''quarter'' then 90 else if f = ''hour'' then 1 else if f = ''minute'' then 1 else 0)"

text \<open>A format that is not known has no width: the code divides zero by zero.\<close>

definition day_width :: "string \<Rightarrow> rat option" where
  "day_width f =
     (if col_unit f = 0 then None else Some (of_int (col_width f) / of_int (col_unit f) + 1 / of_int (col_unit f)))"

definition table_width :: "string \<Rightarrow> rat option \<Rightarrow> rat option" where
  "table_width f vNumDays =
     (if col_unit f = 0 then None else map_option (\<lambda>q. q / of_int (col_unit f) * of_int (col_width f) + 1) vNumDays)"

text \<open>On to the first of a month.\<close>

lemma day_after:
  "getDate (t + msPerDay) = 1 \<or>
   getDate (t + msPerDay) = getDate t + 1 \<and> getDate t + 1 \<le> days_in_month (getFullYear t) (getMonth t)"
proof -
  let ?d = "day_of t" and ?y = "YearFromDay (day_of t)" and ?m = "MonthFromDay (day_of t)"
  note r = MonthFromDay_range [of ?d] DateFromDay_range [of ?d]
  have e: "day_of (t + msPerDay) = MakeDay ?y ?m (DateFromDay ?d + 1)"
    using MakeDay_shift [of ?y ?m "DateFromDay ?d" 1] day_of_shift(1) [of t 1] by simp
  show ?thesis
  proof (cases "DateFromDay ?d = days_in_month ?y ?m")
    case False
    then have "1 \<le> DateFromDay ?d + 1" "DateFromDay ?d + 1 \<le> days_in_month ?y ?m" using r by simp_all
    from fields_MakeDay(3) [OF r(1,2) this] this show ?thesis by (simp add: fields_day e)
  next
    case True
    have "\<exists>y m. 0 \<le> m \<and> m < 12 \<and> day_of (t + msPerDay) = MakeDay y m 1"
    proof (cases "?m = 11")
      case False
      then show ?thesis using r True unfolding e
        by (intro exI [of _ ?y] exI [of _ "?m + 1"]) (simp add: MakeDay_def days_in_month_def div_pos_pos_trivial mod_pos_pos_trivial)
    next
      case m: True
      then show ?thesis using r True unfolding e
        by (intro exI [of _ "?y + 1"] exI [of _ 0])
          (simp add: MakeDay_def days_in_month_def DayFromYear_Suc days_in_year_def month_start_12 month_start_def)
    qed
    then obtain y m where f: "0 \<le> m" "m < 12" "day_of (t + msPerDay) = MakeDay y m 1" by blast
    have "1 \<le> days_in_month y m" using days_in_month_range [OF f(1,2), of y] by simp
    from fields_MakeDay(3) [OF f(1,2) _ this] have "getDate (t + msPerDay) = 1" by (simp add: fields_day f(3))
    then show ?thesis by simp
  qed
qed

function month_forward :: "int \<Rightarrow> int" where
  "month_forward t = (if getDate t > 1 then month_forward (setDate (getDate t + 1) t) else t)"
  by auto
termination
proof (relation "measure (\<lambda>t. if getDate t = 1 then 0 else nat (32 - getDate t))")
  fix t assume "getDate t > 1"
  then show "(setDate (getDate t + 1) t, t) \<in> measure (\<lambda>t. if getDate t = 1 then 0 else nat (32 - getDate t))"
    using day_after [of t] getDate_range [of "t + msPerDay"] getDate_range [of t] by auto
qed simp

declare month_forward.simps [simp del]

lemma month_forward_ge: "t \<le> month_forward t"
proof (induction t rule: month_forward.induct)
  case (1 t)
  then show ?case by (subst month_forward.simps) auto
qed

text \<open>The loops over the dates of a header: the cell at a date, the next date, until the date is past the
  last one.  The first argument is the number of rounds that are left; \<^const>\<open>None\<close> means that they were
  not enough.\<close>

fun header_loop :: "nat \<Rightarrow> ('s \<Rightarrow> 'c) \<Rightarrow> ('s \<Rightarrow> 's) \<Rightarrow> ('s \<Rightarrow> int) \<Rightarrow> int \<Rightarrow> 's \<Rightarrow> ('c list \<times> 's) option" where
  "header_loop 0 cl step tm l s = None"
| "header_loop (Suc n) cl step tm l s =
     (if parse_of_date (tm s) \<le> parse_of_date l
      then map_option (\<lambda>(cs, s'). (cl s # cs, s')) (header_loop n cl step tm l (step s))
      else Some ([], s))"

text \<open>The upper row.\<close>

definition two_digit_year :: "int \<Rightarrow> string" where
  "two_digit_year t = substring (int_str (getFullYear t)) 2 4"

definition major_cell :: "string \<Rightarrow> string \<Rightarrow> int \<Rightarrow> string" where
  "major_cell fmt disp t =
     (if fmt = ''minute'' then
        undef_text (formatDateStr (Some t) disp) @ '' '' @ int_str (getHours t) @ '':00 -'' @ int_str (getHours t) @ '':59 ''
      else if fmt = ''hour'' then undef_text (formatDateStr (Some t) disp)
      else if fmt = ''day'' then
        undef_text (formatDateStr (Some t) (substring disp 0 5)) @ '' - ''
        @ undef_text (formatDateStr (Some (setDate (getDate t + 6) t)) disp)
      else CHR ''`'' # two_digit_year t)"

text \<open>A format that the code does not know leaves the date where it is.\<close>

definition major_step :: "string \<Rightarrow> int \<Rightarrow> int" where
  "major_step fmt t =
     (if fmt = ''minute'' then setHours (getHours t + 1) t
      else if fmt = ''hour'' then setDate (getDate t + 1) t
      else if fmt = ''day'' then let u = setDate (getDate t + 6) t in setDate (getDate u + 1) u
      else if fmt = ''week'' then setDate (getDate t + 7) t
      else if fmt = ''month'' then month_forward (setDate (getDate t + 1) t)
      else if fmt = ''quarter'' then month_forward (setDate (getDate t + 81) t)
      else t)"

text \<open>The lower row.  \<open>vNxtDate\<close> runs along; only the week format steps it by itself.\<close>

definition vMonthDaysArr :: "int list" where
  "vMonthDaysArr = [31, 28, 31, 30, 31, 30, 31, 31, 30, 31, 30, 31]"

definition vMonthArr :: "string list" where
  "vMonthArr = [''January'', ''February'', ''March'', ''April'', ''May'', ''June'', ''July'', ''August'',
     ''September'', ''October'', ''November'', ''December'']"

definition vQuarterArr :: "int list" where
  "vQuarterArr = [1, 1, 1, 2, 2, 2, 3, 3, 3, 4, 4, 4]"

definition set_ymd :: "int \<Rightarrow> int \<Rightarrow> int \<Rightarrow> int \<Rightarrow> int" where
  "set_ymd y m d t = MakeDate (MakeDay y m d) (t mod msPerDay)"

definition next_date :: "string \<Rightarrow> int \<times> int \<Rightarrow> int" where
  "next_date fmt s =
     (let (tmp, nxt) = s
      in if fmt = ''week'' then setDate (getDate nxt + 7) nxt
         else if fmt = ''month'' then set_ymd (getFullYear tmp) (getMonth tmp) (vMonthDaysArr ! nat (getMonth tmp)) nxt
         else if fmt = ''quarter'' then
           let n = setDate (getDate nxt + 122) nxt; y = getFullYear tmp; m = getMonth tmp
           in if m = 0 \<or> m = 1 \<or> m = 2 then set_ymd y 2 31 n
              else if m = 3 \<or> m = 4 \<or> m = 5 then set_ymd y 5 30 n
              else if m = 6 \<or> m = 7 \<or> m = 8 then set_ymd y 8 30 n
              else if m = 9 \<or> m = 10 \<or> m = 11 then set_ymd y 11 31 n
              else n
         else nxt)"

definition minor_step :: "string \<Rightarrow> int \<times> int \<Rightarrow> int \<times> int" where
  "minor_step fmt s =
     (let (tmp, _) = s
      in (if fmt = ''minute'' then setMinutes (getMinutes tmp + 1) tmp
          else if fmt = ''hour'' then setHours (getHours tmp + 1) tmp
          else if fmt = ''day'' then setDate (getDate tmp + 1) tmp
          else if fmt = ''week'' then setDate (getDate tmp + 7) tmp
          else if fmt = ''month'' then month_forward (setDate (getDate tmp + 1) tmp)
          else if fmt = ''quarter'' then month_forward (setDate (getDate tmp + 81) tmp)
          else tmp,
          next_date fmt s))"

definition same_date :: "int \<Rightarrow> int \<Rightarrow> bool" where
  "same_date a b \<longleftrightarrow> formatDateStr (Some a) ''mm/dd/yyyy'' = formatDateStr (Some b) ''mm/dd/yyyy''"

definition span_text :: "string \<Rightarrow> int \<Rightarrow> string" where
  "span_text fmt tmp =
     (if fmt = ''week'' then int_str (getMonth tmp + 1) @ ''/'' @ int_str (getDate tmp)
      else if fmt = ''month'' then take 3 (vMonthArr ! nat (getMonth tmp))
      else ''Qtr. '' @ int_str (vQuarterArr ! nat (getMonth tmp)))"

text \<open>In the last cell of the week format the colour stands inside the style, where it makes the border after
  it void as well.\<close>

definition minor_cell :: "int \<Rightarrow> string \<Rightarrow> int \<Rightarrow> int \<times> int \<Rightarrow> cell" where
  "minor_cell now fmt mx s =
     (let tmp = fst s; nxt = next_date fmt s; lit = (\<lambda>b. if b then ''ccccff'' else ''ffffff'')
      in if fmt = ''minute'' then
           let c = lit (getMinutes tmp = 0)
           in \<lparr>cell_class = ''ghead'', cell_text = int_str (getMinutes tmp), cell_color = Some c, item_color = Some c, cell_border = False, item_border = False\<rparr>
         else if fmt = ''hour'' then
           let c = lit (getHours tmp = 0)
           in \<lparr>cell_class = ''ghead'', cell_text = int_str (getHours tmp), cell_color = Some c, item_color = Some c, cell_border = False, item_border = False\<rparr>
         else if fmt = ''day'' then
           if getDay tmp mod 6 = 0 then
             let c = (if same_date now tmp then ''9999ff'' else ''cfcfcf'')
             in \<lparr>cell_class = ''gheadwkend'', cell_text = int_str (getDate tmp), cell_color = Some c, item_color = Some c, cell_border = False, item_border = False\<rparr>
           else
             \<lparr>cell_class = ''ghead'', cell_text = int_str (getDate tmp), cell_color = Some (lit (same_date now tmp)),
              item_color = (if same_date now tmp then Some ''ccccff'' else None), cell_border = False, item_border = False\<rparr>
         else
           let current = (tmp \<le> now \<and> now < nxt); last = (mx < nxt)
           in \<lparr>cell_class = ''ghead'', cell_text = span_text fmt tmp,
               cell_color = (if last \<and> fmt = ''week'' then None else Some (lit current)),
               item_color = (if current then Some ''ccccff'' else None),
               cell_border = (last \<and> fmt \<noteq> ''week''), item_border = last\<rparr>)"

text \<open>Both headers run from the day of the first moment; the lower one finds the hours that the upper one
  left.\<close>

definition draw_headers :: "nat \<Rightarrow> int \<Rightarrow> string \<Rightarrow> string \<Rightarrow> date \<Rightarrow> date \<Rightarrow> (string list \<times> cell list) option" where
  "draw_headers n now fmt disp vMin vMax =
     (case (vMin, vMax) of
        (Some mn, Some mx) \<Rightarrow>
          let tmp = setMinutes 0 (setHours 0 (MakeDate (day_of mn) (now mod msPerDay)))
          in Option.bind (header_loop n (major_cell fmt disp) (major_step fmt) id mx tmp)
               (\<lambda>(major, left).
                  map_option (\<lambda>(minor, _). (major, minor))
                    (header_loop n (minor_cell now fmt mx) (minor_step fmt) fst mx
                       (MakeDate (day_of mn) (left mod msPerDay), MakeDate (day_of mn) (now mod msPerDay))))
      | _ \<Rightarrow> Some ([], []))"

section \<open>The bars\<close>

text \<open>The caption is chosen by its type; a type that is not known gives an empty one.\<close>

definition caption_of :: "gantt \<Rightarrow> string \<Rightarrow> task \<Rightarrow> string option" where
  "caption_of g fmt t =
     (if vCaptionType g = [] then None
      else Some (if vCaptionType g = ''Caption'' then vCaption t
                 else if vCaptionType g = ''Resource'' then getResource t
                 else if vCaptionType g = ''Duration'' then getDuration fmt t
                 else if vCaptionType g = ''Complete'' then getCompStr t
                 else []))"

definition date_text :: "gantt \<Rightarrow> date \<Rightarrow> string" where
  "date_text g d = undef_text (formatDateStr d (vDateDisplayFormat g))"

text \<open>The distance of two moments, to the second, in units; none when one of them is invalid.\<close>

definition parsed_diff :: "date \<Rightarrow> date \<Rightarrow> int \<Rightarrow> rat option" where
  "parsed_diff a b u =
     (case (a, b) of
        (Some s, Some t) \<Rightarrow> Some (of_int (parse_of_date s - parse_of_date t) / of_int u)
      | _ \<Rightarrow> None)"

definition pixels :: "rat option \<Rightarrow> rat option \<Rightarrow> int option" where
  "pixels w x = (case (w, x) of (Some w, Some x) \<Rightarrow> Some \<lceil>x * w + 1\<rceil> | _ \<Rightarrow> None)"

definition width_pixels :: "rat option \<Rightarrow> rat option \<Rightarrow> int option" where
  "width_pixels w x = (case (w, x) of (Some w, Some x) \<Rightarrow> Some \<lceil>x * w - 1\<rceil> | _ \<Rightarrow> None)"

text \<open>Where the bar of a task that is no milestone begins.  The test for the day format is an assignment:
  it holds for every format that gets there.\<close>

definition task_left :: "string \<Rightarrow> date \<Rightarrow> task \<Rightarrow> rat option" where
  "task_left fmt vMin t =
     (if fmt = ''minute'' then map_option (\<lambda>q. of_int \<lceil>q\<rceil>) (parsed_diff (vStart t) vMin 60000)
      else if fmt = ''hour'' then parsed_diff (vStart t) vMin 3600000
      else
        let half = (case vStart t of None \<Rightarrow> False | Some s \<Rightarrow> getMinutes (parse_of_date s) > 29)
        in map_option (\<lambda>q. of_int \<lceil>q\<rceil> + (if half then 1 / 2 else 0)) (parsed_diff (vStart t) vMin msPerDay))"

text \<open>The unit is zero only where the width of a day is none.\<close>

definition task_right :: "string \<Rightarrow> rat \<Rightarrow> task \<Rightarrow> rat option" where
  "task_right fmt unit t =
     map_option (\<lambda>q. q + 1 / unit)
       (parsed_diff (vEnd t) (vStart t)
         (if fmt = ''minute'' then 60000 else if fmt = ''hour'' then 3600000 else msPerDay))"

definition format_after :: "string \<Rightarrow> string" where
  "format_after fmt = (if fmt = ''minute'' then fmt else if fmt = ''hour'' then fmt else ''day'')"

text \<open>One round of the loop over the tasks: the width and the unit of a column are those of the format the
  chart had at the beginning, the format itself may change from one task to the next.\<close>

definition draw_bar :: "gantt \<Rightarrow> rat option \<Rightarrow> rat \<Rightarrow> date \<Rightarrow> task \<Rightarrow> string \<Rightarrow> bar \<times> string" where
  "draw_bar g w unit vMin t fmt =
     (if vMile t \<noteq> 0 then
        (\<lparr>bar_id = vID t, bar_hidden = (vVisible t = 0),
          bar_kind = Milestone (if getCompVal t < 100 then ''&loz;'' else ''&diams;''),
          bar_left = pixels w (parsed_diff (vStart t) vMin msPerDay), bar_width = Some 160,
          bar_title = vName t @ '': '' @ date_text g (vStart t), bar_link = vLink t, bar_caption = caption_of g fmt t\<rparr>, fmt)
      else
        let fmt' = format_after fmt
        in (\<lparr>bar_id = vID t, bar_hidden = (vVisible t = 0),
             bar_kind = (if vGroup t \<noteq> 0 then Group_Bar (getCompStr t) else Task_Bar (vColor t) (getCompStr t)),
             bar_left = pixels w (task_left fmt vMin t),
             bar_width = width_pixels w (task_right fmt unit t),
             bar_title = vName t @ '': '' @ date_text g (vStart t) @ '' - '' @ date_text g (vEnd t),
             bar_link = vLink t, bar_caption = caption_of g fmt' t\<rparr>, fmt'))"

fun draw_bars :: "gantt \<Rightarrow> rat option \<Rightarrow> rat \<Rightarrow> date \<Rightarrow> task list \<Rightarrow> string \<Rightarrow> bar list \<times> string" where
  "draw_bars g w unit vMin [] fmt = ([], fmt)"
| "draw_bars g w unit vMin (t # ts) fmt =
     (let (b, fmt1) = draw_bar g w unit vMin t fmt; (bs, fmt2) = draw_bars g w unit vMin ts fmt1
      in (b # bs, fmt2))"

section \<open>Draw\<close>

text \<open>The first argument bounds the stack, the second the rounds of each header loop.  \<^const>\<open>None\<close> is a
  header loop that has not ended.\<close>

definition draw_table ::
    "nat \<Rightarrow> int \<Rightarrow> gantt \<Rightarrow> task list \<Rightarrow> date \<Rightarrow> date \<Rightarrow> gantt option" where
  "draw_table m now g l vMin vMax =
     (let fmt = vFormat g; w = day_width fmt; unit = of_int (col_unit fmt)
      in map_option (\<lambda>(major, minor).
           let (bs, fmt') = draw_bars g w unit vMin l fmt
           in g\<lparr>vTaskList := l, vFormat := fmt',
                vDiv := Some
                  \<lparr>name_width = draw_name_width g, columns = draw_columns g, left_rows = map (draw_left_row g) l,
                   choices = draw_choices g,
                   chart_width = table_width fmt (parsed_diff vMax vMin msPerDay),
                   major_cells = major, minor_cells = minor, bars = bs\<rparr>\<rparr>)
         (draw_headers m now fmt (vDateDisplayFormat g) vMin vMax))"

definition Draw :: "nat \<Rightarrow> nat \<Rightarrow> int \<Rightarrow> gantt \<Rightarrow> gantt result option" where
  "Draw n m now g =
     (if vTaskList g = [] then Some (Inr g)
      else case processRows now n 0 None 1 1 (vTaskList g) of
             None \<Rightarrow> Some (Inl RangeError)
           | Some l \<Rightarrow>
               (case (getMinDate now l (vFormat g), getMaxDate now l (vFormat g)) of
                  (Inr vMin, Inr vMax) \<Rightarrow> map_option Inr (draw_table m now g l vMin vMax)
                | _ \<Rightarrow> Some (Inl TypeError)))"

definition setFormat :: "nat \<Rightarrow> nat \<Rightarrow> int \<Rightarrow> string \<Rightarrow> gantt \<Rightarrow> gantt result option" where
  "setFormat n m now pFormat g = Draw n m now (g\<lparr>vFormat := pFormat\<rparr>)"

text \<open>The page that the walks of \<open>folder\<close> start from.\<close>

definition drawn_view :: "gantt \<Rightarrow> drawing \<Rightarrow> chart_view" where
  "drawn_view g d =
     \<lparr>tasks = vTaskList g,
      row_display = map_of (map (\<lambda>r. (row_id r, if row_hidden r then ''none'' else [])) (left_rows d)),
      grid_display = map_of (map (\<lambda>b. (bar_id b, if bar_hidden b then ''none'' else [])) (bars d)),
      group_marker = map_of (concat (map (\<lambda>r. case row_marker r of None \<Rightarrow> [] | Some m \<Rightarrow> [(row_id r, m)]) (left_rows d)))\<rparr>"

section \<open>The header loops\<close>

lemma header_loop_result:
  "header_loop n cl step tm l s = Some (cs, s') \<Longrightarrow>
   s' = (step ^^ length cs) s \<and> cs = map (\<lambda>k. cl ((step ^^ k) s)) [0..<length cs]
   \<and> (\<forall>k < length cs. parse_of_date (tm ((step ^^ k) s)) \<le> parse_of_date l) \<and> parse_of_date l < parse_of_date (tm s')"
proof (induction n arbitrary: s cs)
  case (Suc n)
  show ?case
  proof (cases "parse_of_date (tm s) \<le> parse_of_date l")
    case True
    with Suc.prems obtain ds where ds: "header_loop n cl step tm l (step s) = Some (ds, s')" "cs = cl s # ds" by auto
    note IH = Suc.IH [OF ds(1)]
    have "[0..<length cs] = 0 # map Suc [0..<length ds]"
      by (simp add: ds(2) upt_conv_Cons map_Suc_upt del: upt_Suc)
    moreover have "map (\<lambda>k. cl ((step ^^ k) (step s))) [0..<length ds] = ds" using IH by simp
    ultimately have "cs = map (\<lambda>k. cl ((step ^^ k) s)) [0..<length cs]"
      by (simp add: ds(2) comp_def funpow_swap1)
    moreover have "parse_of_date (tm ((step ^^ k) s)) \<le> parse_of_date l" if "k < length cs" for k
      using that IH True by (cases k) (auto simp: ds(2) funpow_swap1)
    ultimately show ?thesis using IH by (auto simp: ds(2) funpow_swap1)
  qed (use Suc.prems in auto)
qed simp

text \<open>A loop whose step moves on by a second or more ends.\<close>

lemma header_loop_ends:
  assumes "\<And>s. tm s + 1000 \<le> tm (step s)"
  shows "l + 1000 \<le> tm s + 1000 * int n \<Longrightarrow> header_loop (Suc n) cl step tm l s \<noteq> None"
proof (induction n arbitrary: s)
  case 0
  then have "parse_of_date l < parse_of_date (tm s)" by (simp add: parse_of_date_def)
  then show ?case by simp
next
  case (Suc n)
  have "l + 1000 \<le> tm (step s) + 1000 * int n" using Suc.prems assms [of s] by simp
  from Suc.IH [OF this] show ?case by (subst header_loop.simps) auto
qed

lemma header_loop_enough: 
  assumes "\<And>s. tm s + 1000 \<le> tm (step s)" "nat (l + 1000 - tm s) < n"
  shows "header_loop n cl step tm l s \<noteq> None"
proof -
  obtain k where "n = Suc k" "l + 1000 \<le> tm s + 1000 * int k" using assms(2) by (cases n) auto
  then show ?thesis using header_loop_ends [of tm step l s k cl] assms(1) by blast
qed

lemma header_loop_stuck: "parse_of_date (tm s) \<le> parse_of_date l \<Longrightarrow> step s = s \<Longrightarrow> header_loop n cl step tm l s = None"
  by (induction n) simp_all

lemma setMinutes_next: "setMinutes (getMinutes t + 1) t = t + 60000"
proof -
  have "t div 3600000 * 3600000 + t mod 3600000 = t" by simp
  moreover have "t mod 3600000 div 60000 * 60000 + t mod 3600000 mod 60000 = t mod 3600000" by simp
  ultimately show ?thesis unfolding setMinutes_def getMinutes_def by (simp add: mod_mod_cancel algebra_simps)
qed

definition formats :: "string set" where
  "formats = {''minute'', ''hour'', ''day'', ''week'', ''month'', ''quarter''}"

lemma major_step_forward: "fmt \<in> formats \<Longrightarrow> t + 1000 \<le> major_step fmt t"
  using minute_forward(3) [of t] month_forward_ge [of "t + msPerDay"] month_forward_ge [of "t + 81 * msPerDay"]
    setDate_shift [of t 6] setDate_shift [of t 7] setDate_shift [of t 81] setDate_next(1) [of "t + 6 * msPerDay"]
  by (auto simp: formats_def major_step_def Let_def)

lemma minor_step_forward: "fmt \<in> formats \<Longrightarrow> fst s + 1000 \<le> fst (minor_step fmt s)"
  using minute_forward(3) [of "fst s"] month_forward_ge [of "fst s + msPerDay"] month_forward_ge [of "fst s + 81 * msPerDay"]
    setDate_shift [of "fst s" 7] setDate_shift [of "fst s" 81] setMinutes_next [of "fst s"]
  by (auto simp: formats_def minor_step_def split_def)

lemma draw_headers_end: "fmt \<in> formats \<Longrightarrow> \<exists>m. draw_headers m now fmt disp vMin vMax \<noteq> None"
proof (cases "vMin = None \<or> vMax = None")
  case False
  assume fmt: "fmt \<in> formats"
  obtain mn mx where d: "vMin = Some mn" "vMax = Some mx" using False by auto
  let ?t = "setMinutes 0 (setHours 0 (MakeDate (day_of mn) (now mod msPerDay)))"
  let ?start = "\<lambda>left. MakeDate (day_of mn) (left mod msPerDay)"
  define m where "m = nat (mx + 1000 - ?t) + nat (mx + 1000 - day_of mn * msPerDay) + 1"
  have "header_loop m (major_cell fmt disp) (major_step fmt) id mx ?t \<noteq> None"
    using major_step_forward [OF fmt] by (intro header_loop_enough) (simp_all add: m_def)
  moreover have "header_loop m (minor_cell now fmt mx) (minor_step fmt) fst mx (?start left, u) \<noteq> None" for left u
  proof (rule header_loop_enough)
    show "fst s + 1000 \<le> fst (minor_step fmt s)" for s using minor_step_forward [OF fmt] .
    have "0 \<le> left mod msPerDay" by simp
    then show "nat (mx + 1000 - fst (?start left, u)) < m" by (simp add: m_def MakeDate_def)
  qed
  ultimately show ?thesis by (intro exI [of _ m]) (auto simp: draw_headers_def d Let_def)
qed (auto simp: draw_headers_def split: option.splits)

section \<open>Drawing a chart\<close>

lemma getDates_Inr:
  assumes "l \<noteq> []"
  shows "\<exists>a. getMinDate now l fmt = Inr a" "\<exists>b. getMaxDate now l fmt = Inr b"
  using assms by (cases l; simp add: getMinDate_def getMaxDate_def)+

lemma processRows_length: "processRows now n 0 None 1 1 l = Some l' \<Longrightarrow> length l' = length l"
  using processRows_shape [of now n 0 None 1 1 l l'] by (metis shape_simps(1))

lemma Draw_after_pass:
  assumes "processRows now n 0 None 1 1 (vTaskList g) = Some l" "vFormat g \<in> formats"
  shows "\<exists>m g'. Draw n m now g = Some (Inr g')"
proof (cases "vTaskList g = []")
  case False
  then have "l \<noteq> []" using processRows_length [OF assms(1)] by auto
  then obtain a b where ab: "getMinDate now l (vFormat g) = Inr a" "getMaxDate now l (vFormat g) = Inr b"
    using getDates_Inr by blast
  obtain m hs where "draw_headers m now (vFormat g) (vDateDisplayFormat g) a b = Some hs"
    using draw_headers_end [OF assms(2)] by (metis option.exhaust)
  then have "draw_table m now g l a b \<noteq> None" by (simp add: draw_table_def Let_def)
  then show ?thesis using False assms(1) ab by (intro exI [of _ m]) (auto simp: Draw_def simp del: processRows.simps)
qed (simp add: Draw_def)

text \<open>C26: in each of the six formats drawing a chart with unique identifiers ends, whatever its dates, within
  a stack as deep as the chart is long.\<close>

theorem draw_ends:
  assumes "unique_ids (vTaskList g)" "vFormat g \<in> formats"
  shows "\<exists>m g'. Draw (length (vTaskList g) + 1) m now g = Some (Inr g')"
proof -
  obtain l where "processRows now (length (vTaskList g) + 1) 0 None 1 1 (vTaskList g) = Some l"
    using chart_pass_total [OF assms(1), of "length (vTaskList g) + 1" now] by (auto simp del: processRows.simps)
  then show ?thesis using assms(2) by (rule Draw_after_pass)
qed

definition small_gantt :: "string \<Rightarrow> gantt" where
  "small_gantt fmt = AddTaskItem (small_chart ! 1) (AddTaskItem (small_chart ! 0) (GanttChart fmt))"

lemma small_gantt_simps:
  "vTaskList (small_gantt fmt) = small_chart" "vFormat (small_gantt fmt) = fmt" "vTaskList (small_gantt fmt) \<noteq> []"
  by (simp_all add: small_gantt_def AddTaskItem_def GanttChart_def small_chart_def Let_def)

theorem draw_ends_witness: "\<exists>m g'. Draw 3 m 5 (small_gantt ''week'') = Some (Inr g')"
  using draw_ends [of "small_gantt ''week''" 5] small_chart_ids
  by (simp add: small_gantt_simps small_chart_rows formats_def numeral_3_eq_3)

lemma draw_bars_format:
  "\<exists>t \<in> set l. vMile t = 0 \<Longrightarrow> fmt \<noteq> ''minute'' \<Longrightarrow> fmt \<noteq> ''hour'' \<Longrightarrow> snd (draw_bars g w unit vMin l fmt) = ''day''"
proof (induction l arbitrary: fmt)
  case (Cons t l)
  have day: "snd (draw_bars g w unit vMin l ''day'') = ''day''"
  proof (cases "\<exists>t \<in> set l. vMile t = 0")
    case False
    then show ?thesis by (induction l) (auto simp: draw_bar_def split_def Let_def)
  qed (use Cons.IH [of "''day''"] in simp)
  show ?case using Cons day by (auto simp: draw_bar_def split_def Let_def format_after_def)
qed simp

lemma draw_table_result:
  assumes "draw_table m now g l a b = Some g'"
  shows "\<exists>bs d major minor. draw_bars g (day_width (vFormat g)) (of_int (col_unit (vFormat g))) a l (vFormat g) = (bs, vFormat g')
    \<and> draw_headers m now (vFormat g) (vDateDisplayFormat g) a b = Some (major, minor)
    \<and> vTaskList g' = l \<and> vDiv g' = Some d \<and> left_rows d = map (draw_left_row g) l
    \<and> major_cells d = major \<and> minor_cells d = minor \<and> bars d = bs"
proof -
  obtain major minor where h: "draw_headers m now (vFormat g) (vDateDisplayFormat g) a b = Some (major, minor)"
    using assms by (auto simp: draw_table_def Let_def)
  obtain bs fmt where bs: "draw_bars g (day_width (vFormat g)) (of_int (col_unit (vFormat g))) a l (vFormat g) = (bs, fmt)"
    by fastforce
  show ?thesis using assms [symmetric] by (simp add: draw_table_def Let_def h bs)
qed

lemma Draw_cases:
  assumes "Draw n m now g = Some (Inr g')" "vTaskList g \<noteq> []"
  obtains l a b hs where "processRows now n 0 None 1 1 (vTaskList g) = Some l"
    "getMinDate now l (vFormat g) = Inr a" "getMaxDate now l (vFormat g) = Inr b"
    "draw_headers m now (vFormat g) (vDateDisplayFormat g) a b = Some hs" "draw_table m now g l a b = Some g'"
    "vTaskList g' = l"
proof -
  obtain l a b where r: "processRows now n 0 None 1 1 (vTaskList g) = Some l"
    "getMinDate now l (vFormat g) = Inr a" "getMaxDate now l (vFormat g) = Inr b" "draw_table m now g l a b = Some g'"
    using assms by (auto simp: Draw_def split: option.splits sum.splits prod.splits)
  then obtain hs where "draw_headers m now (vFormat g) (vDateDisplayFormat g) a b = Some hs"
    by (auto simp: draw_table_def Let_def)
  moreover have "vTaskList g' = l" using draw_table_result [OF r(4)] by blast
  ultimately show thesis using that r by blast
qed

text \<open>Drawing a chart that has a task other than a milestone in the week, month or quarter format leaves
  the chart in the day format: the next call of \<open>Draw\<close> shows days.\<close>

lemma draw_forgets_format:
  assumes "Draw n m now g = Some (Inr g')" "\<exists>t \<in> set (vTaskList g'). vMile t = 0"
    "vFormat g \<noteq> ''minute''" "vFormat g \<noteq> ''hour''" "vTaskList g \<noteq> []"
  shows "vFormat g' = ''day''"
proof -
  obtain l a b where l: "draw_table m now g l a b = Some g'" "vTaskList g' = l"
    using Draw_cases [OF assms(1,5)] by metis
  then have "vFormat g' = snd (draw_bars g (day_width (vFormat g)) (of_int (col_unit (vFormat g))) a l (vFormat g))"
    using draw_table_result [OF l(1)] by (metis snd_conv)
  then show ?thesis using draw_bars_format assms(2-4) l(2) by simp
qed


lemma ceil_of_int_div:
  assumes "0 < n" "(k - 1) * n < x \<and> x \<le> k * n"
  shows "\<lceil>rat_of_int x / rat_of_int n\<rceil> = k"
proof (rule ceiling_unique)
  have n: "0 < rat_of_int n" using assms(1) by simp
  have "rat_of_int ((k - 1) * n) < rat_of_int x" "rat_of_int x \<le> rat_of_int (k * n)"
    using assms(2) by (simp_all only: of_int_less_iff of_int_le_iff)
  then show "rat_of_int k - 1 < rat_of_int x / rat_of_int n" "rat_of_int x / rat_of_int n \<le> rat_of_int k"
    using n by (simp_all add: pos_less_divide_eq pos_divide_le_eq)
qed

lemma ceil_days:
  fixes d p q late :: int
  assumes "late = 1 \<and> q < p \<or> late = 0 \<and> p \<le> q" "0 \<le> p" "p < msPerDay" "0 \<le> q" "q < msPerDay"
  shows "(d + late - 1) * msPerDay < d * msPerDay + (p - q) \<and> d * msPerDay + (p - q) \<le> (d + late) * msPerDay"
  using assms by (elim disjE conjE) (simp_all add: distrib_right left_diff_distrib)

lemma small_gantt_drawn:
  assumes "fmt \<in> formats"
  shows "\<exists>m g'. Draw 3 m 5 (small_gantt fmt) = Some (Inr g') \<and> (\<exists>t \<in> set (vTaskList g'). vMile t = 0)"
proof -
  have "processRows 5 3 0 None 1 1 (vTaskList (small_gantt fmt)) \<noteq> None"
    unfolding small_gantt_simps small_chart_pass by simp
  then obtain m g' where d: "Draw 3 m 5 (small_gantt fmt) = Some (Inr g')"
    using Draw_after_pass [of 5 3 "small_gantt fmt"] assms small_gantt_simps(2) by (metis option.exhaust)
  obtain l where l: "processRows 5 3 0 None 1 1 small_chart = Some l" "vTaskList g' = l"
    using Draw_cases [OF d small_gantt_simps(3)] unfolding small_gantt_simps by metis
  have "vMile (small_chart ! 0) = 0" by (simp add: small_chart_def Let_def)
  then have "\<exists>t \<in> set (vTaskList g'). vMile t = 0"
    using l unfolding small_chart_pass by auto
  with d show ?thesis by blast
qed

lemma draw_forgets_format_witness:
  "\<exists>m g'. Draw 3 m 5 (small_gantt ''week'') = Some (Inr g') \<and> vFormat g' = ''day''"
proof -
  obtain m g' where d: "Draw 3 m 5 (small_gantt ''week'') = Some (Inr g')" "\<exists>t \<in> set (vTaskList g'). vMile t = 0"
    using small_gantt_drawn [of "''week''"] by (auto simp: formats_def)
  have "vFormat g' = ''day''" by (rule draw_forgets_format [OF d _ _ small_gantt_simps(3)]) (simp_all add: small_gantt_simps)
  with d(1) show ?thesis by blast
qed

text \<open>In the day format the bar of a task with a start begins in the column of its day when the task
  starts no later in its day than the time of day of the drawing, and one column further otherwise; in
  the second half of an hour it is moved on by half a column.\<close>

lemma day_bar_column:
  assumes "vStart t = Some s" "vMile t = 0"
  shows "let late = (if parse_of_date a mod msPerDay < parse_of_date s mod msPerDay then 1 else 0)
    in bar_left (fst (draw_bar g (day_width ''day'') 1 (Some a) t ''day''))
    = Some (19 * (day_of s - day_of a + late) + 1 + (if getMinutes (parse_of_date s) > 29 then 10 else 0))"
proof -
  define late :: int where "late = (if parse_of_date a mod msPerDay < parse_of_date s mod msPerDay then 1 else 0)"
  let ?p = "parse_of_date s" and ?q = "parse_of_date a"
  have parts: "day_of t * msPerDay + parse_of_date t mod msPerDay = parse_of_date t" for t
    unfolding day_of_parse [of t, symmetric] unfolding day_of_def by (rule div_mult_mod_eq)
  have diff: "?p - ?q = (day_of s - day_of a) * msPerDay + (?p mod msPerDay - ?q mod msPerDay)"
    using parts [of s] parts [of a] unfolding left_diff_distrib by linarith
  have "late = 1 \<and> ?q mod msPerDay < ?p mod msPerDay \<or> late = 0 \<and> ?p mod msPerDay \<le> ?q mod msPerDay"
    by (simp add: late_def)
  then have "(day_of s - day_of a + late - 1) * msPerDay < ?p - ?q \<and> ?p - ?q \<le> (day_of s - day_of a + late) * msPerDay"
    unfolding diff by (rule ceil_days) simp_all
  then have "\<lceil>rat_of_int (?p - ?q) / rat_of_int msPerDay\<rceil> = day_of s - day_of a + late"
    by (intro ceil_of_int_div) simp_all
  then have left: "task_left ''day'' (Some a) t
      = Some (of_int (day_of s - day_of a + late) + (if getMinutes ?p > 29 then 1 / 2 else 0))"
    by (simp add: task_left_def parsed_diff_def assms(1))
  have px: "pixels (Some 19) (Some (of_int k)) = Some (19 * k + 1)"
    "pixels (Some 19) (Some (of_int k + 1 / 2)) = Some (19 * k + 11)" for k
    unfolding pixels_def by (simp_all del: ceiling_add_of_int) (rule ceiling_unique; simp)+
  have "day_width ''day'' = Some 19" by (simp add: day_width_def col_width_def col_unit_def)
  then show ?thesis using left px [of "day_of s - day_of a + late"] assms(2)
    unfolding late_def [symmetric] Let_def
    by (simp add: draw_bar_def Let_def del: of_int_add of_int_diff)
qed

lemma day_bar_column_witness:
  "bar_left (fst (draw_bar (small_gantt ''day'') (day_width ''day'') 1 (Some (- 259200000)) (small_chart ! 1) ''day''))
     = Some 77"
  using day_bar_column [of "small_chart ! 1" 86400000 "- 259200000" "small_gantt ''day''"]
  by (simp add: small_chart_def Let_def parse_of_date_def day_of_def getMinutes_def)

section \<open>The columns of a chart\<close>

lemma draw_headers_Some:
  assumes "draw_headers m now fmt disp (Some mn) (Some mx) = Some (major, minor)"
  obtains left u where
    "header_loop m (major_cell fmt disp) (major_step fmt) id mx (day_of mn * msPerDay + now mod 60000) = Some (major, left)"
    "header_loop m (minor_cell now fmt mx) (minor_step fmt) fst mx
       (MakeDate (day_of mn) (left mod msPerDay), MakeDate (day_of mn) (now mod msPerDay)) = Some (minor, u)"
  using assms by (auto simp: draw_headers_def Let_def midnight bind_eq_Some_conv)

lemma minor_steps_day: "(minor_step ''day'' ^^ k) (t, u) = (t + int k * msPerDay, u)"
  by (induction k) (simp_all add: minor_step_def next_date_def distrib_right)

lemma major_step_day: "major_step ''day'' t = t + 7 * msPerDay"
  using setDate_shift [of t 6] setDate_next(1) [of "t + 6 * msPerDay"] by (simp add: major_step_def Let_def)

lemma major_steps_day: "(major_step ''day'' ^^ k) t = t + int k * (7 * msPerDay)"
  by (induction k) (simp_all add: major_step_day distrib_right)

text \<open>In the day format the lower row of dates has a cell for exactly the days whose moment, at the seconds of
  the drawing, is not past the last moment.\<close>

lemma day_header:
  assumes "draw_headers m now ''day'' disp (Some mn) (Some mx) = Some (major, minor)"
  shows "(\<forall>k. k < length minor \<longleftrightarrow> parse_of_date ((day_of mn + int k) * msPerDay + now mod 60000) \<le> parse_of_date mx)
    \<and> (\<forall>k < length minor. cell_text (minor ! k) = int_str (DateFromDay (day_of mn + int k))
         \<and> (cell_class (minor ! k) = ''gheadwkend'' \<longleftrightarrow> (day_of mn + int k + 4) mod 7 \<in> {0, 6}))"
proof -
  obtain left u where maj: "header_loop m (major_cell ''day'' disp) (major_step ''day'') id mx
        (day_of mn * msPerDay + now mod 60000) = Some (major, left)"
    and mnr: "header_loop m (minor_cell now ''day'' mx) (minor_step ''day'') fst mx
        (MakeDate (day_of mn) (left mod msPerDay), MakeDate (day_of mn) (now mod msPerDay)) = Some (minor, u)"
    using assms by (rule draw_headers_Some)
  have r: "0 \<le> now mod 60000" "now mod 60000 < 60000" by simp_all
  have "left = day_of mn * msPerDay + now mod 60000 + int (length major) * (7 * msPerDay)"
    using header_loop_result [OF maj] major_steps_day by simp
  then have "left mod msPerDay = now mod 60000" using r by (simp add: mod_add_eq [symmetric])
  then have start: "(MakeDate (day_of mn) (left mod msPerDay)) = day_of mn * msPerDay + now mod 60000"
    by (simp add: MakeDate_def)
  define moment where "moment k = (day_of mn + int k) * msPerDay + now mod 60000" for k
  have iter: "(minor_step ''day'' ^^ k) (day_of mn * msPerDay + now mod 60000, MakeDate (day_of mn) (now mod msPerDay))
      = (moment k, MakeDate (day_of mn) (now mod msPerDay))" for k
    by (simp add: minor_steps_day moment_def distrib_right)
  note res = header_loop_result [OF mnr, unfolded start iter]
  have day: "day_of (moment k) = day_of mn + int k" for k using r by (simp add: moment_def day_of_def)
  have "k < length minor" if "parse_of_date (moment k) \<le> parse_of_date mx" for k
  proof (rule ccontr)
    assume "\<not> k < length minor"
    then have "moment (length minor) \<le> moment k" by (simp add: moment_def)
    from parse_mono [OF this] that res show False by auto
  qed
  moreover have "minor ! k = minor_cell now ''day'' mx (moment k, MakeDate (day_of mn) (now mod msPerDay))" if "k < length minor" for k
    using res that by (metis (no_types, lifting) add.left_neutral diff_zero length_upt nth_map nth_upt)
  moreover have "getDay (moment k) mod 6 = 0 \<longleftrightarrow> (day_of mn + int k + 4) mod 7 \<in> {0, 6}" for k
    using getDay_range [of "moment k"] day [of k] unfolding getDay_def day_of_def [symmetric] by auto
  moreover have "getDate (moment k) = DateFromDay (day_of mn + int k)" for k using day by (simp add: fields_day)
  ultimately show ?thesis using res unfolding moment_def [symmetric]
    by (auto simp: minor_cell_def Let_def)
qed

lemma Draw_span:
  assumes "Draw n m now g = Some (Inr g')" "vTaskList g \<noteq> []" "vDiv g' = Some d"
  obtains a b where "getMinDate now (vTaskList g') (vFormat g) = Inr a" "getMaxDate now (vTaskList g') (vFormat g) = Inr b"
    "draw_headers m now (vFormat g) (vDateDisplayFormat g) a b = Some (major_cells d, minor_cells d)"
proof -
  obtain l a b where l: "getMinDate now l (vFormat g) = Inr a" "getMaxDate now l (vFormat g) = Inr b"
    "draw_table m now g l a b = Some g'" "vTaskList g' = l" using Draw_cases [OF assms(1,2)] by metis
  with draw_table_result [OF l(3)] assms(3) that show thesis by auto
qed

text \<open>C39: the page that \<open>Draw\<close> writes in the day format has in its lower row of dates one cell for each day, from
  the day of the first moment of the chart on and in order, whose moment at the seconds of the drawing is not
  past the last moment of the chart, and no other cell; a cell has its day of the month, and the Saturdays
  and Sundays are marked.\<close>

theorem day_columns:
  assumes "Draw n m now g = Some (Inr g')" "vTaskList g \<noteq> []" "vFormat g = ''day''" "vDiv g' = Some d"
    and "getMinDate now (vTaskList g') ''day'' = Inr (Some mn)" "getMaxDate now (vTaskList g') ''day'' = Inr (Some mx)"
  shows "(\<forall>k. k < length (minor_cells d)
        \<longleftrightarrow> parse_of_date ((day_of mn + int k) * msPerDay + now mod 60000) \<le> parse_of_date mx)
    \<and> (\<forall>k < length (minor_cells d). cell_text (minor_cells d ! k) = int_str (DateFromDay (day_of mn + int k))
         \<and> (cell_class (minor_cells d ! k) = ''gheadwkend'' \<longleftrightarrow> (day_of mn + int k + 4) mod 7 \<in> {0, 6}))"
proof -
  obtain a b where h: "getMinDate now (vTaskList g') ''day'' = Inr a" "getMaxDate now (vTaskList g') ''day'' = Inr b"
    "draw_headers m now ''day'' (vDateDisplayFormat g) a b = Some (major_cells d, minor_cells d)"
    using Draw_span [OF assms(1,2,4)] unfolding assms(3) by blast
  then have "draw_headers m now ''day'' (vDateDisplayFormat g) (Some mn) (Some mx) = Some (major_cells d, minor_cells d)"
    using assms(5,6) by simp
  then show ?thesis by (rule day_header)
qed

theorem day_columns_witness:
  "\<exists>m g' d mn mx. Draw 3 m 5 (small_gantt ''day'') = Some (Inr g') \<and> vDiv g' = Some d
     \<and> getMinDate 5 (vTaskList g') ''day'' = Inr (Some mn) \<and> getMaxDate 5 (vTaskList g') ''day'' = Inr (Some mx)
     \<and> cell_text (minor_cells d ! 0) = int_str (DateFromDay (day_of mn))"
proof -
  obtain m g' where d: "Draw 3 m 5 (small_gantt ''day'') = Some (Inr g')"
    using small_gantt_drawn [of "''day''"] by (auto simp: formats_def)
  obtain l where l: "processRows 5 3 0 None 1 1 small_chart = Some l" "vTaskList g' = l"
    using Draw_cases [OF d small_gantt_simps(3)] unfolding small_gantt_simps by metis
  have rows: "\<forall>t \<in> set (vTaskList g'). \<exists>s. vStart t = Some s" "\<forall>t \<in> set (vTaskList g'). \<exists>e. vEnd t = Some e"
    "vTaskList g' \<noteq> []" "first_day (vTaskList g') = 1" "last_day (vTaskList g') = 3"
    using l(1) unfolding small_chart_pass l(2)
    by (auto simp: small_chart_def Let_def first_day_def last_day_def day_of_def)
  obtain mn where mn: "getMinDate 5 (vTaskList g') ''day'' = Inr (Some mn)" "day_of mn < 1" "mn mod msPerDay = 5"
    using day_chart_span(1) [OF rows(3,1,2), of 5] rows(4) by auto
  obtain mx where mx: "getMaxDate 5 (vTaskList g') ''day'' = Inr (Some mx)" "3 \<le> day_of mx"
    using day_chart_span(2) [OF rows(3,1,2), of 5] rows(5) by auto
  obtain dr where dr: "vDiv g' = Some dr" using draw_table_result Draw_cases [OF d small_gantt_simps(3)] by metis
  note cols = day_columns [OF d small_gantt_simps(3) small_gantt_simps(2) dr mn(1) mx(1)]
  have "parse_of_date (day_of mn * msPerDay + 5) \<le> parse_of_date mx"
    using mn(2) mx(2) div_mult_mod_eq [of mx msPerDay] pos_mod_sign [of msPerDay mx]
    by (intro parse_mono) (simp add: day_of_def)
  then have "0 < length (minor_cells dr)" using cols by simp
  then have "cell_text (minor_cells dr ! 0) = int_str (DateFromDay (day_of mn))" using cols by force
  with d dr mn(1) mx(1) show ?thesis by blast
qed

lemma minute_steps: "(major_step ''minute'' ^^ k) t = t + int k * 3600000"
  by (induction k) (simp_all add: major_step_def minute_forward(3) distrib_right)

lemma hour_of_parse: "parse_of_date a \<le> parse_of_date b \<Longrightarrow> a div 3600000 \<le> b div 3600000"
proof -
  assume "parse_of_date a \<le> parse_of_date b"
  then have "a div 1000 div 3600 \<le> b div 1000 div 3600" by (simp add: parse_of_date_def zdiv_mono1)
  then show ?thesis by (simp add: zdiv_zmult2_eq [symmetric])
qed

text \<open>In the minute format the lower row starts at the hour at which the upper row ended: on a chart of
  a single day that ends before its last hour there is not a single minute in it.\<close>

lemma minute_header_lost:
  assumes "draw_headers m now ''minute'' disp (Some mn) (Some mx) = Some (major, minor)"
    "day_of mn = day_of mx" "getHours mx < 23"
  shows "minor = []"
proof -
  let ?t = "day_of mn * msPerDay + now mod 60000"
  obtain left u where maj: "header_loop m (major_cell ''minute'' disp) (major_step ''minute'') id mx ?t = Some (major, left)"
    and mnr: "header_loop m (minor_cell now ''minute'' mx) (minor_step ''minute'') fst mx
        (MakeDate (day_of mn) (left mod msPerDay), MakeDate (day_of mn) (now mod msPerDay)) = Some (minor, u)"
    using assms(1) by (rule draw_headers_Some)
  have r: "0 \<le> now mod 60000" "now mod 60000 < 60000" by simp_all
  let ?k = "int (length major)"
  have left: "left = ?t + ?k * 3600000" and past: "parse_of_date mx < parse_of_date left"
    using header_loop_result [OF maj] by (auto simp: minute_steps)
  have mx: "mx div 3600000 = day_of mn * 24 + getHours mx"
  proof -
    have "mx = day_of mx * 24 * 3600000 + mx mod msPerDay" by (simp add: day_of_def)
    then have "mx div 3600000 = day_of mx * 24 + mx mod msPerDay div 3600000" by (metis div_mult_self3 zero_neq_numeral)
    then show ?thesis using assms(2) by (simp add: getHours_def)
  qed
  have "?k \<le> 23"
  proof (cases "length major")
    case (Suc j)
    then have "parse_of_date (?t + int j * 3600000) \<le> parse_of_date mx"
      using header_loop_result [OF maj] by (simp add: minute_steps)
    moreover have "(?t + int j * 3600000) div 3600000 = day_of mn * 24 + int j"
    proof -
      have e: "?t + int j * 3600000 = (day_of mn * 24 + int j) * 3600000 + now mod 60000" by simp
      have "now mod 60000 div 3600000 = 0" using r by (intro div_pos_pos_trivial) simp_all
      then show ?thesis unfolding e by (simp only: div_mult_self3)
    qed
    ultimately show ?thesis using hour_of_parse mx assms(3) Suc by fastforce
  qed simp
  then have "day_of left = day_of mn" unfolding left using r
    by (simp add: day_of_def)
  then have "MakeDate (day_of mn) (left mod msPerDay) = left" using same_day_time [of left] by simp
  with mnr past show ?thesis by (cases m) auto
qed

lemma minute_header_lost_witness:
  "\<exists>m major. draw_headers m 0 ''minute'' ''mm/dd/yy'' (Some 0) (Some 39540000) = Some (major, [])"
proof -
  obtain m hs where "draw_headers m 0 ''minute'' ''mm/dd/yy'' (Some 0) (Some 39540000) = Some hs"
    using draw_headers_end [of "''minute''" 0 "''mm/dd/yy''" "Some 0" "Some 39540000"] by (auto simp: formats_def)
  then obtain major minor where h: "draw_headers m 0 ''minute'' ''mm/dd/yy'' (Some 0) (Some 39540000) = Some (major, minor)"
    by (cases hs) auto
  have "minor = []" using minute_header_lost [OF h] by (simp add: day_of_def getHours_def)
  with h show ?thesis by blast
qed

text \<open>A format that the code does not know is shown for ever: no number of rounds is enough.\<close>

lemma unknown_format_hangs:
  assumes "fmt \<notin> formats" "day_of mn < day_of mx"
  shows "draw_headers m now fmt disp (Some mn) (Some mx) = None"
proof -
  have "day_of mn * msPerDay + now mod 60000 < day_of mx * msPerDay"
    using assms(2) pos_mod_bound [of 60000 now] mult_right_mono [of "day_of mn + 1" "day_of mx" msPerDay]
    by (simp add: distrib_right)
  also have "\<dots> \<le> mx" using div_mult_mod_eq [of mx msPerDay] pos_mod_sign [of msPerDay mx] by (simp add: day_of_def)
  finally have "parse_of_date (id (day_of mn * msPerDay + now mod 60000)) \<le> parse_of_date mx"
    by (simp add: parse_mono)
  moreover have "major_step fmt t = t" for t using assms(1) by (simp add: major_step_def formats_def)
  ultimately show ?thesis by (simp add: draw_headers_def Let_def midnight header_loop_stuck)
qed

section \<open>From drawing to folding\<close>

lemma draw_bars_rows:
  "map (\<lambda>b. (bar_id b, bar_hidden b)) (fst (draw_bars g w unit vMin l fmt)) = map (\<lambda>t. (vID t, vVisible t = 0)) l"
  by (induction l arbitrary: fmt) (auto simp: draw_bar_def split_def Let_def)

lemma shape_ids: "map vID l = map fst (shape_of l)"
  by (simp add: shape_of_def comp_def)

text \<open>C34: the page that \<open>Draw\<close> writes has a row on both sides for every task and a marker for every group,
  hidden where the pass over the tasks made them invisible, and so every click on the marker of a group
  that is reached is carried out.\<close>

theorem drawn_chart_folds:
  assumes "unique_ids (vTaskList g)" "vTaskList g \<noteq> []" "Draw n m now g = Some (Inr g')"
  shows "\<exists>d. vDiv g' = Some d \<and> unique_ids (vTaskList g') \<and> drawn (drawn_view g' d)
    \<and> (\<forall>t \<in> set (vTaskList g'). row_display (drawn_view g' d) (vID t) = Some (if vVisible t = 0 then ''none'' else [])
         \<and> grid_display (drawn_view g' d) (vID t) = Some (if vVisible t = 0 then ''none'' else []))
    \<and> (\<forall>j. under (shape_of (vTaskList g')) 0 j \<and> vGroup (vTaskList g' ! j) = 1 \<longrightarrow>
         (\<exists>w. folder (length (vTaskList g') + 1) (vID (vTaskList g' ! j)) (drawn_view g' d) = Inr w))"
proof -
  obtain l a b where l: "processRows now n 0 None 1 1 (vTaskList g) = Some l" "draw_table m now g l a b = Some g'"
    using Draw_cases [OF assms(3,2)] by metis
  obtain bs d where d: "draw_bars g (day_width (vFormat g)) (of_int (col_unit (vFormat g))) a l (vFormat g) = (bs, vFormat g')"
    "vTaskList g' = l" "vDiv g' = Some d" "left_rows d = map (draw_left_row g) l" "bars d = bs"
    using draw_table_result [OF l(2)] by blast
  have ids: "map vID l = map vID (vTaskList g)" using processRows_shape [OF l(1)] by (simp add: shape_ids)
  then have unique: "unique_ids l" using assms(1) unfolding unique_ids_def set_map [symmetric] by simp
  then have dist: "distinct (map vID l)" by (simp add: unique_ids_def)
  let ?v = "drawn_view g' d"
  let ?shown = "\<lambda>t. if vVisible t = 0 then ''none'' else []"
  have "row_display ?v = map_of (map (\<lambda>t. (vID t, ?shown t)) l)"
    by (simp add: drawn_view_def d(4) comp_def draw_left_row_def)
  moreover have "map (\<lambda>(i, h). (i, if h then ''none'' else [])) (map (\<lambda>b. (bar_id b, bar_hidden b)) bs)
      = map (\<lambda>(i, h). (i, if h then ''none'' else [])) (map (\<lambda>t. (vID t, vVisible t = 0)) l)"
    using draw_bars_rows [of g "day_width (vFormat g)" "of_int (col_unit (vFormat g))" a l "vFormat g"]
    by (simp only: d(1) fst_conv)
  then have "map (\<lambda>b. (bar_id b, if bar_hidden b then ''none'' else [])) bs = map (\<lambda>t. (vID t, ?shown t)) l"
    by (simp add: comp_def)
  then have "grid_display ?v = map_of (map (\<lambda>t. (vID t, ?shown t)) l)" by (simp add: drawn_view_def d(5))
  moreover have "map_of (map (\<lambda>t. (vID t, ?shown t)) l) (vID t) = Some (?shown t)" if "t \<in> set l" for t
    using that dist by (intro map_of_is_SomeI) (auto simp: comp_def)
  ultimately have shown: "row_display ?v (vID t) = Some (?shown t)" "grid_display ?v (vID t) = Some (?shown t)"
    if "t \<in> set l" for t using that by simp_all
  have "group_marker ?v (vID t) \<noteq> None" if "t \<in> set l" "vGroup t = 1" for t
    unfolding drawn_view_def chart_view.simps d(4) map_of_eq_None_iff
    using that by (force simp: draw_left_row_def split: option.splits)
  then have drawn: "drawn ?v" using shown by (auto simp: drawn_def drawn_view_def d(2))
  have tasks: "tasks ?v = l" by (simp add: drawn_view_def d(2))
  have "\<exists>w. folder (length l + 1) (vID (l ! j)) ?v = Inr w" if "under (shape_of l) 0 j" "vGroup (l ! j) = 1" for j
    using folder_works [of ?v j] unique drawn that by (simp add: tasks)
  then show ?thesis using d(2,3) unique drawn shown by auto
qed


theorem drawn_chart_folds_witness:
  "\<exists>m g' d w. Draw 3 m 5 (small_gantt ''day'') = Some (Inr g') \<and> vDiv g' = Some d
     \<and> drawn (drawn_view g' d) \<and> folder 3 1 (drawn_view g' d) = Inr w"
proof -
  obtain m g' where d: "Draw 3 m 5 (small_gantt ''day'') = Some (Inr g')"
    using small_gantt_drawn [of "''day''"] by (auto simp: formats_def)
  obtain l where l: "processRows 5 3 0 None 1 1 small_chart = Some l" "vTaskList g' = l"
    using Draw_cases [OF d small_gantt_simps(3)] unfolding small_gantt_simps by metis
  have "shape_of (vTaskList g') = shape_of small_chart" using processRows_shape [OF l(1)] l(2) by simp
  then have sh: "under (shape_of (vTaskList g')) 0 0" using small_chart_group by simp
  have e: "length (vTaskList g') = 2" "vID (vTaskList g' ! 0) = 1" "vGroup (vTaskList g' ! 0) = 1"
    using l(1) small_chart_rows unfolding small_chart_pass l(2) by auto
  obtain dr where dr: "vDiv g' = Some dr" "drawn (drawn_view g' dr)"
    "\<forall>j. under (shape_of (vTaskList g')) 0 j \<and> vGroup (vTaskList g' ! j) = 1 \<longrightarrow>
       (\<exists>w. folder (length (vTaskList g') + 1) (vID (vTaskList g' ! j)) (drawn_view g' dr) = Inr w)"
    using drawn_chart_folds [OF _ small_gantt_simps(3) d] small_chart_ids small_gantt_simps(1) by metis
  then obtain w where "folder (length (vTaskList g') + 1) (vID (vTaskList g' ! 0)) (drawn_view g' dr) = Inr w"
    using sh e(3) by blast
  then have "folder 3 1 (drawn_view g' dr) = Inr w" by (simp add: e numeral_3_eq_3)
  with d dr(1,2) show ?thesis by blast
qed

end
