(* ===== verification/Gantt_Links.thy ===== *)
theory Gantt_Links
  imports Gantt_Task Complex_Main
begin

text \<open>
  The dependency lines of a drawn chart: \<open>CalcTaskXY\<close>, \<open>sLine\<close>, \<open>dLine\<close>, \<open>drawDependency\<close>,
  \<open>clearDependencies\<close>, \<open>getArrayLocationByID\<close> and \<open>DrawDependencies\<close> of \<open>JSGantt.GanttChart\<close>.  A line is an
  absolutely placed box appended to the element \<open>rightside\<close>.  Coordinates are whole numbers; the steps
  of \<open>dLine\<close> are fractions.
\<close>

section \<open>The lines of a chart\<close>

text \<open>The number of a line is the one in its id, \<open>line\<close> followed by the number.\<close>

record line =
  line_no :: nat
  line_left :: int
  line_top :: int
  line_width :: int
  line_height :: int

text \<open>The layout that the browser gives to the bars, left, top and width, and to the rows that hold them,
  by the identifier of the task.\<close>

record links =
  rows :: "task list"
  bar_offset :: "int \<Rightarrow> (int \<times> int \<times> int) option"
  grid_offset :: "int \<Rightarrow> int option"
  right_side :: "line list option"
  vDepId :: nat

definition place_task :: "links \<Rightarrow> task \<Rightarrow> task result" where
  "place_task s t =
     (case bar_offset s (vID t) of
        None \<Rightarrow> Inr t
      | Some (l, tp, w) \<Rightarrow>
          (case grid_offset s (vID t) of
             None \<Rightarrow> Inl TypeError
           | Some g \<Rightarrow> Inr (t\<lparr>x1 := l, y1 := g + tp + 6, x2 := l + w, y2 := g + tp + 6\<rparr>)))"

definition CalcTaskXY :: "links \<Rightarrow> links result" where
  "CalcTaskXY s =
     each_result (\<lambda>i s. and_then (place_task s (rows s ! i)) (\<lambda>t. Inr (s\<lparr>rows := (rows s)[i := t]\<rparr>)))
       [0..<length (rows s)] s"

text \<open>The first element with the id is removed from its parent.\<close>

definition remove_line :: "nat \<Rightarrow> line list \<Rightarrow> line list" where
  "remove_line n ls = takeWhile (\<lambda>l. line_no l \<noteq> n) ls @ tl (dropWhile (\<lambda>l. line_no l \<noteq> n) ls)"

definition clearDependencies :: "links \<Rightarrow> links" where
  "clearDependencies s =
     s\<lparr>right_side := map_option (fold remove_line [1..<vDepId s]) (right_side s), vDepId := 1\<rparr>"

definition new_line :: "nat \<Rightarrow> int \<Rightarrow> int \<Rightarrow> int \<Rightarrow> int \<Rightarrow> line" where
  "new_line n a b c d =
     \<lparr>line_no = n, line_left = min a c, line_top = min b d, line_width = \<bar>c - a\<bar> + 1, line_height = \<bar>d - b\<bar> + 1\<rparr>"

definition sLine :: "int \<Rightarrow> int \<Rightarrow> int \<Rightarrow> int \<Rightarrow> links \<Rightarrow> links result" where
  "sLine a b c d s =
     (case right_side s of
        None \<Rightarrow> Inl TypeError
      | Some ls \<Rightarrow> Inr (s\<lparr>right_side := Some (ls @ [new_line (vDepId s) a b c d]), vDepId := vDepId s + 1\<rparr>))"

definition js_round :: "rat \<Rightarrow> int" where
  "js_round q = \<lfloor>q + 1 / 2\<rfloor>"

fun dLine_loop :: "nat \<Rightarrow> rat \<Rightarrow> rat \<Rightarrow> rat \<Rightarrow> rat \<Rightarrow> links \<Rightarrow> links result" where
  "dLine_loop 0 x y dx dy s = Inr s"
| "dLine_loop (Suc k) x y dx dy s =
     and_then (sLine (js_round x) (js_round y) (js_round x) (js_round y) s) (dLine_loop k (x + dx) (y + dy) dx dy)"

text \<open>A line from a point to itself is one dot: the quotient is not used then.\<close>

definition dLine :: "int \<Rightarrow> int \<Rightarrow> int \<Rightarrow> int \<Rightarrow> links \<Rightarrow> links result" where
  "dLine a b c d s =
     (let n = max \<bar>c - a\<bar> \<bar>d - b\<bar>
      in dLine_loop (nat n + 1) (of_int a) (of_int b) (of_int (c - a) / of_int n) (of_int (d - b) / of_int n) s)"

datatype stroke = Straight int int int int | Diagonal int int int int

fun draw_stroke :: "stroke \<Rightarrow> links \<Rightarrow> links result" where
  "draw_stroke (Straight a b c d) s = sLine a b c d s"
| "draw_stroke (Diagonal a b c d) s = dLine a b c d s"

definition arrow_strokes :: "int \<Rightarrow> int \<Rightarrow> stroke list" where
  "arrow_strokes x y =
     [Diagonal x y (x - 3) (y - 3), Diagonal x y (x - 3) (y + 3),
      Diagonal (x - 1) y (x - 3) (y - 2), Diagonal (x - 1) y (x - 3) (y + 2)]"

definition path_strokes :: "int \<Rightarrow> int \<Rightarrow> int \<Rightarrow> int \<Rightarrow> stroke list" where
  "path_strokes a b c d =
     (if a + 10 < c
      then [Straight a b (a + 4) b, Straight (a + 4) b (a + 4) d, Straight (a + 4) d c d]
      else [Straight a b (a + 4) b, Straight (a + 4) b (a + 4) (d - 10), Straight (a + 4) (d - 10) (c - 8) (d - 10),
            Straight (c - 8) (d - 10) (c - 8) d, Straight (c - 8) d c d])"

definition drawDependency :: "int \<Rightarrow> int \<Rightarrow> int \<Rightarrow> int \<Rightarrow> links \<Rightarrow> links result" where
  "drawDependency a b c d s = each_result draw_stroke (path_strokes a b c d @ arrow_strokes c d) s"

section \<open>All dependencies\<close>

text \<open>The identifier, a number, is compared with the text by converting the text: white space around it
  is ignored, and no text at all is zero.  Numerals with a point, an exponent or a radix are left out.\<close>

definition to_number :: "string \<Rightarrow> int option" where
  "to_number str =
     (let t = rev (dropWhile is_space (rev (dropWhile is_space str)));
          digits = (if t \<noteq> [] \<and> hd t \<in> {CHR ''-'', CHR ''+''} then tl t else t)
      in if t = [] then Some 0
         else if digits \<noteq> [] \<and> list_all is_digit digits then parseInt t else None)"

definition getArrayLocationByID :: "string \<Rightarrow> links \<Rightarrow> nat option" where
  "getArrayLocationByID pId s = find (\<lambda>i. to_number pId = Some (vID (rows s ! i))) [0..<length (rows s)]"

text \<open>An unknown identifier gives \<open>undefined\<close>, and so does the element of the list with that index.\<close>

definition draw_link :: "nat \<Rightarrow> string \<Rightarrow> links \<Rightarrow> links result" where
  "draw_link i dep s =
     (case getArrayLocationByID dep s of
        None \<Rightarrow> Inl TypeError
      | Some k \<Rightarrow>
          let t = rows s ! k; u = rows s ! i
          in if vVisible t = 1 then drawDependency (x2 t) (y2 t) (x1 u - 1) (y1 u) s else Inr s)"

definition draw_links :: "nat \<Rightarrow> links \<Rightarrow> links result" where
  "draw_links i s =
     (case getDepend (rows s ! i) of
        None \<Rightarrow> Inr s
      | Some d \<Rightarrow> each_result (draw_link i) (split d '','') s)"

definition DrawDependencies :: "links \<Rightarrow> links result" where
  "DrawDependencies s =
     and_then (CalcTaskXY s) (\<lambda>s. let s = clearDependencies s in each_result draw_links [0..<length (rows s)] s)"

section \<open>What drawing adds\<close>

text \<open>\<open>adds f\<close>: the operation appends some lines, whatever is there, and numbers them on.\<close>

definition append_lines :: "(int \<times> int \<times> int \<times> int) list \<Rightarrow> links \<Rightarrow> links" where
  "append_lines ps s =
     s\<lparr>right_side := map_option (\<lambda>ls. ls @ map (\<lambda>(n, a, b, c, d). new_line n a b c d) (zip [vDepId s..<vDepId s + length ps] ps))
         (right_side s),
       vDepId := vDepId s + length ps\<rparr>"

definition draws :: "(links \<Rightarrow> links result) \<Rightarrow> (int \<times> int \<times> int \<times> int) list \<Rightarrow> bool" where
  "draws f ps \<longleftrightarrow> (\<forall>s. right_side s \<noteq> None \<longrightarrow> f s = Inr (append_lines ps s))"

lemma append_lines_simps [simp]:
  "append_lines [] s = s" "rows (append_lines ps s) = rows s" "vDepId (append_lines ps s) = vDepId s + length ps"
  "right_side (append_lines ps s) = None \<longleftrightarrow> right_side s = None"
  "bar_offset (append_lines ps s) = bar_offset s" "grid_offset (append_lines ps s) = grid_offset s"
  by (simp_all add: append_lines_def option.map_ident)

lemma append_lines_twice: "append_lines qs (append_lines ps s) = append_lines (ps @ qs) s"
proof -
  have "[vDepId s..<vDepId s + (length ps + length qs)]
      = [vDepId s..<vDepId s + length ps] @ [vDepId s + length ps..<vDepId s + length ps + length qs]"
    by (metis add.assoc le_add1 upt_add_eq_append)
  then show ?thesis by (cases "right_side s") (simp_all add: append_lines_def add.assoc)
qed

lemma draws_sLine: "draws (sLine a b c d) [(a, b, c, d)]"
  by (auto simp: draws_def sLine_def append_lines_def)

lemma draws_nothing: "draws Inr []"
  by (simp add: draws_def)

lemma draws_then: "draws f ps \<Longrightarrow> draws g qs \<Longrightarrow> draws (\<lambda>s. and_then (f s) g) (ps @ qs)"
  unfolding draws_def using append_lines_twice append_lines_simps(4) by (metis and_then_simps(2))

lemma draws_each: "(\<And>x. x \<in> set xs \<Longrightarrow> draws (f x) (g x)) \<Longrightarrow> draws (each_result f xs) (concat (map g xs))"
proof (induction xs)
  case (Cons x xs)
  then show ?case using draws_then [of "f x" "g x" "each_result f xs"] by simp
qed (simp add: draws_def)

definition dots :: "nat \<Rightarrow> rat \<Rightarrow> rat \<Rightarrow> rat \<Rightarrow> rat \<Rightarrow> (int \<times> int \<times> int \<times> int) list" where
  "dots n x y dx dy =
     map (\<lambda>k. let u = js_round (x + of_nat k * dx); v = js_round (y + of_nat k * dy) in (u, v, u, v)) [0..<n]"

lemma dots_Suc: "dots (Suc n) x y dx dy = (js_round x, js_round y, js_round x, js_round y) # dots n (x + dx) (y + dy) dx dy"
  by (simp add: dots_def upt_rec [of 0] map_Suc_upt [symmetric] Let_def algebra_simps del: upt_Suc)

lemma draws_dLine_loop: "draws (dLine_loop n x y dx dy) (dots n x y dx dy)"
proof (induction n arbitrary: x y)
  case 0
  then show ?case using draws_nothing by (simp add: dots_def draws_def)
next
  case (Suc n)
  show ?case using draws_then [OF draws_sLine Suc] by (simp add: dots_Suc draws_def)
qed

lemma js_round_of_int [simp]: "js_round (of_int z) = z"
  unfolding js_round_def by (rule floor_unique) simp_all

text \<open>A diagonal at 45 degrees is the dots on it.\<close>

definition diagonal :: "nat \<Rightarrow> int \<Rightarrow> int \<Rightarrow> int \<Rightarrow> int \<Rightarrow> (int \<times> int \<times> int \<times> int) list" where
  "diagonal n x y sx sy = map (\<lambda>k. (x + int k * sx, y + int k * sy, x + int k * sx, y + int k * sy)) [0..<n + 1]"

lemma draws_diagonal:
  assumes "\<bar>sx\<bar> = 1" "\<bar>sy\<bar> = 1" "0 < n"
  shows "draws (dLine x y (x + int n * sx) (y + int n * sy)) (diagonal n x y sx sy)"
proof -
  have s: "max \<bar>int n * sx\<bar> \<bar>int n * sy\<bar> = int n" using assms by (simp add: abs_mult)
  have d: "dots (n + 1) (of_int x) (of_int y) (of_int sx) (of_int sy) = diagonal n x y sx sy"
  proof -
    have "rat_of_int u + rat_of_nat k * rat_of_int v = rat_of_int (u + int k * v)" for u v k by simp
    then show ?thesis unfolding dots_def diagonal_def Let_def by (simp only: js_round_of_int)
  qed
  have "dLine x y (x + int n * sx) (y + int n * sy) = dLine_loop (n + 1) (of_int x) (of_int y) (of_int sx) (of_int sy)"
    using assms(3) by (intro ext) (simp add: dLine_def s Let_def)
  then show ?thesis using draws_dLine_loop [of "n + 1" "of_int x" "of_int y" "of_int sx" "of_int sy"] d by simp
qed

definition path_lines :: "int \<Rightarrow> int \<Rightarrow> int \<Rightarrow> int \<Rightarrow> (int \<times> int \<times> int \<times> int) list" where
  "path_lines a b c d =
     (if a + 10 < c
      then [(a, b, a + 4, b), (a + 4, b, a + 4, d), (a + 4, d, c, d)]
      else [(a, b, a + 4, b), (a + 4, b, a + 4, d - 10), (a + 4, d - 10, c - 8, d - 10),
            (c - 8, d - 10, c - 8, d), (c - 8, d, c, d)])"

definition arrow_lines :: "int \<Rightarrow> int \<Rightarrow> (int \<times> int \<times> int \<times> int) list" where
  "arrow_lines x y =
     diagonal 3 x y (- 1) (- 1) @ diagonal 3 x y (- 1) 1 @ diagonal 2 (x - 1) y (- 1) (- 1) @ diagonal 2 (x - 1) y (- 1) 1"

fun stroke_lines :: "stroke \<Rightarrow> (int \<times> int \<times> int \<times> int) list" where
  "stroke_lines (Straight a b c d) = [(a, b, c, d)]"
| "stroke_lines (Diagonal a b c d) = diagonal (nat \<bar>c - a\<bar>) a b (sgn (c - a)) (sgn (d - b))"

lemma draws_stroke:
  assumes "case st of Straight a b c d \<Rightarrow> True | Diagonal a b c d \<Rightarrow> \<bar>c - a\<bar> = \<bar>d - b\<bar> \<and> c \<noteq> a"
  shows "draws (draw_stroke st) (stroke_lines st)"
proof (cases st)
  case (Straight a b c d)
  then show ?thesis using draws_sLine [of a b c d] by (simp add: draws_def)
next
  case (Diagonal a b c d)
  let ?n = "nat \<bar>c - a\<bar>"
  have "c = a + int ?n * sgn (c - a)" "d = b + int ?n * sgn (d - b)" "\<bar>sgn (c - a)\<bar> = 1" "\<bar>sgn (d - b)\<bar> = 1" "0 < ?n"
    using assms Diagonal by (auto simp: sgn_if abs_if split: if_splits)
  then show ?thesis using draws_diagonal [of "sgn (c - a)" "sgn (d - b)" ?n a b] Diagonal by (simp add: draws_def)
qed

lemma draws_dependency: "draws (drawDependency a b c d) (path_lines a b c d @ arrow_lines c d)"
proof -
  have "draws (each_result draw_stroke (path_strokes a b c d @ arrow_strokes c d))
      (concat (map stroke_lines (path_strokes a b c d @ arrow_strokes c d)))"
    by (intro draws_each draws_stroke) (auto simp: path_strokes_def arrow_strokes_def split: if_splits)
  moreover have "concat (map stroke_lines (path_strokes a b c d @ arrow_strokes c d)) = path_lines a b c d @ arrow_lines c d"
    by (simp add: path_strokes_def arrow_strokes_def path_lines_def arrow_lines_def)
  ultimately show ?thesis by (simp add: draws_def drawDependency_def)
qed

section \<open>The line from a task to the one that depends on it\<close>

definition covers :: "line \<Rightarrow> int \<Rightarrow> int \<Rightarrow> bool" where
  "covers l x y \<longleftrightarrow>
     line_left l \<le> x \<and> x < line_left l + line_width l \<and> line_top l \<le> y \<and> y < line_top l + line_height l"

definition number_lines :: "nat \<Rightarrow> (int \<times> int \<times> int \<times> int) list \<Rightarrow> line list" where
  "number_lines n ps = map (\<lambda>(n, a, b, c, d). new_line n a b c d) (zip [n..<n + length ps] ps)"

lemma number_lines_simps [simp]:
  "number_lines n [] = []" "length (number_lines n ps) = length ps" "map line_no (number_lines n ps) = [n..<n + length ps]"
  by (simp_all add: number_lines_def comp_def split_def new_line_def map_fst_zip [unfolded comp_def])

lemma number_lines_Cons [simp]:
  "number_lines n ((a, b, c, d) # ps) = new_line n a b c d # number_lines (Suc n) ps"
  by (simp add: number_lines_def upt_rec)

lemma number_lines_append: "number_lines n (ps @ qs) = number_lines n ps @ number_lines (n + length ps) qs"
  by (induction ps arbitrary: n) auto

lemma append_lines_number:
  "right_side s = Some ls \<Longrightarrow>
   append_lines ps s = s\<lparr>right_side := Some (ls @ number_lines (vDepId s) ps), vDepId := vDepId s + length ps\<rparr>"
  by (simp add: append_lines_def number_lines_def)

lemma number_lines_all:
  "list_all (\<lambda>(a, b, c, d). \<forall>m. P (new_line m a b c d)) ps \<Longrightarrow> list_all P (number_lines n ps)"
  by (induction ps arbitrary: n) auto

lemma arrow_near_tip:
  "list_all (\<lambda>l. line_width l = 1 \<and> line_height l = 1 \<and> c - 3 \<le> line_left l \<and> line_left l \<le> c
     \<and> d - 3 \<le> line_top l \<and> line_top l \<le> d + 3) (number_lines n (arrow_lines c d))"
  by (rule number_lines_all) (simp add: arrow_lines_def diagonal_def upt_rec new_line_def)

lemma length_arrow_lines: "length (arrow_lines c d) = 14"
  by (simp add: arrow_lines_def diagonal_def)

text \<open>Consecutive lines of a path share a point.\<close>

fun connected :: "line list \<Rightarrow> bool" where
  "connected (l # m # ls) \<longleftrightarrow> (\<exists>x y. covers l x y \<and> covers m x y) \<and> connected (m # ls)"
| "connected _ \<longleftrightarrow> True"

lemma corner: "covers (new_line n a b c d) c d" "covers (new_line n a b c d) a b"
  by (auto simp: covers_def new_line_def)

lemma path_connected: "connected (number_lines n (path_lines a b c d))"
  unfolding path_lines_def using corner by (auto intro!: exI)

text \<open>The path of a dependency runs from its first point to its second one, and its arrow is near the second.\<close>

lemma path_ends:
  "covers (hd (number_lines n (path_lines a b c d))) a b" "covers (last (number_lines n (path_lines a b c d))) c d"
  "path_lines a b c d \<noteq> []"
  using corner by (simp_all add: path_lines_def)

lemma path_thin: "list_all (\<lambda>l. line_width l = 1 \<or> line_height l = 1) (number_lines n (path_lines a b c d))"
  by (rule number_lines_all) (simp add: path_lines_def new_line_def)

section \<open>Drawing again\<close>

text \<open>The lines on the page are numbered below \<open>vDepId\<close>, each number at most once.\<close>

definition links_wf :: "links \<Rightarrow> bool" where
  "links_wf s \<longleftrightarrow>
     1 \<le> vDepId s \<and> (\<forall>ls. right_side s = Some ls \<longrightarrow>
       distinct (map line_no ls) \<and> (\<forall>n \<in> set (map line_no ls). 1 \<le> n \<and> n < vDepId s))"

lemma links_wf_append:
  assumes "links_wf s"
  shows "links_wf (append_lines ps s)"
proof (cases "right_side s")
  case None
  then show ?thesis using assms by (simp add: links_wf_def append_lines_def)
next
  case (Some ls)
  then show ?thesis using assms
    by (auto simp: links_wf_def append_lines_number [OF Some] simp flip: set_map)
qed

lemma remove_line_filter: "distinct (map line_no ls) \<Longrightarrow> remove_line n ls = filter (\<lambda>l. line_no l \<noteq> n) ls"
proof (induction ls)
  case (Cons l ls)
  then have "filter (\<lambda>m. line_no m \<noteq> line_no l) ls = ls" by (intro filter_True) (auto simp: image_iff)
  with Cons show ?case by (auto simp: remove_line_def)
qed (simp add: remove_line_def)

lemma remove_all_lines:
  "distinct (map line_no ls) \<Longrightarrow> fold remove_line ns ls = filter (\<lambda>l. line_no l \<notin> set ns) ls"
proof (induction ns arbitrary: ls)
  case (Cons n ns)
  then show ?case by (simp add: remove_line_filter distinct_map_filter conj_commute)
qed simp

lemma clear_removes_all: "links_wf s \<Longrightarrow> right_side s \<noteq> None \<Longrightarrow> clearDependencies s = s\<lparr>right_side := Some [], vDepId := 1\<rparr>"
  by (auto simp: clearDependencies_def links_wf_def remove_all_lines filter_empty_conv)

text \<open>What is drawn for a task depends on the tasks alone.\<close>

lemma draw_link_appends:
  assumes "right_side s \<noteq> None"
  shows "draw_link i dep s = Inl TypeError \<or> (\<exists>ps. draw_link i dep s = Inr (append_lines ps s))"
proof (cases "getArrayLocationByID dep s")
  case (Some k)
  then show ?thesis using assms draws_dependency append_lines_simps(1)
    by (auto simp: draw_link_def draws_def Let_def) (metis append_lines_simps(1))
qed (simp add: draw_link_def)

lemma each_appends:
  assumes "\<And>x s. x \<in> set xs \<Longrightarrow> right_side s \<noteq> None \<Longrightarrow> f x s = Inl TypeError \<or> (\<exists>ps. f x s = Inr (append_lines ps s))"
  shows "right_side s \<noteq> None \<Longrightarrow> each_result f xs s = Inl TypeError \<or> (\<exists>ps. each_result f xs s = Inr (append_lines ps s))"
  using assms
proof (induction xs arbitrary: s)
  case Nil
  then show ?case by (metis append_lines_simps(1) each_result.simps(1))
next
  case (Cons x xs)
  then consider "f x s = Inl TypeError" | ps where "f x s = Inr (append_lines ps s)" by (metis list.set_intros(1))
  then show ?case
  proof cases
    case 2
    have "right_side (append_lines ps s) \<noteq> None" using Cons.prems(1) by simp
    from Cons.IH [OF this Cons.prems(2)] 2 show ?thesis by (auto simp: append_lines_twice)
  qed simp
qed

lemma draw_links_appends:
  "right_side s \<noteq> None \<Longrightarrow> draw_links i s = Inl TypeError \<or> (\<exists>ps. draw_links i s = Inr (append_lines ps s))"
proof (cases "getDepend (rows s ! i)")
  case None
  then show ?thesis by (simp add: draw_links_def exI [of _ "[]"])
next
  case (Some d)
  assume "right_side s \<noteq> None"
  from each_appends [OF draw_link_appends this] Some show ?thesis by (simp add: draw_links_def)
qed

definition placed :: "links \<Rightarrow> task \<Rightarrow> task" where
  "placed s t = (case place_task s t of Inl e \<Rightarrow> t | Inr u \<Rightarrow> u)"

lemma place_task_error: "place_task s t = Inl e \<Longrightarrow> e = TypeError"
  by (auto simp: place_task_def split: option.splits prod.splits)

lemma CalcTaskXY_cases:
  "CalcTaskXY s = Inl TypeError
   \<or> CalcTaskXY s = Inr (s\<lparr>rows := map (placed s) (rows s)\<rparr>) \<and> (\<forall>t \<in> set (rows s). place_task s t = Inr (placed s t))"
proof -
  define f where "f i s = and_then (place_task s (rows s ! i)) (\<lambda>t. Inr (s\<lparr>rows := (rows s)[i := t]\<rparr>))" for i s
  have "each_result f [0..<n] s = Inl TypeError
      \<or> each_result f [0..<n] s = Inr (s\<lparr>rows := map (placed s) (take n (rows s)) @ drop n (rows s)\<rparr>)
        \<and> (\<forall>t \<in> set (take n (rows s)). place_task s t = Inr (placed s t))" if "n \<le> length (rows s)" for n
    using that
  proof (induction n)
    case (Suc n)
    let ?s = "s\<lparr>rows := map (placed s) (take n (rows s)) @ drop n (rows s)\<rparr>"
    have same: "place_task ?s t = place_task s t" for t by (simp add: place_task_def split: option.split)
    have nth: "rows ?s ! n = rows s ! n" using Suc.prems by (simp add: nth_append)
    show ?case
    proof (cases "place_task s (rows s ! n)")
      case (Inl e)
      then have "f n ?s = Inl TypeError" unfolding f_def same nth using place_task_error [OF Inl] by simp
      then show ?thesis using Suc by (auto simp: each_result_append)
    next
      case (Inr u)
      then have p: "placed s (rows s ! n) = u" by (simp add: placed_def)
      have "f n ?s = Inr (?s\<lparr>rows := map (placed s) (take (Suc n) (rows s)) @ drop (Suc n) (rows s)\<rparr>)"
        using Suc.prems Inr p unfolding f_def same nth
        by (simp add: take_Suc_conv_app_nth list_update_append Cons_nth_drop_Suc [symmetric])
      then show ?thesis using Suc Inr p
        by (auto simp: each_result_append take_Suc_conv_app_nth)
    qed
  qed simp
  from this [of "length (rows s)"] show ?thesis by (simp add: CalcTaskXY_def f_def [abs_def])
qed

lemma placed_again:
  assumes "bar_offset s' = bar_offset s" "grid_offset s' = grid_offset s" "place_task s t = Inr (placed s t)"
  shows "place_task s' (placed s t) = Inr (placed s t)"
  using assms by (auto simp: place_task_def placed_def split: option.splits prod.splits)

lemma CalcTaskXY_again:
  assumes "\<And>t. t \<in> set (rows s) \<Longrightarrow> place_task s t = Inr t"
  shows "CalcTaskXY s = Inr s"
proof -
  have "placed s t = t" if "t \<in> set (rows s)" for t using assms [OF that] by (simp add: placed_def)
  then have "map (placed s) (rows s) = rows s" by (simp add: map_idI)
  moreover have "CalcTaskXY s \<noteq> Inl TypeError"
  proof
    assume "CalcTaskXY s = Inl TypeError"
    moreover have "each_result (\<lambda>i s. and_then (place_task s (rows s ! i)) (\<lambda>t. Inr (s\<lparr>rows := (rows s)[i := t]\<rparr>))) xs s = Inr s"
      if "set xs \<subseteq> {..<length (rows s)}" for xs
      using that assms by (induction xs) auto
    ultimately show False by (simp add: CalcTaskXY_def atLeast0LessThan)
  qed
  ultimately show ?thesis using CalcTaskXY_cases [of s] by auto
qed

lemma draw_all_appends:
  assumes "DrawDependencies s = Inr s'" "links_wf s" "right_side s \<noteq> None"
  shows "\<exists>ps. (\<forall>t \<in> set (rows s). place_task s t = Inr (placed s t))
    \<and> s' = append_lines ps (s\<lparr>rows := map (placed s) (rows s), right_side := Some [], vDepId := 1\<rparr>)
    \<and> each_result draw_links [0..<length (rows s)]
        (s\<lparr>rows := map (placed s) (rows s), right_side := Some [], vDepId := 1\<rparr>) = Inr s'"
proof -
  let ?c = "s\<lparr>rows := map (placed s) (rows s)\<rparr>" and ?d = "s\<lparr>rows := map (placed s) (rows s), right_side := Some [], vDepId := 1\<rparr>"
  have calc: "CalcTaskXY s = Inr ?c" "\<forall>t \<in> set (rows s). place_task s t = Inr (placed s t)"
    using CalcTaskXY_cases [of s] assms(1) by (auto simp: DrawDependencies_def)
  have "clearDependencies ?c = ?d" using clear_removes_all [of ?c] assms(2,3) by (simp add: links_wf_def)
  then have "each_result draw_links [0..<length (rows s)] ?d = Inr s'"
    using assms(1) by (simp add: DrawDependencies_def calc(1) Let_def)
  moreover from this obtain ps where "s' = append_lines ps ?d"
    using each_appends [of "[0..<length (rows s)]" draw_links ?d] draw_links_appends by auto
  ultimately show ?thesis using calc(2) by blast
qed

section \<open>All lines of a chart\<close>

text \<open>What the lines of a chart should be: for each task, and for each identifier in the list of its
  dependencies, the path and the arrow from the end of the bar of the first task with the identifier to the
  point just left of the bar of the task, unless the row of the former is hidden.\<close>

definition task_named :: "task list \<Rightarrow> string \<Rightarrow> task option" where
  "task_named l dep = find (\<lambda>t. to_number dep = Some (vID t)) l"

definition dependencies :: "task \<Rightarrow> string list" where
  "dependencies u = (case getDepend u of None \<Rightarrow> [] | Some d \<Rightarrow> split d '','')"

definition link_lines :: "task list \<Rightarrow> task \<Rightarrow> string \<Rightarrow> (int \<times> int \<times> int \<times> int) list" where
  "link_lines l u dep =
     (case task_named l dep of
        None \<Rightarrow> []
      | Some t \<Rightarrow>
          if vVisible t = 1 then path_lines (x2 t) (y2 t) (x1 u - 1) (y1 u) @ arrow_lines (x1 u - 1) (y1 u) else [])"

definition task_lines :: "task list \<Rightarrow> task \<Rightarrow> (int \<times> int \<times> int \<times> int) list" where
  "task_lines l u = concat (map (link_lines l u) (dependencies u))"

definition chart_links :: "task list \<Rightarrow> (int \<times> int \<times> int \<times> int) list" where
  "chart_links l = concat (map (task_lines l) l)"

text \<open>What the dependency lines of a task need: tasks with the identifiers that it names.\<close>

definition known_dependencies :: "task list \<Rightarrow> bool" where
  "known_dependencies l \<longleftrightarrow>
     (\<forall>t \<in> set l. vDepend t \<noteq> [] \<longrightarrow> (\<forall>dep \<in> set (split (vDepend t) '',''). \<exists>u \<in> set l. to_number dep = Some (vID u)))"

lemma known_named: "known_dependencies l \<Longrightarrow> u \<in> set l \<Longrightarrow> dep \<in> set (dependencies u) \<Longrightarrow> task_named l dep \<noteq> None"
  by (auto simp: known_dependencies_def dependencies_def getDepend_def task_named_def find_None_iff split: if_splits)

text \<open>An operation that draws these lines on every page with these tasks.\<close>

definition draws_on :: "task list \<Rightarrow> (links \<Rightarrow> links result) \<Rightarrow> (int \<times> int \<times> int \<times> int) list \<Rightarrow> bool" where
  "draws_on l f ps \<longleftrightarrow> (\<forall>s. right_side s \<noteq> None \<and> rows s = l \<longrightarrow> f s = Inr (append_lines ps s))"

lemma draws_on_each:
  "(\<And>x. x \<in> set xs \<Longrightarrow> draws_on l (f x) (g x)) \<Longrightarrow> draws_on l (each_result f xs) (concat (map g xs))"
proof (induction xs)
  case (Cons x xs)
  then have "draws_on l (f x) (g x)" "draws_on l (each_result f xs) (concat (map g xs))" by simp_all
  then show ?case by (simp add: draws_on_def append_lines_twice del: not_None_eq)
qed (simp add: draws_on_def)

lemma find_map: "find P (map f xs) = map_option f (find (\<lambda>x. P (f x)) xs)"
  by (induction xs) simp_all

lemma location_named: "map_option (\<lambda>k. rows s ! k) (getArrayLocationByID dep s) = task_named (rows s) dep"
  using find_map [of "\<lambda>t. to_number dep = Some (vID t)" "\<lambda>k. rows s ! k" "[0..<length (rows s)]"]
  by (simp add: getArrayLocationByID_def task_named_def map_nth)

lemma draws_on_link:
  assumes "task_named l dep \<noteq> None"
  shows "draws_on l (draw_link i dep) (link_lines l (l ! i) dep)"
  unfolding draws_on_def
proof (intro allI impI)
  fix s :: links
  assume s: "right_side s \<noteq> None \<and> rows s = l"
  then obtain k where k: "getArrayLocationByID dep s = Some k" "task_named l dep = Some (l ! k)"
    using assms location_named [of s dep] by auto
  then show "draw_link i dep s = Inr (append_lines (link_lines l (l ! i) dep) s)"
    using s draws_dependency by (simp add: draw_link_def link_lines_def draws_def Let_def)
qed

lemma draws_on_task:
  assumes "known_dependencies l" "i < length l"
  shows "draws_on l (draw_links i) (task_lines l (l ! i))"
proof -
  have "draws_on l (each_result (draw_link i) (dependencies (l ! i))) (task_lines l (l ! i))"
    unfolding task_lines_def using known_named [OF assms(1) nth_mem [OF assms(2)]] by (intro draws_on_each draws_on_link)
  then show ?thesis by (auto simp: draws_on_def draw_links_def dependencies_def split: option.splits)
qed

lemma draws_on_chart:
  assumes "known_dependencies l"
  shows "draws_on l (each_result draw_links [0..<length l]) (chart_links l)"
proof -
  have "draws_on l (each_result draw_links [0..<length l]) (concat (map (\<lambda>i. task_lines l (l ! i)) [0..<length l]))"
    using draws_on_task [OF assms] by (intro draws_on_each) simp
  moreover have "map (\<lambda>i. task_lines l (l ! i)) [0..<length l] = map (task_lines l) l"
    by (rule nth_equalityI) simp_all
  ultimately show ?thesis by (simp add: chart_links_def)
qed

lemma placed_keeps: "vID (placed s t) = vID t" "vDepend (placed s t) = vDepend t"
  by (auto simp: placed_def place_task_def split: option.splits sum.splits prod.splits)

lemma CalcTaskXY_laid_out:
  assumes "\<forall>t \<in> set (rows s). bar_offset s (vID t) \<noteq> None \<and> grid_offset s (vID t) \<noteq> None"
  shows "CalcTaskXY s = Inr (s\<lparr>rows := map (placed s) (rows s)\<rparr>)"
proof -
  let ?P = "\<lambda>u. map vID (rows u) = map vID (rows s) \<and> bar_offset u = bar_offset s \<and> grid_offset u = grid_offset s"
  let ?f = "\<lambda>i s. and_then (place_task s (rows s ! i)) (\<lambda>t. Inr (s\<lparr>rows := (rows s)[i := t]\<rparr>))"
  have "\<exists>u'. ?f i u = Inr u' \<and> ?P u'" if i: "i \<in> set [0..<length (rows s)]" and u: "?P u" for i and u :: links
  proof -
    have len: "length (rows u) = length (rows s)" using u by (metis length_map)
    then have n: "i < length (rows u)" using i by simp
    have "vID (rows u ! i) = vID (rows s ! i)" using n u len by (metis nth_map)
    then have "bar_offset u (vID (rows u ! i)) \<noteq> None" "grid_offset u (vID (rows u ! i)) \<noteq> None"
      using assms u i len by auto
    then obtain t where t: "place_task u (rows u ! i) = Inr t" "vID t = vID (rows u ! i)"
      by (auto simp: place_task_def)
    have "map vID ((rows u)[i := t]) = map vID (rows u)"
      using t(2) by (simp add: map_update list_update_same_conv n)
    then show ?thesis using t(1) u by simp
  qed
  then have "\<exists>s'. each_result ?f [0..<length (rows s)] s = Inr s' \<and> ?P s'"
    by (intro each_result_keeps [where P = ?P]) blast+
  then have "CalcTaskXY s \<noteq> Inl TypeError" unfolding CalcTaskXY_def by (elim exE conjE) simp
  then show ?thesis using CalcTaskXY_cases [of s] by blast
qed

lemma known_dependencies_cong:
  assumes "map (\<lambda>t. (vID t, vDepend t)) l = map (\<lambda>t. (vID t, vDepend t)) l'" "known_dependencies l"
  shows "known_dependencies l'"
proof -
  have known: "known_dependencies k \<longleftrightarrow> (\<forall>(i, d) \<in> (\<lambda>t. (vID t, vDepend t)) ` set k. d \<noteq> [] \<longrightarrow>
      (\<forall>dep \<in> set (split d '',''). \<exists>(j, e) \<in> (\<lambda>t. (vID t, vDepend t)) ` set k. to_number dep = Some j))" for k
    by (auto simp: known_dependencies_def)
  have "(\<lambda>t. (vID t, vDepend t)) ` set l = (\<lambda>t. (vID t, vDepend t)) ` set l'"
    using arg_cong [OF assms(1), of set] by simp
  then show ?thesis using assms(2) unfolding known by simp
qed

lemma placed_dependencies: "known_dependencies l \<Longrightarrow> known_dependencies (map (placed s) l)"
  using known_dependencies_cong [of l "map (placed s) l"] by (simp add: placed_keeps)

text \<open>On a page that has every bar and every row, the drawing of known dependencies ends, and the page has
  exactly the lines that it should have.\<close>

definition all_laid_out :: "links \<Rightarrow> bool" where
  "all_laid_out s \<longleftrightarrow> (\<forall>t \<in> set (rows s). bar_offset s (vID t) \<noteq> None \<and> grid_offset s (vID t) \<noteq> None)"

lemma placed_bar:
  assumes "bar_offset s (vID t) = Some (l, tp, w)" "grid_offset s (vID t) = Some g"
  shows "placed s t = t\<lparr>x1 := l, y1 := g + tp + 6, x2 := l + w, y2 := g + tp + 6\<rparr>"
  using assms by (simp add: placed_def place_task_def)

lemma known_chart_drawn:
  assumes "clearDependencies (s\<lparr>rows := l\<rparr>) = s\<lparr>rows := l, right_side := Some [], vDepId := 1\<rparr>"
    and "l = map (placed s) (rows s)" "known_dependencies (rows s)" "all_laid_out s"
  shows "DrawDependencies s
    = Inr (s\<lparr>rows := l, right_side := Some (number_lines 1 (chart_links l)), vDepId := 1 + length (chart_links l)\<rparr>)"
proof -
  let ?d = "s\<lparr>rows := l, right_side := Some [], vDepId := 1\<rparr>"
  have "CalcTaskXY s = Inr (s\<lparr>rows := l\<rparr>)"
    using CalcTaskXY_laid_out [of s] assms(2,4) by (simp add: all_laid_out_def)
  then have "DrawDependencies s = each_result draw_links [0..<length l] ?d"
    using assms(1) by (simp add: DrawDependencies_def Let_def)
  also have "\<dots> = Inr (append_lines (chart_links l) ?d)"
    using draws_on_chart [of l] placed_dependencies assms(2,3) by (simp add: draws_on_def)
  finally show ?thesis by (simp add: append_lines_number [of _ "[]"])
qed

text \<open>A path from one point to another, and the arrow before the second.\<close>

definition is_path :: "int \<times> int \<Rightarrow> int \<times> int \<Rightarrow> line list \<Rightarrow> bool" where
  "is_path p q path \<longleftrightarrow> path \<noteq> [] \<and> covers (hd path) (fst p) (snd p) \<and> covers (last path) (fst q) (snd q)
     \<and> connected path \<and> list_all (\<lambda>l. line_width l = 1 \<or> line_height l = 1) path"

definition is_arrow :: "int \<times> int \<Rightarrow> line list \<Rightarrow> bool" where
  "is_arrow q arrow \<longleftrightarrow> length arrow = 14
     \<and> list_all (\<lambda>l. line_width l = 1 \<and> line_height l = 1 \<and> fst q - 3 \<le> line_left l \<and> line_left l \<le> fst q
         \<and> snd q - 3 \<le> line_top l \<and> line_top l \<le> snd q + 3) arrow"

lemma link_is_path:
  "task_named l dep = Some t \<Longrightarrow> vVisible t = 1 \<Longrightarrow>
   \<exists>path arrow. number_lines n (link_lines l u dep) = path @ arrow
     \<and> is_path (x2 t, y2 t) (x1 u - 1, y1 u) path \<and> is_arrow (x1 u - 1, y1 u) arrow"
proof -
  assume t: "task_named l dep = Some t" "vVisible t = 1"
  let ?p = "path_lines (x2 t) (y2 t) (x1 u - 1) (y1 u)" and ?a = "arrow_lines (x1 u - 1) (y1 u)"
  have "number_lines n (link_lines l u dep) = number_lines n ?p @ number_lines (n + length ?p) ?a"
    using t by (simp add: link_lines_def number_lines_append)
  moreover have "number_lines n ?p \<noteq> []"
    using path_ends(3) number_lines_simps(2) by (metis length_0_conv)
  then have "is_path (x2 t, y2 t) (x1 u - 1, y1 u) (number_lines n ?p)"
    unfolding is_path_def using path_ends path_thin path_connected by simp
  moreover have "is_arrow (x1 u - 1, y1 u) (number_lines (n + length ?p) ?a)"
    unfolding is_arrow_def using arrow_near_tip [of "x1 u - 1" "y1 u" "n + length ?p"] by (simp only: length_arrow_lines number_lines_simps fst_conv snd_conv)
  ultimately show ?thesis by blast
qed

lemma chart_links_member:
  assumes "u \<in> set l" "dep \<in> set (dependencies u)"
  shows "\<exists>before after. chart_links l = before @ link_lines l u dep @ after"
proof -
  obtain us us' where l: "l = us @ u # us'" using split_list [OF assms(1)] by blast
  obtain ds ds' where d: "dependencies u = ds @ dep # ds'" using split_list [OF assms(2)] by blast
  have "chart_links l = concat (map (task_lines l) us) @ task_lines l u @ concat (map (task_lines l) us')"
    unfolding chart_links_def using l by (metis concat.simps(2) concat_append list.simps(9) map_append)
  moreover have "task_lines l u
      = concat (map (link_lines l u) ds) @ link_lines l u dep @ concat (map (link_lines l u) ds')"
    by (simp add: task_lines_def d)
  ultimately show ?thesis by (metis append.assoc)
qed

lemma placed_deps: "dependencies (placed s t) = dependencies t"
  by (simp add: dependencies_def getDepend_def placed_keeps)

lemma placed_named: "task_named (map (placed s) l) dep = map_option (placed s) (task_named l dep)"
  by (simp add: task_named_def find_map placed_keeps)

text \<open>Two tasks, the second of which depends on the first or on a task that does not exist.\<close>

definition small_links :: "string \<Rightarrow> links" where
  "small_links dep =
     (let t = \<lparr>vID = 1, vName = ''a'', vStart = Some 0, vEnd = Some 0, vColor = [], vLink = [], vMile = 0,
               vRes = [], vComp = None, vGroup = 0, vParent = 0, vOpen = 0, vDepend = [], vCaption = [],
               vLevel = 1, vNumKid = 0, vVisible = 1, x1 = 0, y1 = 0, x2 = 0, y2 = 0\<rparr>
      in \<lparr>rows = [t, t\<lparr>vID := 2, vDepend := dep\<rparr>],
          bar_offset = Map.empty(1 \<mapsto> (0, 4, 20), 2 \<mapsto> (40, 4, 20)), grid_offset = Map.empty(1 \<mapsto> 0, 2 \<mapsto> 20),
          right_side = Some [], vDepId = 7\<rparr>)"

lemma small_links_wf: "links_wf (small_links dep)" "right_side (small_links dep) \<noteq> None"
  by (simp_all add: small_links_def links_wf_def Let_def)

text \<open>C28: on a page that shows every bar, drawing the dependencies of a chart whose tasks depend on tasks of
  the chart ends without an error, and for each dependency on a task whose row is shown the page has a path of
  horizontal and vertical lines that runs without a gap from the end of the bar of that task to the point just
  left of the bar of the dependent one, followed by an arrow head of fourteen dots at that point.\<close>

theorem dependency_line_connected:
  assumes "links_wf s" "right_side s \<noteq> None" "known_dependencies (rows s)" "all_laid_out s"
    and "u \<in> set (rows s)" "dep \<in> set (dependencies u)" "task_named (rows s) dep = Some t" "vVisible t = 1"
    and "bar_offset s (vID t) = Some (l, tp, w)" "grid_offset s (vID t) = Some g"
    and "bar_offset s (vID u) = Some (l', tp', w')" "grid_offset s (vID u) = Some g'"
  shows "\<exists>s' before path arrow after. DrawDependencies s = Inr s'
    \<and> right_side s' = Some (before @ path @ arrow @ after)
    \<and> is_path (l + w, g + tp + 6) (l' - 1, g' + tp' + 6) path \<and> is_arrow (l' - 1, g' + tp' + 6) arrow"
proof -
  let ?l = "map (placed s) (rows s)" and ?u = "placed s u" and ?t = "placed s t"
  have "clearDependencies (s\<lparr>rows := ?l\<rparr>) = s\<lparr>rows := ?l, right_side := Some [], vDepId := 1\<rparr>"
    using clear_removes_all [of "s\<lparr>rows := ?l\<rparr>"] assms(1,2) by (simp add: links_wf_def)
  note drawn = known_chart_drawn [OF this refl assms(3,4)]
  have "?u \<in> set ?l" "dep \<in> set (dependencies ?u)" "task_named ?l dep = Some ?t" "vVisible ?t = 1"
    using assms(5-8) placed_bar [OF assms(9,10)] by (simp_all add: placed_named placed_deps)
  moreover obtain before after where ba: "chart_links ?l = before @ link_lines ?l ?u dep @ after"
    using chart_links_member [OF calculation(1,2)] by blast
  moreover have "(x2 ?t, y2 ?t) = (l + w, g + tp + 6)" "(x1 ?u - 1, y1 ?u) = (l' - 1, g' + tp' + 6)"
    using placed_bar [OF assms(9,10)] placed_bar [OF assms(11,12)] by simp_all
  ultimately obtain path arrow where
    pa: "number_lines (1 + length before) (link_lines ?l ?u dep) = path @ arrow"
      "is_path (l + w, g + tp + 6) (l' - 1, g' + tp' + 6) path" "is_arrow (l' - 1, g' + tp' + 6) arrow"
    using link_is_path [of ?l dep ?t "1 + length before" ?u] by metis
  have "number_lines 1 (chart_links ?l) = number_lines 1 before @ path @ arrow
      @ number_lines (1 + length before + length (link_lines ?l ?u dep)) after"
    by (simp only: ba number_lines_append pa(1) append.assoc)
  then show ?thesis using drawn pa(2,3) by (intro exI conjI) (assumption | simp)+
qed

theorem dependency_line_connected_witness:
  "\<exists>s' before path arrow after. DrawDependencies (small_links ''1'') = Inr s'
    \<and> right_side s' = Some (before @ path @ arrow @ after) \<and> is_path (20, 10) (39, 30) path \<and> is_arrow (39, 30) arrow"
proof -
  have n: "to_number ''1'' = Some 1" by code_simp
  have rows: "known_dependencies (rows (small_links ''1''))" "all_laid_out (small_links ''1'')"
    "dependencies (rows (small_links ''1'') ! 1) = [''1'']"
    "task_named (rows (small_links ''1'')) ''1'' = Some (rows (small_links ''1'') ! 0)"
    using n by (simp_all add: known_dependencies_def all_laid_out_def small_links_def Let_def dependencies_def
        getDepend_def split_no_sep task_named_def)
  show ?thesis
    using dependency_line_connected [of "small_links ''1''" "rows (small_links ''1'') ! 1" "''1''" "rows (small_links ''1'') ! 0" 0 4 20 0 40 4 20 20]
      small_links_wf rows by (simp add: small_links_def Let_def)
qed

lemma small_links_drawn:
  "map_sum id (\<lambda>s. (vDepId s, map_option (map line_no) (right_side s))) (DrawDependencies (small_links ''1''))
     = Inr (18, Some [1..<18])"
  by code_simp

text \<open>C35: drawing all dependencies removes exactly the lines drawn before: drawing again, with the same
  layout, changes nothing, and the lines stay numbered below \<open>vDepId\<close>.\<close>

theorem redraw_changes_nothing:
  assumes "DrawDependencies s = Inr s'" "links_wf s" "right_side s \<noteq> None"
  shows "links_wf s' \<and> DrawDependencies s' = Inr s'"
proof -
  let ?d = "s\<lparr>rows := map (placed s) (rows s), right_side := Some [], vDepId := 1\<rparr>"
  obtain ps where ps: "\<forall>t \<in> set (rows s). place_task s t = Inr (placed s t)" "s' = append_lines ps ?d"
    "each_result draw_links [0..<length (rows s)] ?d = Inr s'" using draw_all_appends [OF assms] by blast
  have wf: "links_wf s'" unfolding ps(2) by (rule links_wf_append) (simp add: links_wf_def)
  have rows: "rows s' = map (placed s) (rows s)" "right_side s' \<noteq> None" by (simp_all add: ps(2))
  have "CalcTaskXY s' = Inr s'"
  proof (rule CalcTaskXY_again)
    fix t assume "t \<in> set (rows s')"
    then obtain u where "u \<in> set (rows s)" "t = placed s u" by (auto simp: rows)
    then show "place_task s' t = Inr t" using placed_again [of s' s u] ps(1) by (simp add: ps(2))
  qed
  moreover have "s'\<lparr>right_side := Some [], vDepId := 1\<rparr> = ?d"
    unfolding ps(2) append_lines_def by simp
  then have "clearDependencies s' = ?d" using clear_removes_all [OF wf rows(2)] by simp
  ultimately show ?thesis using wf ps(3) by (simp add: DrawDependencies_def Let_def)
qed

theorem redraw_changes_nothing_witness:
  "\<exists>s'. DrawDependencies (small_links ''1'') = Inr s' \<and> vDepId s' = 18 \<and> links_wf s' \<and> DrawDependencies s' = Inr s'"
proof -
  obtain s' where s': "DrawDependencies (small_links ''1'') = Inr s'" "vDepId s' = 18"
    using small_links_drawn by (cases "DrawDependencies (small_links ''1'')") auto
  with redraw_changes_nothing [OF s'(1) small_links_wf] show ?thesis by blast
qed

lemma each_result_fails:
  assumes "\<And>x s. x \<in> set xs \<Longrightarrow> P s \<Longrightarrow> f x s = Inl E \<or> (\<exists>s'. f x s = Inr s' \<and> P s')"
    and "x \<in> set xs" "\<And>s. P s \<Longrightarrow> f x s = Inl E"
  shows "P s \<Longrightarrow> each_result f xs s = Inl E"
  using assms(1,2)
proof (induction xs arbitrary: s)
  case (Cons y xs)
  show ?case
  proof (cases "y = x")
    case True
    then show ?thesis using assms(3) [OF Cons.prems(1)] by simp
  next
    case False
    then consider "f y s = Inl E" | s' where "f y s = Inr s'" "P s'" using Cons.prems by (metis list.set_intros(1))
    then show ?thesis using Cons False by cases auto
  qed
qed simp

text \<open>One dependency on an identifier that no task has makes the whole drawing throw.\<close>

lemma unknown_dependency_throws:
  assumes "right_side s \<noteq> None" "i < length (rows s)" "vDepend (rows s ! i) = d" "d \<noteq> []" "dep \<in> set (split d '','')"
    "\<forall>t \<in> set (rows s). to_number dep \<noteq> Some (vID t)"
  shows "DrawDependencies s = Inl TypeError"
proof (cases "CalcTaskXY s = Inl TypeError")
  case True
  then show ?thesis by (simp add: DrawDependencies_def)
next
  case False
  let ?c = "s\<lparr>rows := map (placed s) (rows s)\<rparr>" and ?rows = "map (placed s) (rows s)"
  have calc: "CalcTaskXY s = Inr ?c" using CalcTaskXY_cases [of s] False by auto
  have kept: "vID (placed s t) = vID t" "vDepend (placed s t) = vDepend t" for t
    by (auto simp: placed_def place_task_def split: option.splits sum.splits prod.splits)
  let ?P = "\<lambda>u. rows u = ?rows \<and> right_side u \<noteq> None"
  have none: "getArrayLocationByID dep u = None" if "?P u" for u
    using that assms(6) by (auto simp: getArrayLocationByID_def find_None_iff kept)
  have link: "draw_link i dep u = Inl TypeError" if "?P u" for u using none [OF that] by (simp add: draw_link_def)
  have step: "draw_link i x u = Inl TypeError \<or> (\<exists>v. draw_link i x u = Inr v \<and> ?P v)" if "?P u" for x u
    using draw_link_appends [of u i x] that by auto
  have steps: "draw_links k u = Inl TypeError \<or> (\<exists>v. draw_links k u = Inr v \<and> ?P v)" if "?P u" for k u
    using draw_links_appends [of u k] that by auto
  have stop: "draw_links i u = Inl TypeError" if P: "?P u" for u
  proof -
    have "each_result (draw_link i) (split d '','') u = Inl TypeError"
      by (rule each_result_fails [where P = ?P and x = dep and f = "draw_link i"])
        (use step assms(5) link P in blast)+
    then show ?thesis using P assms(2-4) by (simp add: draw_links_def getDepend_def kept)
  qed
  have "?P (clearDependencies ?c)" using assms(1) by (simp add: clearDependencies_def)
  moreover have "i \<in> set [0..<length (rows s)]" using assms(2) by simp
  ultimately have "each_result draw_links [0..<length (rows s)] (clearDependencies ?c) = Inl TypeError"
    using each_result_fails [where P = ?P and x = i and f = draw_links, OF steps _ stop] by blast
  then show ?thesis by (simp add: DrawDependencies_def calc Let_def clearDependencies_def)
qed

lemma unknown_dependency_throws_witness: "DrawDependencies (small_links ''3'') = Inl TypeError"
  by (rule unknown_dependency_throws [of _ 1 "''3''" "''3''"])
    (simp_all add: small_links_def Let_def split_no_sep to_number_def is_space_def parseInt_def parse_digits_def
      is_digit_def digit_val_def)

end
