(* ===== verification/Gantt_Xml.thy ===== *)
theory Gantt_Xml
  imports Gantt_Draw Gantt_Links
begin

text \<open>
  Loading tasks from a document: \<open>JSGantt.AddXMLTask\<close> reads them off the document tree, \<open>ChromeXMLParse\<close>
  cuts them out of its text.  \<open>parseXML\<close> chooses by the name of the browser; the request itself is left to
  the browser.  Numbers that are no whole numbers are outside of the model, as is a field whose first child
  is an element: \<^const>\<open>None\<close> stands for such documents.
\<close>

section \<open>The document tree\<close>

datatype xml = Element string "xml list" | Text string

text \<open>\<open>getElementsByTagName\<close>: the elements below, in document order.\<close>

fun descendants :: "string \<Rightarrow> xml \<Rightarrow> xml list" where
  "descendants tag (Text t) = []"
| "descendants tag (Element name cs) =
     (if name = tag then [Element name cs] else []) @ concat (map (descendants tag) cs)"

fun child_nodes :: "xml \<Rightarrow> xml list" where
  "child_nodes (Element name cs) = cs"
| "child_nodes (Text t) = []"

definition below :: "string \<Rightarrow> xml \<Rightarrow> xml list" where
  "below tag x = concat (map (descendants tag) (child_nodes x))"

text \<open>The value of a field of a task: reading from a missing element or from one without children throws,
  and the default is taken; an element has no value of its own.\<close>

datatype field = Missing | Null | Value string

definition node_field :: "string \<Rightarrow> xml option \<Rightarrow> field" where
  "node_field tag t =
     (case t of
        None \<Rightarrow> Missing
      | Some x \<Rightarrow>
          (case below tag x of
             [] \<Rightarrow> Missing
           | e # _ \<Rightarrow> (case child_nodes e of [] \<Rightarrow> Missing | Text v # _ \<Rightarrow> Value v | Element _ _ # _ \<Rightarrow> Null)))"

definition text_value :: "string \<Rightarrow> field \<Rightarrow> string option" where
  "text_value dflt f = (case f of Missing \<Rightarrow> Some dflt | Null \<Rightarrow> None | Value v \<Rightarrow> Some v)"

text \<open>Times one: a text becomes a number and \<open>null\<close> becomes zero.\<close>

definition number_value :: "int \<Rightarrow> field \<Rightarrow> int option" where
  "number_value dflt f = (case f of Missing \<Rightarrow> Some dflt | Null \<Rightarrow> Some 0 | Value v \<Rightarrow> to_number v)"

text \<open>The fields of a task, by their tags; a task is added as soon as they are known.\<close>

definition task_fields ::
    "(string \<Rightarrow> string \<Rightarrow> string option) \<Rightarrow> (string \<Rightarrow> int \<Rightarrow> int option) \<Rightarrow> task_args option" where
  "task_fields txt num =
     (case (num ''pID'' 0, txt ''pName'' ''No Task Name'', txt ''pStart'' [], txt ''pEnd'' [],
            txt ''pColor'' ''0000ff'', txt ''pLink'' [], num ''pMile'' 0, txt ''pRes'' [],
            num ''pGroup'' 0, num ''pParent'' 0, num ''pOpen'' 1, txt ''pDepend'' [], txt ''pCaption'' []) of
        (Some i, Some nm, Some s, Some e, Some c, Some l, Some m, Some r, Some g, Some p, Some op, Some d, Some cap) \<Rightarrow>
          Some \<lparr>pID = i, pName = nm, pStart = s, pEnd = e, pColor = c, pLink = l, pMile = m, pRes = r,
                pComp = num ''pComp'' 0, pGroup = g, pParent = p, pOpen = op, pDepend = d, pCaption = cap\<rparr>
      | _ \<Rightarrow> None)"

definition add_task :: "(string \<Rightarrow> date) \<Rightarrow> int \<Rightarrow> task_args \<Rightarrow> gantt \<Rightarrow> gantt" where
  "add_task date_parse now a g = AddTaskItem (TaskItem date_parse now (vDateInputFormat g) a) g"

text \<open>One round for each child of the root; a task without an identifier, or with the identifier zero, is
  left out.\<close>

definition xml_task :: "(string \<Rightarrow> date) \<Rightarrow> int \<Rightarrow> xml option \<Rightarrow> gantt \<Rightarrow> gantt option" where
  "xml_task date_parse now t g =
     (let get = (\<lambda>tag. node_field tag t)
      in case number_value 0 (get ''pID'') of
           None \<Rightarrow> None
         | Some i \<Rightarrow>
             if i = 0 then Some g
             else map_option (\<lambda>a. add_task date_parse now a g)
                    (task_fields (\<lambda>tag d. text_value d (get tag)) (\<lambda>tag d. number_value d (get tag))))"

fun each_option :: "('a \<Rightarrow> 's \<Rightarrow> 's option) \<Rightarrow> 'a list \<Rightarrow> 's \<Rightarrow> 's option" where
  "each_option f [] s = Some s"
| "each_option f (x # xs) s = Option.bind (f x s) (each_option f xs)"

definition AddXMLTask :: "(string \<Rightarrow> date) \<Rightarrow> int \<Rightarrow> xml \<Rightarrow> gantt \<Rightarrow> gantt option" where
  "AddXMLTask date_parse now doc g =
     (let found = descendants ''task'' doc
      in each_option (\<lambda>i. xml_task date_parse now (if i < length found then Some (found ! i) else None))
           [0..<length (child_nodes doc)] g)"

section \<open>The text of the document\<close>

text \<open>After the end tags have lost their slash a field is what stands between the first two of its tags.\<close>

definition between :: "string \<Rightarrow> string \<Rightarrow> string option" where
  "between tag t = (let te = split_ci (''<'' @ tag @ ''>'') t in if length te > 2 then Some (te ! 1) else None)"

definition cut_text :: "string \<Rightarrow> string \<Rightarrow> string \<Rightarrow> string option" where
  "cut_text t tag dflt = (case between tag t of None \<Rightarrow> Some dflt | Some v \<Rightarrow> Some v)"

definition cut_number :: "string \<Rightarrow> string \<Rightarrow> int \<Rightarrow> int option" where
  "cut_number t tag dflt = (case between tag t of None \<Rightarrow> Some dflt | Some v \<Rightarrow> to_number v)"

definition text_task :: "(string \<Rightarrow> date) \<Rightarrow> int \<Rightarrow> string \<Rightarrow> gantt \<Rightarrow> gantt option" where
  "text_task date_parse now chunk g =
     (let t = replace_all chunk ''</p'' ''<p''
      in map_option (\<lambda>a. add_task date_parse now a g) (task_fields (cut_text t) (cut_number t)))"

definition ChromeXMLParse :: "(string \<Rightarrow> date) \<Rightarrow> int \<Rightarrow> string \<Rightarrow> gantt \<Rightarrow> gantt option" where
  "ChromeXMLParse date_parse now responseText g =
     each_option (text_task date_parse now) (tl (split_ci ''<task>'' responseText)) g"

section \<open>Documents of tasks\<close>

text \<open>The fields of a task in a document, and the document of a list of tasks, as a tree and as its text.\<close>

definition fields_of :: "task_args \<Rightarrow> (string \<times> string) list" where
  "fields_of a =
     [(''pID'', int_str (pID a)), (''pName'', pName a), (''pStart'', pStart a), (''pEnd'', pEnd a),
      (''pColor'', pColor a), (''pLink'', pLink a), (''pMile'', int_str (pMile a)), (''pRes'', pRes a)]
     @ (case pComp a of None \<Rightarrow> [] | Some c \<Rightarrow> [(''pComp'', int_str c)])
     @ [(''pGroup'', int_str (pGroup a)), (''pParent'', int_str (pParent a)), (''pOpen'', int_str (pOpen a)),
        (''pDepend'', pDepend a), (''pCaption'', pCaption a)]"

definition field_tree :: "string \<times> string \<Rightarrow> xml" where
  "field_tree f = (case f of (t, v) \<Rightarrow> Element t (if v = [] then [] else [Text v]))"

definition task_tree :: "task_args \<Rightarrow> xml" where
  "task_tree a = Element ''task'' (map field_tree (fields_of a))"

definition doc_tree :: "task_args list \<Rightarrow> xml" where
  "doc_tree ts = Element ''project'' (map task_tree ts)"

definition field_text :: "string \<times> string \<Rightarrow> string" where
  "field_text f = (case f of (t, v) \<Rightarrow> ''<'' @ t @ ''>'' @ v @ ''</'' @ t @ ''>'')"

definition task_text :: "task_args \<Rightarrow> string" where
  "task_text a = ''<task>'' @ concat (map field_text (fields_of a)) @ ''</task>''"

definition doc_text :: "task_args list \<Rightarrow> string" where
  "doc_text ts = ''<project>'' @ concat (map task_text ts) @ ''</project>''"

text \<open>Texts that are the same in the tree and in the text of a document, and fields for which the two
  readers have the same default.\<close>

definition plain :: "task_args \<Rightarrow> bool" where
  "plain a \<longleftrightarrow>
     pID a \<noteq> 0 \<and> pName a \<noteq> [] \<and> pColor a \<noteq> [] \<and> pComp a \<noteq> None
     \<and> (\<forall>v \<in> {pName a, pStart a, pEnd a, pColor a, pLink a, pRes a, pDepend a, pCaption a}.
          CHR ''<'' \<notin> set v \<and> CHR ''&'' \<notin> set v)"


section \<open>Cutting a text at its tags\<close>

lemma split_ci_nonempty [simp]: "split_ci sep s \<noteq> []"
  by (subst split_ci.simps) (auto split: list.splits)

lemma split_ci_match: "sep \<noteq> [] \<Longrightarrow> ci_prefix sep s \<Longrightarrow> split_ci sep s = [] # split_ci sep (drop (length sep) s)"
  by (subst split_ci.simps) (auto simp: ci_prefix_def split: list.splits)

lemma split_ci_skip:
  "\<not> ci_prefix sep (c # s) \<Longrightarrow> split_ci sep (c # s) = (c # hd (split_ci sep s)) # tl (split_ci sep s)"
  by (subst split_ci.simps) (auto split: list.splits)

lemma split_ci_Nil [simp]: "split_ci sep [] = [[]]"
  by (subst split_ci.simps) simp

text \<open>A text in which the separator cannot begin, whatever follows it.\<close>

definition inert :: "string \<Rightarrow> string \<Rightarrow> bool" where
  "inert sep u \<longleftrightarrow> (\<forall>s. split_ci sep (u @ s) = (u @ hd (split_ci sep s)) # tl (split_ci sep s))"

lemma inertD: "inert sep u \<Longrightarrow> split_ci sep (u @ s) = (u @ hd (split_ci sep s)) # tl (split_ci sep s)"
  by (simp add: inert_def)

lemma inert_Nil [simp]: "inert sep []"
  by (simp add: inert_def)

lemma inert_append [intro]: "inert sep u \<Longrightarrow> inert sep w \<Longrightarrow> inert sep (u @ w)"
  by (simp add: inert_def)

lemma inert_concat: "\<forall>u \<in> set us. inert sep u \<Longrightarrow> inert sep (concat us)"
  by (induction us) (auto intro: inert_append)

lemma inert_whole: "inert sep u \<Longrightarrow> split_ci sep u = [u]"
  using inertD [of sep u "[]"] by simp

lemma upper_low:
  assumes "of_char d < (65 :: nat)"
  shows "upper c = d \<longleftrightarrow> c = d"
proof
  assume u: "upper c = d"
  show "c = d"
  proof (rule ccontr)
    assume "c \<noteq> d"
    with u have r: "97 \<le> (of_char c :: nat)" and e: "char_of ((of_char c :: nat) - 32) = d"
      by (auto simp: upper_def Let_def split: if_splits)
    from e have "of_char (char_of ((of_char c :: nat) - 32) :: char) < (65 :: nat)" using assms by simp
    moreover have "(of_char c :: nat) < 256" by simp
    ultimately show False using r by simp
  qed
qed (use assms in \<open>simp add: upper_def Let_def\<close>)

lemma upper_angle [simp]: "upper c = CHR ''<'' \<longleftrightarrow> c = CHR ''<''" "upper c = CHR ''>'' \<longleftrightarrow> c = CHR ''>''"
  by (rule upper_low; simp)+

lemma upper_self [simp]: "upper (CHR ''<'') = CHR ''<''" "upper (CHR ''>'') = CHR ''>''"
  by (simp_all add: upper_def)

lemma inert_text: "CHR ''<'' \<notin> set v \<Longrightarrow> inert (CHR ''<'' # p) v"
proof (induction v)
  case (Cons c v)
  then have "c \<noteq> CHR ''<''" and ih: "inert (CHR ''<'' # p) v" by auto
  then have "\<not> ci_prefix (CHR ''<'' # p) (c # s)" for s
    using upper_angle(1) [of c] by (simp add: ci_prefix_def eq_commute [of "CHR ''<''"])
  then show ?case using ih by (simp add: inert_def split_ci_skip)
qed simp


definition tag :: "string \<Rightarrow> string" where
  "tag t = ''<'' @ t @ ''>''"

definition tag_name :: "string \<Rightarrow> bool" where
  "tag_name t \<longleftrightarrow> CHR ''<'' \<notin> set t \<and> CHR ''>'' \<notin> set t"

lemma prefix_delimited:
  "x \<notin> set ps \<Longrightarrow> x \<notin> set qs \<Longrightarrow> prefix (ps @ [x]) (qs @ x # s) \<longleftrightarrow> ps = qs"
proof (induction ps arbitrary: qs)
  case Nil
  then show ?case by (cases qs) auto
next
  case (Cons y ps)
  then show ?case by (cases qs) auto
qed

lemma upper_gt_set: "CHR ''>'' \<in> upper ` set t \<longleftrightarrow> CHR ''>'' \<in> set t"
  by (metis imageE image_eqI upper_angle(2))

lemma ci_prefix_tag:
  "tag_name t \<Longrightarrow> tag_name u \<Longrightarrow> ci_prefix (tag t) (tag u @ s) \<longleftrightarrow> map upper t = map upper u"
  using prefix_delimited [of "CHR ''>''" "map upper t" "map upper u" "map upper s"]
  by (simp add: ci_prefix_def tag_def tag_name_def upper_gt_set)

lemma inert_tag: "tag_name t \<Longrightarrow> tag_name u \<Longrightarrow> map upper t \<noteq> map upper u \<Longrightarrow> inert (tag t) (tag u)"
proof -
  assume n: "tag_name t" "tag_name u" and d: "map upper t \<noteq> map upper u"
  have "\<not> ci_prefix (tag t) (CHR ''<'' # (u @ ''>'') @ s)" for s
    using ci_prefix_tag [OF n, of s] d by (simp add: tag_def)
  moreover have "inert (tag t) (u @ ''>'')"
    using n inert_text [of "u @ ''>''" "t @ ''>''"] by (simp add: tag_def tag_name_def)
  ultimately show ?thesis by (simp add: inert_def split_ci_skip tag_def)
qed

lemma split_tag: "tag_name t \<Longrightarrow> split_ci (tag t) (tag t @ s) = [] # split_ci (tag t) s"
  using split_ci_match [of "tag t" "tag t @ s"] ci_prefix_tag [of t t s] by (simp add: tag_def)

lemma split_at_tag: "tag_name t \<Longrightarrow> inert (tag t) u \<Longrightarrow> split_ci (tag t) (u @ tag t @ s) = u # split_ci (tag t) s"
  by (simp add: inertD split_tag)

text \<open>What stands between the first two occurrences of a tag among a list of fields.\<close>

definition cut_field :: "string \<times> string \<Rightarrow> string" where
  "cut_field f = (case f of (t, v) \<Rightarrow> tag t @ v @ tag t)"

lemma between_inert: "inert (tag t) u \<Longrightarrow> between t (u @ s) = between t s"
  using inertD [of "tag t" u s] by (cases "split_ci (tag t) s") (auto simp: between_def tag_def Let_def nth_Cons')

lemma between_none: "inert (tag t) u \<Longrightarrow> between t u = None"
  using inert_whole [of "tag t" u] by (simp add: between_def tag_def)

lemma between_hit: "tag_name t \<Longrightarrow> inert (tag t) v \<Longrightarrow> between t (cut_field (t, v) @ s) = Some v"
  using split_at_tag [of t v s] split_tag [of t "v @ tag t @ s"] 
  by (cases "split_ci (tag t) s") (auto simp: between_def tag_def cut_field_def Let_def)

lemma between_fields:
  assumes "\<forall>(u, v) \<in> set fs. tag_name u \<and> CHR ''<'' \<notin> set v \<and> (map upper t = map upper u \<longrightarrow> t = u)"
    and "tag_name t" and "inert (tag t) w"
  shows "between t (concat (map cut_field fs) @ w) = map_of fs t"
  using assms(1)
proof (induction fs)
  case Nil
  then show ?case using assms(3) by (simp add: between_none)
next
  case (Cons f fs)
  obtain u v where f: "f = (u, v)" by (cases f)
  have u: "tag_name u" and v: "inert (tag t) v" and same: "map upper t = map upper u \<longrightarrow> t = u"
    using Cons.prems inert_text [of v "t @ ''>''"] by (auto simp: f tag_def)
  show ?case
  proof (cases "t = u")
    case True
    then show ?thesis using between_hit [OF u, of v] v by (simp add: f)
  next
    case False
    with same have "inert (tag t) (tag u)" using inert_tag [OF assms(2) u] by blast
    then have "inert (tag t) (cut_field f)" using v by (auto simp: f cut_field_def)
    then show ?thesis using False Cons by (simp add: f between_inert)
  qed
qed


section \<open>Reading a document of tasks\<close>

lemma slash_lost:
  assumes "CHR ''<'' \<notin> set u" "CHR ''<'' \<notin> set v"
  shows "replace_all (field_text (CHR ''p'' # u, v) @ s) ''</p'' ''<p'' =
    cut_field (CHR ''p'' # u, v) @ replace_all s ''</p'' ''<p''"
  using assms replace_all_skip [of "CHR ''<''"]
  by (simp add: field_text_def cut_field_def tag_def replace_all_Cons)

lemma slashes_lost:
  "\<forall>(t, v) \<in> set fs. (\<exists>u. t = CHR ''p'' # u) \<and> tag_name t \<and> CHR ''<'' \<notin> set v \<Longrightarrow>
    replace_all (concat (map field_text fs) @ s) ''</p'' ''<p'' =
      concat (map cut_field fs) @ replace_all s ''</p'' ''<p''"
  by (induction fs) (auto simp: slash_lost tag_name_def)

lemma to_number_int_str: "to_number (int_str n) = Some n"
proof -
  have d: "nat_str k \<noteq> [] \<and> list_all is_digit (nat_str k)" for k
    using nat_str_digits [of k] by (simp add: list_all_iff)
  have keep: "\<forall>c \<in> set (int_str n). \<not> is_space c"
    using nat_str_digits is_digit_not by (auto simp: int_str_def is_space_def)
  then have "dropWhile is_space (int_str n) = int_str n" "dropWhile is_space (rev (int_str n)) = rev (int_str n)"
    by (cases "int_str n"; simp; fail) (cases "rev (int_str n)"; use keep in \<open>auto simp: rev_swap\<close>)
  then have number: "to_number (int_str n) =
      (let digits = (if int_str n \<noteq> [] \<and> hd (int_str n) \<in> {CHR ''-'', CHR ''+''} then tl (int_str n) else int_str n)
       in if int_str n = [] then Some 0 else if digits \<noteq> [] \<and> list_all is_digit digits then Some n else None)"
    by (simp add: to_number_def parseInt_int_str Let_def)
  show ?thesis
  proof (cases "n < 0")
    case True
    then show ?thesis using d [of "nat (- n)"] by (simp add: number, simp add: int_str_def)
  next
    case False
    obtain c cs where c: "nat_str (nat n) = c # cs" by (cases "nat_str (nat n)") auto
    then have "int_str n = c # cs" using False by (simp add: int_str_def)
    moreover have "c \<noteq> CHR ''-''" "c \<noteq> CHR ''+''" "list_all is_digit (c # cs)"
      using d [of "nat n"] is_digit_not [of c] c by auto
    ultimately show ?thesis using number by simp
  qed
qed
text \<open>The tags of a task are different whatever their case, and none is the tag of a task.\<close>

definition task_tags :: "string list" where
  "task_tags = [''pID'', ''pName'', ''pStart'', ''pEnd'', ''pColor'', ''pLink'', ''pMile'', ''pRes'', ''pComp'',
     ''pGroup'', ''pParent'', ''pOpen'', ''pDepend'', ''pCaption'']"

lemma task_tags_facts:
  "list_all (\<lambda>t. tag_name t \<and> hd t = CHR ''p'' \<and> t \<noteq> [] \<and> map upper t \<noteq> map upper ''task'' \<and> t \<noteq> ''task'') task_tags"
  "distinct (map (map upper) task_tags)"
  by (simp_all add: task_tags_def tag_name_def upper_def)

lemma fields_facts:
  assumes "plain a"
  shows "\<forall>(u, v) \<in> set (fields_of a). u \<in> set task_tags \<and> CHR ''<'' \<notin> set v"
proof -
  have "CHR ''<'' \<notin> set (int_str n)" for n
    using nat_str_no_sep [of "CHR ''<''"] by (simp add: int_str_def is_digit_def)
  then show ?thesis using assms by (auto simp: fields_of_def task_tags_def plain_def)
qed


lemma tags_distinct: "t \<in> set task_tags \<Longrightarrow> u \<in> set task_tags \<Longrightarrow> map upper t = map upper u \<Longrightarrow> t = u"
  using task_tags_facts(2) by (auto simp: distinct_map dest: inj_onD)

lemma task_tags_p: "t \<in> set task_tags \<Longrightarrow> \<exists>u. t = CHR ''p'' # u"
  using task_tags_facts(1) by (cases t) (auto simp: list_all_iff)

lemma tags_named: "t \<in> set task_tags \<Longrightarrow> tag_name t"
  using task_tags_facts(1) by (simp add: list_all_iff)

lemma other_tags:
  "t \<in> set task_tags \<Longrightarrow> inert (tag t) (tag ''/task'') \<and> inert (tag t) (tag ''project'')"
proof -
  assume t: "t \<in> set task_tags"
  have "tag_name ''/task''" "tag_name ''project''" by (simp_all add: tag_name_def)
  moreover have "map upper t \<noteq> map upper ''/task''" "map upper t \<noteq> map upper ''project''"
    using t by (auto simp: task_tags_def upper_def)
  ultimately show ?thesis using inert_tag tags_named [OF t] by blast
qed

text \<open>Both readers find the fields of a task.\<close>

definition tails :: "string set" where
  "tails = {tag ''/task'', tag ''/task'' @ tag ''/project''}"

lemma text_fields:
  assumes "plain a" and "w \<in> tails" and "t \<in> set task_tags"
  shows "between t (replace_all (concat (map field_text (fields_of a)) @ w) ''</p'' ''<p'') = map_of (fields_of a) t"
proof -
  let ?w = "replace_all w ''</p'' ''<p''"
  have "?w = tag ''/task'' \<or> ?w = tag ''/task'' @ tag ''project''"
    using assms(2) by (auto simp: tails_def tag_def replace_all_Cons)
  then have "inert (tag t) ?w" using other_tags [OF assms(3)] by auto
  moreover have "replace_all (concat (map field_text (fields_of a)) @ w) ''</p'' ''<p'' =
      concat (map cut_field (fields_of a)) @ ?w"
    using fields_facts [OF assms(1)] task_tags_p tags_named by (intro slashes_lost) blast
  moreover have "\<forall>(u, v) \<in> set (fields_of a). tag_name u \<and> CHR ''<'' \<notin> set v \<and> (map upper t = map upper u \<longrightarrow> t = u)"
    using fields_facts [OF assms(1)] tags_named tags_distinct [OF assms(3)] by blast
  ultimately show ?thesis using between_fields tags_named [OF assms(3)] by simp
qed

lemma tree_fields:
  "node_field t (Some (task_tree a)) =
    (case map_of (fields_of a) t of None \<Rightarrow> Missing | Some v \<Rightarrow> if v = [] then Missing else Value v)"
proof -
  have "(case concat (map (descendants t) (map field_tree fs)) of
      [] \<Rightarrow> Missing
    | e # _ \<Rightarrow> (case child_nodes e of [] \<Rightarrow> Missing | Text v # _ \<Rightarrow> Value v | Element _ _ # _ \<Rightarrow> Null))
    = (case map_of fs t of None \<Rightarrow> Missing | Some v \<Rightarrow> if v = [] then Missing else Value v)" for fs
    by (induction fs) (auto simp: field_tree_def)
  then show ?thesis by (simp add: node_field_def below_def task_tree_def)
qed


lemma read_task:
  assumes "plain a"
  shows "w \<in> tails \<Longrightarrow>
      text_task date_parse now (concat (map field_text (fields_of a)) @ w) g = Some (add_task date_parse now a g)"
    and "xml_task date_parse now (Some (task_tree a)) g = Some (add_task date_parse now a g)"
proof -
  have p: "pID a \<noteq> 0" "pName a \<noteq> []" "pColor a \<noteq> []" using assms by (auto simp: plain_def)
  obtain c where c: "pComp a = Some c" using assms by (auto simp: plain_def)
  have read: "task_fields txt num = Some a"
    if texts: "\<And>t d v. map_of (fields_of a) t = Some v \<Longrightarrow> v = [] \<longrightarrow> d = [] \<Longrightarrow> txt t d = Some v"
      and numbers: "\<And>t d n. map_of (fields_of a) t = Some (int_str n) \<Longrightarrow> num t d = Some n"
    for "txt" and num
  proof -
    have "txt ''pName'' ''No Task Name'' = Some (pName a)" "txt ''pColor'' ''0000ff'' = Some (pColor a)"
      "txt ''pStart'' [] = Some (pStart a)" "txt ''pEnd'' [] = Some (pEnd a)" "txt ''pLink'' [] = Some (pLink a)"
      "txt ''pRes'' [] = Some (pRes a)" "txt ''pDepend'' [] = Some (pDepend a)" "txt ''pCaption'' [] = Some (pCaption a)"
      using c p by (intro texts; simp add: fields_of_def)+
    moreover have "num ''pID'' 0 = Some (pID a)" "num ''pMile'' 0 = Some (pMile a)" "num ''pGroup'' 0 = Some (pGroup a)"
      "num ''pParent'' 0 = Some (pParent a)" "num ''pOpen'' 1 = Some (pOpen a)" "num ''pComp'' 0 = Some c"
      using c by (intro numbers; simp add: fields_of_def)+
    ultimately show ?thesis by (simp add: task_fields_def c [symmetric])
  qed
  show "text_task date_parse now (concat (map field_text (fields_of a)) @ w) g = Some (add_task date_parse now a g)"
    if "w \<in> tails"
  proof -
    let ?t = "replace_all (concat (map field_text (fields_of a)) @ w) ''</p'' ''<p''"
    have "between t ?t = Some v" if "map_of (fields_of a) t = Some v" for t v
      using text_fields [OF assms \<open>w \<in> tails\<close>, of t] fields_facts [OF assms] map_of_SomeD [OF that] that by auto
    then have "task_fields (cut_text ?t) (cut_number ?t) = Some a"
      by (intro read) (simp_all add: cut_text_def cut_number_def to_number_int_str)
    then show ?thesis by (simp add: text_task_def)
  qed
  have "int_str n \<noteq> []" for n by (simp add: int_str_def)
  moreover from this have "task_fields (\<lambda>t d. text_value d (node_field t (Some (task_tree a))))
      (\<lambda>t d. number_value d (node_field t (Some (task_tree a)))) = Some a"
    by (intro read) (simp_all add: tree_fields text_value_def number_value_def to_number_int_str)
  ultimately show "xml_task date_parse now (Some (task_tree a)) g = Some (add_task date_parse now a g)"
    using p by (simp add: xml_task_def tree_fields fields_of_def number_value_def to_number_int_str)
qed
lemma chunks:
  assumes "inert (tag ''task'') u"
  shows "hd (split_ci (tag ''task'') (u @ concat (map task_text ts) @ tag ''/project'')) =
      u @ (if ts = [] then tag ''/project'' else [])"
proof -
  have e: "inert (tag ''task'') (tag ''/project'')"
    by (rule inert_tag) (simp_all add: tag_name_def upper_def)
  show ?thesis
  proof (cases ts)
    case Nil
    then show ?thesis using assms inert_whole [of "tag ''task''" "u @ tag ''/project''"] e by (simp add: inert_append)
  next
    case (Cons a as)
    then show ?thesis
      using assms split_at_tag [of "''task''" u] by (simp add: tag_name_def task_text_def) (simp add: tag_def)
  qed
qed


lemma task_tree_tasks: "plain a \<Longrightarrow> descendants ''task'' (task_tree a) = [task_tree a]"
proof -
  assume "plain a"
  then have "\<forall>f \<in> set (fields_of a). fst f \<noteq> ''task''"
    using fields_facts [of a] task_tags_facts(1) by (fastforce simp: list_all_iff)
  then have "\<forall>f \<in> set (fields_of a). descendants ''task'' (field_tree f) = []"
    by (auto simp: field_tree_def)
  then show ?thesis by (simp add: task_tree_def)
qed

lemma each_option_map: "each_option f (map h xs) s = each_option (\<lambda>x. f (h x)) xs s"
proof (induction xs arbitrary: s)
  case (Cons x xs)
  then show ?case by (cases "f (h x) s") auto
qed simp

lemma each_option_total:
  "(\<And>x s. x \<in> set xs \<Longrightarrow> f x s = Some (h x s)) \<Longrightarrow> each_option f xs s = Some (fold h xs s)"
  by (induction xs arbitrary: s) auto

lemma tree_reader:
  assumes "list_all plain ts"
  shows "AddXMLTask date_parse now (doc_tree ts) g = Some (fold (add_task date_parse now) ts g)"
proof -
  have found: "descendants ''task'' (doc_tree ts) = map task_tree ts"
    using assms task_tree_tasks by (induction ts) (auto simp: doc_tree_def)
  let ?nth = "\<lambda>i. if i < length ts then Some (task_tree (ts ! i)) else None"
  have "map ?nth [0..<length ts] = map (Some \<circ> task_tree) ts"
    by (rule nth_equalityI) auto
  then have "AddXMLTask date_parse now (doc_tree ts) g =
      each_option (\<lambda>a. xml_task date_parse now (Some (task_tree a))) ts g"
    using each_option_map [of "xml_task date_parse now" ?nth "[0..<length ts]" g]
      each_option_map [of "xml_task date_parse now" "Some \<circ> task_tree" ts g] found
    by (simp add: AddXMLTask_def Let_def doc_tree_def cong: if_cong)
  also have "\<dots> = Some (fold (add_task date_parse now) ts g)"
    using assms read_task(2) by (intro each_option_total) (auto simp: list_all_iff)
  finally show ?thesis .
qed

lemma inert_fields:
  assumes "plain a"
  shows "inert (tag ''task'') (concat (map field_text (fields_of a)))"
proof -
  have n: "tag_name ''task''" by (simp add: tag_name_def)
  have "inert (tag ''task'') (field_text (t, v))" if "(t, v) \<in> set (fields_of a)" for t v
  proof -
    have t: "t \<in> set task_tags" and v: "CHR ''<'' \<notin> set v" using fields_facts [OF assms] that by auto
    then have "map upper ''task'' \<noteq> map upper t" using task_tags_facts(1) by (auto simp: list_all_iff)
    moreover have "map upper ''task'' \<noteq> map upper (''/'' @ t)"
      by (auto simp: upper_low upper_def [of "CHR ''/''"])
    moreover have "tag_name (''/'' @ t)" using tags_named [OF t] by (simp add: tag_name_def)
    ultimately have "inert (tag ''task'') (tag t)" "inert (tag ''task'') (tag (''/'' @ t))"
      using inert_tag n tags_named [OF t] by blast+
    moreover have "inert (tag ''task'') v" using inert_text [OF v, of "''task>''"] by (simp add: tag_def)
    ultimately have "inert (tag ''task'') (tag t @ v @ tag (''/'' @ t))" by blast
    then show ?thesis by (simp add: field_text_def tag_def)
  qed
  then show ?thesis by (intro inert_concat) auto
qed

lemma text_reader:
  assumes "list_all plain ts" and "inert (tag ''task'') u"
  shows "each_option (text_task date_parse now)
      (tl (split_ci (tag ''task'') (u @ concat (map task_text ts) @ tag ''/project''))) g =
      Some (fold (add_task date_parse now) ts g)"
  using assms
proof (induction ts arbitrary: u g)
  case Nil
  have "inert (tag ''task'') (tag ''/project'')"
    by (rule inert_tag) (simp_all add: tag_name_def upper_def)
  then show ?case using Nil inert_whole [of "tag ''task''" "u @ tag ''/project''"] by (simp add: inert_append)
next
  case (Cons a as)
  let ?fs = "concat (map field_text (fields_of a))" and ?rest = "concat (map task_text as) @ tag ''/project''"
  let ?u = "?fs @ tag ''/task''"
  have u: "inert (tag ''task'') ?u"
    using Cons.prems inert_fields [of a] by (auto simp: tag_name_def intro!: inert_tag simp: upper_def)
  have s: "u @ concat (map task_text (a # as)) @ tag ''/project'' = u @ tag ''task'' @ ?u @ ?rest"
    by (simp add: task_text_def tag_def)
  have "tl (split_ci (tag ''task'') (u @ tag ''task'' @ ?u @ ?rest)) = split_ci (tag ''task'') (?u @ ?rest)"
    using Cons.prems(2) by (simp add: split_at_tag tag_name_def)
  also have "\<dots> = (?u @ (if as = [] then tag ''/project'' else [])) # tl (split_ci (tag ''task'') (?u @ ?rest))"
    using chunks [OF u, of as] by (metis list.collapse split_ci_nonempty)
  finally show ?case unfolding s
    using Cons.IH [OF _ u] Cons.prems(1) read_task(1) [of a "tag ''/task'' @ (if as = [] then tag ''/project'' else [])"]
    by (simp add: s tails_def)
qed


lemma chrome_reader:
  assumes "list_all plain ts"
  shows "ChromeXMLParse date_parse now (doc_text ts) g = Some (fold (add_task date_parse now) ts g)"
proof -
  have "inert (tag ''task'') (tag ''project'')"
    by (rule inert_tag) (simp_all add: tag_name_def upper_def)
  then show ?thesis
    using text_reader [OF assms, of "tag ''project''"] by (simp add: ChromeXMLParse_def doc_text_def tag_def)
qed

text \<open>C33: whichever browser asks, a document of tasks gives the same chart: the reader that cuts the text at its
  tags and the reader that walks the tree both add exactly the tasks of the document, in its order, when every
  task has an identifier other than zero, a name, a color and a percentage, and no text of it holds a character
  that is written differently in a document.\<close>

theorem parsers_agree:
  assumes "list_all plain ts"
  shows "ChromeXMLParse date_parse now (doc_text ts) g = Some (fold (add_task date_parse now) ts g)
    \<and> AddXMLTask date_parse now (doc_tree ts) g = ChromeXMLParse date_parse now (doc_text ts) g"
  using chrome_reader [OF assms] tree_reader [OF assms] by simp

text \<open>A document that leaves out an identifier: the tree is skipped, the text becomes a task with the
  identifier zero, and as a task without parent has the parent zero it is its own parent.\<close>

lemma missing_id_kept:
  "AddXMLTask date_parse now (Element ''project'' [Element ''task'' [Element ''pName'' [Text ''x'']]]) g = Some g"
  by (simp add: AddXMLTask_def xml_task_def number_value_def node_field_def below_def)

lemma zero_id_added:
  "ChromeXMLParse date_parse now ''<project><task><pName>x</pName></task></project>'' g =
    Some (add_task date_parse now
      \<lparr>pID = 0, pName = ''x'', pStart = [], pEnd = [], pColor = ''0000ff'', pLink = [], pMile = 0, pRes = [],
       pComp = Some 0, pGroup = 0, pParent = 0, pOpen = 1, pDepend = [], pCaption = []\<rparr> g)"
proof -
  have "tl (split_ci ''<task>'' ''<project><task><pName>x</pName></task></project>'') =
      [''<pName>x</pName></task></project>'']"
    by code_simp
  moreover have "replace_all ''<pName>x</pName></task></project>'' ''</p'' ''<p'' = ''<pName>x<pName></task><project>''"
    by (simp add: replace_all_Cons)
  moreover have "between t ''<pName>x<pName></task><project>'' = map_of [(''pName'', ''x'')] t" if t: "t \<in> set task_tags" for t
  proof -
    have n: "''pName'' \<in> set task_tags" by (simp add: task_tags_def)
    have "inert (tag t) (tag ''/task'' @ tag ''project'')" using other_tags [OF t] by blast
    moreover have "\<forall>(u, v) \<in> set [(''pName'', ''x'')].
        tag_name u \<and> CHR ''<'' \<notin> set v \<and> (map upper t = map upper u \<longrightarrow> t = u)"
      using tags_named [OF n] tags_distinct [OF t n] by (simp del: list.map)
    ultimately have "between t (concat (map cut_field [(''pName'', ''x'')]) @ tag ''/task'' @ tag ''project'') =
        map_of [(''pName'', ''x'')] t"
      by (intro between_fields tags_named t)
    then show ?thesis by (simp add: cut_field_def tag_def)
  qed
  ultimately show ?thesis
    by (simp add: ChromeXMLParse_def text_task_def task_tags_def task_fields_def cut_text_def cut_number_def)
qed

definition sample_args :: task_args where
  "sample_args =
     \<lparr>pID = 1, pName = ''Build'', pStart = ''2/1/2008'', pEnd = ''2/3/2008'', pColor = ''ff0000'', pLink = [],
      pMile = 0, pRes = ''Brian'', pComp = Some 50, pGroup = 0, pParent = 0, pOpen = 1, pDepend = [], pCaption = []\<rparr>"

theorem parsers_agree_witness:
  "AddXMLTask (\<lambda>_. None) 0 (doc_tree [sample_args]) (GanttChart ''day'') =
    ChromeXMLParse (\<lambda>_. None) 0 (doc_text [sample_args]) (GanttChart ''day'')"
  by (rule conjunct2 [OF parsers_agree]) (simp add: plain_def sample_args_def)

end
