(* ===== verification/Gantt_Page.thy ===== *)
theory Gantt_Page
  imports Gantt_Xml
begin

text \<open>
  The page around a chart: \<open>findObj\<close>, the highlighting of the row under the mouse, \<open>taskLink\<close>, \<open>benchMark\<close>,
  \<open>changeFormat\<close>, which draws the chart and then its dependency lines, and \<open>parseXML\<close>, which chooses the reader.
\<close>

section \<open>Finding an element\<close>

text \<open>A document finds elements by name as its own properties, by \<open>document.all\<close> where the browser has it, by
  the fields of its forms and by identifier.  Layers no longer exist.\<close>

record 'e document =
  named :: "string \<Rightarrow> 'e option"
  all_named :: "(string \<Rightarrow> 'e option) option"
  form_fields :: "(string \<Rightarrow> 'e option) list"
  by_id :: "string \<Rightarrow> 'e option"

definition or_else :: "'e option \<Rightarrow> 'e option \<Rightarrow> 'e option" where
  "or_else a b = (case a of None \<Rightarrow> b | Some x \<Rightarrow> Some x)"

text \<open>A name with a question mark is looked up in a frame of the parent window; the search by identifier
  stays in the document of the script.\<close>

definition findObj :: "'e document \<Rightarrow> (string \<Rightarrow> 'e document option) \<Rightarrow> nat \<Rightarrow> string \<Rightarrow> 'e option result" where
  "findObj document frames frameCount theObj =
     (let p = indexOf theObj ''?'';
          look = (\<lambda>doc name.
            or_else (named doc name)
              (or_else (case all_named doc of None \<Rightarrow> None | Some f \<Rightarrow> f name)
                (or_else (fold (\<lambda>f found. or_else found (f name)) (form_fields doc) None) (by_id document name))))
      in if p > 0 \<and> frameCount > 0 then
           (case frames (substring_from theObj (p + 1)) of
              None \<Rightarrow> Inl TypeError
            | Some doc \<Rightarrow> Inr (look doc (substring theObj 0 p)))
         else Inr (look document theObj))"

section \<open>The row under the mouse\<close>

text \<open>The colors of the rows by their identifiers: \<open>child_\<close> and the task on the left, \<open>childrow_\<close> and the task
  on the right.  The row the event belongs to is on the page; the other one may be missing.\<close>

type_synonym row_colors = "string \<Rightarrow> string option"

definition row_name_of :: "string \<Rightarrow> int \<Rightarrow> string" where
  "row_name_of pPos pid = (if pPos = ''right'' then ''childrow_'' else ''child_'') @ int_str pid"

definition other_row :: "string \<Rightarrow> int \<Rightarrow> string" where
  "other_row pPos pid = (if pPos = ''right'' then ''child_'' else ''childrow_'') @ int_str pid"

definition set_color :: "string \<Rightarrow> string \<Rightarrow> row_colors \<Rightarrow> row_colors" where
  "set_color i c s = (if s i = None then s else s(i \<mapsto> c))"

definition mouseOver :: "int \<Rightarrow> string \<Rightarrow> row_colors \<Rightarrow> row_colors" where
  "mouseOver pid pPos s = set_color (other_row pPos pid) ''#ffffaa'' (set_color (row_name_of pPos pid) ''#ffffaa'' s)"

definition mouseOut :: "int \<Rightarrow> string \<Rightarrow> string \<Rightarrow> row_colors \<Rightarrow> row_colors" where
  "mouseOut pid pPos pType s =
     (let s1 = set_color (row_name_of pPos pid) ''#ffffff'' s; vID = other_row pPos pid;
          c = (if pType = ''group'' then ''#f3f3f3'' else ''#ffffff'')
      in if s1 vID = None then s1 else set_color vID c (set_color (row_name_of pPos pid) c s1))"

section \<open>Links and times\<close>

text \<open>A width or height of zero counts as none.\<close>

definition taskLink :: "string \<Rightarrow> int option \<Rightarrow> int option \<Rightarrow> string \<times> string \<times> string" where
  "taskLink pRef pWidth pHeight =
     (let size = (\<lambda>n. case n of None \<Rightarrow> 400 | Some k \<Rightarrow> if k = 0 then 400 else k)
      in (pRef, ''newwin'', ''height='' @ int_str (size pHeight) @ '',width='' @ int_str (size pWidth)))"

definition isIE :: "'e document \<Rightarrow> bool" where
  "isIE doc \<longleftrightarrow> all_named doc \<noteq> None"

text \<open>The message shows seconds; the clock starts again after it.\<close>

definition benchMark :: "int \<Rightarrow> int \<Rightarrow> int \<Rightarrow> rat \<times> int" where
  "benchMark vEndTime restart vBenchTime = (of_int (vEndTime - vBenchTime) / 1000, restart)"

section \<open>Changing the format\<close>

text \<open>A chart on its page: the lines in the element \<open>rightside\<close>, if it is there, and the number of the next
  line.  The layout that the browser gives to a drawing is a parameter.\<close>

record chart =
  chart_gantt :: gantt
  chart_lines :: "line list option"
  chart_dep_id :: nat

type_synonym page_layout = "drawing option \<Rightarrow> (int \<Rightarrow> (int \<times> int \<times> int) option) \<times> (int \<Rightarrow> int option)"

text \<open>Drawing writes the content of the page anew, with an empty right side; a chart without tasks is left.\<close>

definition drawn_links :: "page_layout \<Rightarrow> gantt \<Rightarrow> chart \<Rightarrow> links" where
  "drawn_links lay g c =
     \<lparr>rows = vTaskList g, bar_offset = fst (lay (vDiv g)), grid_offset = snd (lay (vDiv g)),
      right_side = (if vTaskList g = [] then chart_lines c else Some []), vDepId = chart_dep_id c\<rparr>"

definition changeFormat ::
    "nat \<Rightarrow> nat \<Rightarrow> int \<Rightarrow> page_layout \<Rightarrow> string \<Rightarrow> chart \<Rightarrow> chart result option" where
  "changeFormat n m now lay pFormat c =
     (case setFormat n m now pFormat (chart_gantt c) of
        None \<Rightarrow> None
      | Some (Inl e) \<Rightarrow> Some (Inl e)
      | Some (Inr g) \<Rightarrow>
          Some (and_then (DrawDependencies (drawn_links lay g c)) (\<lambda>s.
            Inr \<lparr>chart_gantt = g\<lparr>vTaskList := rows s\<rparr>, chart_lines = right_side s, chart_dep_id = vDepId s\<rparr>)))"

section \<open>Choosing the reader\<close>

definition lower :: "char \<Rightarrow> char" where
  "lower c =
     (let n = of_char c :: nat
      in if 65 \<le> n \<and> n \<le> 90 \<or> 192 \<le> n \<and> n \<le> 222 \<and> n \<noteq> 215 then char_of (n + 32) else c)"

text \<open>What the browser offers: an ActiveX document, or a document of its own, or neither, and whether such a
  document has a method to load a file.\<close>

record browser =
  userAgent :: string
  activeX :: bool
  creates_document :: bool
  loads_document :: bool

definition is_chrome :: "browser \<Rightarrow> bool" where
  "is_chrome b \<longleftrightarrow> occurs ''chrome'' (map lower (userAgent b))"

text \<open>The file, as its text and as the tree that the browser reads from it, is given; a browser that cannot
  create a document shows a message and stops, which leaves the chart.  Outer \<^const>\<open>None\<close>: a document that the
  readers are not modelled for.\<close>

definition parseXML ::
    "(string \<Rightarrow> date) \<Rightarrow> int \<Rightarrow> browser \<Rightarrow> string \<Rightarrow> xml \<Rightarrow> gantt \<Rightarrow> gantt result option" where
  "parseXML date_parse now b responseText doc g =
     (if \<not> activeX b \<and> \<not> is_chrome b \<and> \<not> creates_document b then Some (Inr g)
      else if is_chrome b then map_option Inr (ChromeXMLParse date_parse now responseText g)
      else if loads_document b then map_option Inr (AddXMLTask date_parse now doc g)
      else Some (Inl TypeError))"


section \<open>Lemmas\<close>

lemma rows_apart: "row_name_of pPos pid \<noteq> other_row pPos pid"
  by (simp add: row_name_of_def other_row_def)

text \<open>Leaving a row with the mouse gives it and the row of the same task on the other side the colors back
  that they were drawn with.\<close>

lemma hover_restores:
  assumes "s (row_name_of pPos pid) = Some col" "s (other_row pPos pid) = Some col"
    "col = (if pType = ''group'' then ''#f3f3f3'' else ''#ffffff'')"
  shows "mouseOut pid pPos pType (mouseOver pid pPos s) = s"
  using assms rows_apart [of pPos pid]
  by (auto simp: mouseOut_def mouseOver_def set_color_def Let_def fun_eq_iff)

lemma hover_restores_witness:
  "mouseOut 1 ''left'' ''group'' (mouseOver 1 ''left'' [''child_1'' \<mapsto> ''#f3f3f3'', ''childrow_1'' \<mapsto> ''#f3f3f3''])
    = [''child_1'' \<mapsto> ''#f3f3f3'', ''childrow_1'' \<mapsto> ''#f3f3f3'']"
proof -
  have "int_str 1 = ''1''" by code_simp
  then show ?thesis by (intro hover_restores) (simp_all add: row_name_of_def other_row_def)
qed

text \<open>Whichever browser loads the document of a list of tasks, the chart gets these tasks.\<close>

lemma parseXML_reads:
  assumes "list_all plain ts" "is_chrome b \<or> loads_document b \<and> (activeX b \<or> creates_document b)"
  shows "parseXML date_parse now b (doc_text ts) (doc_tree ts) g = Some (Inr (fold (add_task date_parse now) ts g))"
  using assms(2) chrome_reader [OF assms(1)] tree_reader [OF assms(1)] by (auto simp: parseXML_def)

text \<open>A browser of today that is not Chrome creates documents that cannot load a file.\<close>

lemma parseXML_throws: "\<not> is_chrome b \<Longrightarrow> creates_document b \<Longrightarrow> \<not> loads_document b \<Longrightarrow>
    parseXML date_parse now b txt doc g = Some (Inl TypeError)"
  by (simp add: parseXML_def)

section \<open>Changing the format of a chart\<close>

definition laid_out :: "page_layout \<Rightarrow> bool" where
  "laid_out lay \<longleftrightarrow>
     (\<forall>d. \<forall>b \<in> set (bars d). fst (lay (Some d)) (bar_id b) \<noteq> None \<and> snd (lay (Some d)) (bar_id b) \<noteq> None)"

text \<open>Where a layout puts a task: its line ends and starts in the middle of its bar.\<close>

definition at_its_bar :: "page_layout \<Rightarrow> gantt \<Rightarrow> task \<Rightarrow> bool" where
  "at_its_bar lay g t \<longleftrightarrow> (\<exists>l tp w r.
     fst (lay (vDiv g)) (vID t) = Some (l, tp, w) \<and> snd (lay (vDiv g)) (vID t) = Some r
     \<and> x1 t = l \<and> x2 t = l + w \<and> y1 t = r + tp + 6 \<and> y2 t = r + tp + 6)"

lemma clear_fresh: "right_side s = Some [] \<Longrightarrow> clearDependencies s = s\<lparr>right_side := Some [], vDepId := 1\<rparr>"
proof -
  have "fold remove_line ns [] = []" for ns by (induction ns) (simp_all add: remove_line_def)
  then show "right_side s = Some [] \<Longrightarrow> ?thesis" by (simp add: clearDependencies_def)
qed

lemma drawn_page_bars:
  assumes "Draw n m now g = Some (Inr g')" "vTaskList g \<noteq> []" "laid_out lay"
  shows "\<forall>t \<in> set (vTaskList g'). fst (lay (vDiv g')) (vID t) \<noteq> None \<and> snd (lay (vDiv g')) (vID t) \<noteq> None"
proof
  obtain l a b where l: "draw_table m now g l a b = Some g'" "vTaskList g' = l"
    using Draw_cases [OF assms(1,2)] by metis
  obtain bs d where d: "draw_bars g (day_width (vFormat g)) (of_int (col_unit (vFormat g))) a l (vFormat g) = (bs, vFormat g')"
    "vDiv g' = Some d" "bars d = bs" using draw_table_result [OF l(1)] by blast
  have ids: "map bar_id (bars d) = map vID l"
    using arg_cong [OF draw_bars_rows [of g _ _ a l], of "map fst"] d(1,3) by (simp add: comp_def) (metis fst_conv)
  fix t assume "t \<in> set (vTaskList g')"
  then have "vID t \<in> set (map bar_id (bars d))" by (simp add: ids l(2))
  then obtain b where "b \<in> set (bars d)" "bar_id b = vID t" by auto
  then show "fst (lay (vDiv g')) (vID t) \<noteq> None \<and> snd (lay (vDiv g')) (vID t) \<noteq> None"
    using assms(3) unfolding laid_out_def d(2) by metis
qed

lemma drawn_page_tasks:
  assumes "Draw n m now g = Some (Inr g')" "vTaskList g \<noteq> []"
  shows "map (\<lambda>t. (vID t, vDepend t)) (vTaskList g') = map (\<lambda>t. (vID t, vDepend t)) (vTaskList g)" "vTaskList g' \<noteq> []"
proof -
  obtain l where l: "processRows now n 0 None 1 1 (vTaskList g) = Some l" "vTaskList g' = l"
    using Draw_cases [OF assms] by metis
  have kept: "kept (\<lambda>t. (vID t, vDepend t))" by (simp_all add: kept_def sum_up_def)
  show eq: "map (\<lambda>t. (vID t, vDepend t)) (vTaskList g') = map (\<lambda>t. (vID t, vDepend t)) (vTaskList g)"
    using processRows_keeps [OF kept l(1)] l(2) by simp
  show "vTaskList g' \<noteq> []" using assms(2) arg_cong [OF eq, of length] by auto
qed

lemma drawn_page_lines:
  assumes "Draw n m now g = Some (Inr g')" "vTaskList g \<noteq> []" "known_dependencies (vTaskList g)" "laid_out lay"
    and "l = map (placed (drawn_links lay g' c)) (vTaskList g')"
  shows "DrawDependencies (drawn_links lay g' c) = Inr ((drawn_links lay g' c)\<lparr>rows := l,
      right_side := Some (number_lines 1 (chart_links l)), vDepId := 1 + length (chart_links l)\<rparr>)"
    "\<forall>t \<in> set l. at_its_bar lay g' t" "map (\<lambda>t. (vID t, vDepend t)) l = map (\<lambda>t. (vID t, vDepend t)) (vTaskList g)"
proof -
  let ?s = "drawn_links lay g' c"
  note tasks = drawn_page_tasks [OF assms(1,2)] and there = drawn_page_bars [OF assms(1,2,4)]
  have s: "rows ?s = vTaskList g'" "bar_offset ?s = fst (lay (vDiv g'))" "grid_offset ?s = snd (lay (vDiv g'))"
    by (simp_all add: drawn_links_def)
  have "known_dependencies (rows ?s)"
    using known_dependencies_cong [OF tasks(1) [symmetric] assms(3)] by (simp add: s)
  moreover have "all_laid_out ?s" using there by (simp add: all_laid_out_def s)
  moreover have "clearDependencies (?s\<lparr>rows := l\<rparr>) = ?s\<lparr>rows := l, right_side := Some [], vDepId := 1\<rparr>"
    using clear_fresh [of "?s\<lparr>rows := l\<rparr>"] tasks(2) by (simp add: drawn_links_def)
  ultimately show "DrawDependencies ?s = Inr (?s\<lparr>rows := l,
      right_side := Some (number_lines 1 (chart_links l)), vDepId := 1 + length (chart_links l)\<rparr>)"
    using known_chart_drawn [where s = ?s and l = l] assms(5) by (simp add: s)
  show "map (\<lambda>t. (vID t, vDepend t)) l = map (\<lambda>t. (vID t, vDepend t)) (vTaskList g)"
    using tasks(1) by (simp add: assms(5) placed_keeps comp_def)
  show "\<forall>t \<in> set l. at_its_bar lay g' t"
  proof
    fix t assume "t \<in> set l"
    then obtain u where u: "u \<in> set (vTaskList g')" "t = placed ?s u" using assms(5) by auto
    then obtain a tp w r where o: "bar_offset ?s (vID u) = Some (a, tp, w)" "grid_offset ?s (vID u) = Some r"
      using there unfolding s by (metis not_None_eq surj_pair)
    from placed_bar [OF this] o show "at_its_bar lay g' t" by (simp add: at_its_bar_def u(2) s)
  qed
qed

text \<open>C5: changing the format of a chart with unique identifiers whose dependencies name tasks of the chart ends
  without an error in each of the six formats, whatever lines were on the page before, when the browser lays out
  every bar that is written: the chart has the same tasks with the same dependencies, each at its bar, and the
  page has exactly the lines of these dependencies, task by task, numbered from one without a gap.\<close>

theorem change_format_draws:
  assumes "unique_ids (vTaskList (chart_gantt c))" "vTaskList (chart_gantt c) \<noteq> []" "fmt \<in> formats"
    "known_dependencies (vTaskList (chart_gantt c))" "laid_out lay"
  shows "\<exists>m c'. changeFormat (length (vTaskList (chart_gantt c)) + 1) m now lay fmt c = Some (Inr c')
    \<and> chart_lines c' = Some (number_lines 1 (chart_links (vTaskList (chart_gantt c'))))
    \<and> chart_dep_id c' = 1 + length (chart_links (vTaskList (chart_gantt c')))
    \<and> (\<forall>t \<in> set (vTaskList (chart_gantt c')). at_its_bar lay (chart_gantt c') t)
    \<and> map (\<lambda>t. (vID t, vDepend t)) (vTaskList (chart_gantt c')) = map (\<lambda>t. (vID t, vDepend t)) (vTaskList (chart_gantt c))"
proof -
  let ?n = "length (vTaskList (chart_gantt c)) + 1" and ?g = "chart_gantt c\<lparr>vFormat := fmt\<rparr>"
  obtain l where "processRows now ?n 0 None 1 1 (vTaskList ?g) = Some l"
    using chart_pass_total [OF assms(1), of ?n now] by (auto simp del: processRows.simps)
  then obtain m g' where g': "Draw ?n m now ?g = Some (Inr g')"
    using Draw_after_pass [of now ?n ?g] assms(3) by (auto simp del: processRows.simps)
  define l' where "l' = map (placed (drawn_links lay g' c)) (vTaskList g')"
  have tasks: "vTaskList ?g \<noteq> []" "known_dependencies (vTaskList ?g)" using assms(2,4) by simp_all
  note drawn = drawn_page_lines [OF g' tasks assms(5) l'_def]
  let ?c = "\<lparr>chart_gantt = g'\<lparr>vTaskList := l'\<rparr>, chart_lines = Some (number_lines 1 (chart_links l')),
      chart_dep_id = 1 + length (chart_links l')\<rparr>"
  have "changeFormat ?n m now lay fmt c = Some (Inr ?c)"
    unfolding changeFormat_def setFormat_def using drawn(1) by (simp only: g' option.case sum.case and_then_simps) simp
  moreover have "\<forall>t \<in> set l'. at_its_bar lay (g'\<lparr>vTaskList := l'\<rparr>) t" using drawn(2) by (simp add: at_its_bar_def)
  ultimately show ?thesis using drawn(3) by (intro exI [of _ m] exI [of _ ?c]) simp
qed

definition flat_layout :: page_layout where
  "flat_layout d = (\<lambda>_. Some (0, 4, 20), \<lambda>_. Some 0)"

text \<open>The small chart, with a second task that depends on the first, and lines of an earlier drawing.\<close>

definition linked_chart :: chart where
  "linked_chart =
     \<lparr>chart_gantt = (small_gantt ''week'')\<lparr>vTaskList := [small_chart ! 0, setDepend ''1'' (small_chart ! 1)]\<rparr>,
      chart_lines = Some [new_line 9 0 0 1 1], chart_dep_id = 10\<rparr>"

theorem change_format_draws_witness:
  "\<exists>m c'. changeFormat 3 m 5 flat_layout ''month'' linked_chart = Some (Inr c')
    \<and> chart_lines c' = Some (number_lines 1 (chart_links (vTaskList (chart_gantt c'))))
    \<and> map (\<lambda>t. (vID t, vDepend t)) (vTaskList (chart_gantt c')) = [(1, []), (2, ''1'')]"
proof -
  have n: "to_number ''1'' = Some 1" by code_simp
  have rows: "vTaskList (chart_gantt linked_chart) = [small_chart ! 0, setDepend ''1'' (small_chart ! 1)]"
    by (simp add: linked_chart_def)
  have deps: "known_dependencies (vTaskList (chart_gantt linked_chart))"
    using n by (simp add: rows known_dependencies_def small_chart_def setDepend_def split_no_sep Let_def)
  have ids: "unique_ids (vTaskList (chart_gantt linked_chart))"
    by (simp add: rows unique_ids_def small_chart_def setDepend_def Let_def)
  have ends: "map (\<lambda>t. (vID t, vDepend t)) (vTaskList (chart_gantt linked_chart)) = [(1, []), (2, ''1'')]"
    by (simp add: rows small_chart_def setDepend_def Let_def)
  have len: "length (vTaskList (chart_gantt linked_chart)) + 1 = 3" by (simp add: rows)
  have "laid_out flat_layout" "''month'' \<in> formats" "vTaskList (chart_gantt linked_chart) \<noteq> []"
    by (simp_all add: laid_out_def flat_layout_def formats_def rows)
  from change_format_draws [OF ids this(3,2) deps this(1), of 5]
  show ?thesis unfolding len ends by (elim exE conjE) (intro exI conjI; assumption)
qed

end
