(* ===== verification/Gantt_Valid.thy ===== *)
theory Gantt_Valid
  imports Gantt_Draw
begin

text \<open>
  Charts built and edited through the methods that \<open>JSGantt.TaskItem\<close> and \<open>JSGantt.GanttChart\<close> offer, in
  any order, and what a page gets to see of them: as long as the dates that go in are dates, the pass over
  the tasks, the time span and the places of the bars are dates and numbers.
\<close>

section \<open>Charts in use\<close>

text \<open>A change to a task through one of its methods.\<close>

inductive edited_task :: "task \<Rightarrow> task \<Rightarrow> bool" for t where
  depend: "edited_task t (setDepend s t)"
| "start": "edited_task t (setStart (Some d) t)"
| "end": "edited_task t (setEnd (Some d) t)"
| level: "edited_task t (setLevel n t)"
| kids: "edited_task t (setNumKid n t)"
| comp: "edited_task t (setCompVal c t)"
| start_x: "edited_task t (setStartX i t)"
| start_y: "edited_task t (setStartY i t)"
| end_x: "edited_task t (setEndX i t)"
| end_y: "edited_task t (setEndY i t)"
| opened: "edited_task t (setOpen i t)"
| visible: "v = 0 \<or> v = 1 \<Longrightarrow> edited_task t (setVisible v t)"

text \<open>The dates of a task are given as texts; those of a group are not looked at.\<close>

definition dates_readable :: "(string \<Rightarrow> date) \<Rightarrow> string \<Rightarrow> task_args \<Rightarrow> bool" where
  "dates_readable date_parse fmt a \<longleftrightarrow>
     pGroup a = 1 \<or> parseDateStr date_parse (pStart a) fmt \<noteq> None \<and> parseDateStr date_parse (pEnd a) fmt \<noteq> None"

text \<open>The chart is created with one of the six formats, and changed to one of them.\<close>

inductive used_chart :: "(string \<Rightarrow> date) \<Rightarrow> gantt \<Rightarrow> bool" for date_parse where
  created: "fmt \<in> formats \<Longrightarrow> used_chart date_parse (GanttChart fmt)"
| formats: "used_chart date_parse g \<Longrightarrow> used_chart date_parse (setFormatArr fs g)"
| show_res: "used_chart date_parse g \<Longrightarrow> used_chart date_parse (setShowRes i g)"
| show_dur: "used_chart date_parse g \<Longrightarrow> used_chart date_parse (setShowDur i g)"
| show_comp: "used_chart date_parse g \<Longrightarrow> used_chart date_parse (setShowComp i g)"
| show_start: "used_chart date_parse g \<Longrightarrow> used_chart date_parse (setShowStartDate i g)"
| show_end: "used_chart date_parse g \<Longrightarrow> used_chart date_parse (setShowEndDate i g)"
| input_format: "used_chart date_parse g \<Longrightarrow> used_chart date_parse (setDateInputFormat s g)"
| display_format: "used_chart date_parse g \<Longrightarrow> used_chart date_parse (setDateDisplayFormat s g)"
| caption: "used_chart date_parse g \<Longrightarrow> used_chart date_parse (setCaptionType s g)"
| added: "used_chart date_parse g \<Longrightarrow> dates_readable date_parse (vDateInputFormat g) a \<Longrightarrow>
    used_chart date_parse (AddTaskItem (TaskItem date_parse now (vDateInputFormat g) a) g)"
| edited: "used_chart date_parse g \<Longrightarrow> i < length (vTaskList g) \<Longrightarrow> edited_task (vTaskList g ! i) t \<Longrightarrow>
    used_chart date_parse (g\<lparr>vTaskList := (vTaskList g)[i := t]\<rparr>)"
| drawn: "used_chart date_parse g \<Longrightarrow> Draw n m now g = Some (Inr g') \<Longrightarrow> used_chart date_parse g'"
| reformatted: "used_chart date_parse g \<Longrightarrow> fmt \<in> formats \<Longrightarrow> setFormat n m now fmt g = Some (Inr g') \<Longrightarrow> used_chart date_parse g'"

section \<open>Valid charts\<close>

definition valid_task :: "task \<Rightarrow> bool" where
  "valid_task t \<longleftrightarrow> vStart t \<noteq> None \<and> vEnd t \<noteq> None \<and> (vVisible t = 0 \<or> vVisible t = 1)"

text \<open>No place on the page is \<open>NaN\<close>, and both tables have the same rows.\<close>

definition valid_drawing :: "drawing \<Rightarrow> bool" where
  "valid_drawing d \<longleftrightarrow>
     chart_width d \<noteq> None \<and> (\<forall>b \<in> set (bars d). bar_left b \<noteq> None \<and> bar_width b \<noteq> None)
     \<and> map row_id (left_rows d) = map bar_id (bars d)
     \<and> map row_hidden (left_rows d) = map bar_hidden (bars d)
     \<and> (\<forall>r \<in> set (left_rows d). length (row_cells r) = length (columns d))"

definition valid_chart :: "gantt \<Rightarrow> bool" where
  "valid_chart g \<longleftrightarrow>
     (\<forall>t \<in> set (vTaskList g). valid_task t) \<and> length (vFormatArr g) \<le> 4 \<and> vFormat g \<in> formats
     \<and> (case vDiv g of None \<Rightarrow> True | Some d \<Rightarrow> valid_drawing d)"

lemma valid_edited: "edited_task t t' \<Longrightarrow> valid_task t \<Longrightarrow> valid_task t'"
  by (induction rule: edited_task.induct)
    (simp_all add: valid_task_def setDepend_def setStart_def setEnd_def setLevel_def setNumKid_def setCompVal_def
      setStartX_def setStartY_def setEndX_def setEndY_def setOpen_def setVisible_def)

lemma valid_TaskItem: "dates_readable dp fmt a \<Longrightarrow> valid_task (TaskItem dp now fmt a)"
  by (auto simp: valid_task_def dates_readable_def TaskItem_def)

lemma set_list_update: "\<forall>x \<in> set l. P x \<Longrightarrow> P y \<Longrightarrow> \<forall>x \<in> set (l[i := y]). P x"
  using set_update_subset_insert [of l i y] by blast

section \<open>The pass over the tasks\<close>

definition valid_acc :: "row_acc \<Rightarrow> bool" where
  "valid_acc a \<longleftrightarrow> vMinDate a \<noteq> None \<and> vMaxDate a \<noteq> None"

lemma valid_new_acc [simp]: "valid_acc (new_acc now)"
  by (simp add: valid_acc_def new_acc_def)

lemma valid_add_kid: "valid_acc a \<Longrightarrow> valid_task t \<Longrightarrow> valid_acc (add_kid a t)"
  by (simp add: valid_acc_def valid_task_def add_kid_def)

lemma valid_finish:
  "valid_acc a \<Longrightarrow> \<forall>t \<in> set l. valid_task t \<Longrightarrow> \<forall>t \<in> set (finish_row row a l). valid_task t"
proof (cases row)
  case (Some r)
  assume v: "valid_acc a" "\<forall>t \<in> set l. valid_task t"
  show ?thesis
  proof (cases "r < length l")
    case True
    then have "valid_task (sum_up a (l ! r))"
      using v by (auto simp: valid_task_def valid_acc_def sum_up_def dest: nth_mem)
    then show ?thesis using v set_list_update by (simp add: Some finish_row_def)
  qed (use v in \<open>simp add: Some finish_row_def list_update_beyond\<close>)
qed (simp add: finish_row_def)

lemma pass_on_flag: "v = 0 \<or> v = 1 \<Longrightarrow> pass_on v n = 0 \<or> pass_on v n = 1"
  by (simp add: pass_on_def)

lemma row_loop_valid:
  assumes rec: "\<And>q row n v l l'. rec q row n v l = Some l' \<Longrightarrow> v = 0 \<or> v = 1 \<Longrightarrow> \<forall>t \<in> set l. valid_task t \<Longrightarrow>
      length l' = length l \<and> (\<forall>t \<in> set l'. valid_task t)"
    and v: "v = 0 \<or> v = 1"
  shows "row_loop rec p lvl v is a l = Some (a', l') \<Longrightarrow> \<forall>i \<in> set is. i < length l \<Longrightarrow> valid_acc a \<Longrightarrow>
    \<forall>t \<in> set l. valid_task t \<Longrightarrow> valid_acc a' \<and> length l' = length l \<and> (\<forall>t \<in> set l'. valid_task t)"
proof (induction "is" arbitrary: a l)
  case (Cons i "is")
  let ?t = "(l ! i)\<lparr>vVisible := v, vLevel := lvl\<rparr>"
  let ?l = "l[i := ?t]"
  show ?case
  proof (cases "vParent (l ! i) = p")
    case True
    have "valid_task (l ! i)" using Cons.prems(2,4) by simp
    then have "valid_task ?t" using v by (simp add: valid_task_def)
    with Cons.prems(4) have l: "\<forall>t \<in> set ?l. valid_task t" by (rule set_list_update)
    obtain l2 where l2: "row_loop rec p lvl v is (add_kid a (l2 ! i)) l2 = Some (a', l')"
      "length l2 = length l" "\<forall>t \<in> set l2. valid_task t"
    proof (cases "vGroup (l ! i) = 1")
      case True
      then obtain l2 where "rec (vID (l ! i)) (Some i) (lvl + 1) (pass_on v (vOpen (l ! i))) ?l = Some l2"
        "row_loop rec p lvl v is (add_kid a (l2 ! i)) l2 = Some (a', l')"
        using Cons.prems(1) \<open>vParent (l ! i) = p\<close> by (auto simp: Let_def bind_eq_Some_conv)
      then show thesis using that [of l2] rec [OF _ pass_on_flag [OF v] l] by simp
    next
      case False
      then show thesis using that [of ?l] Cons.prems(1) \<open>vParent (l ! i) = p\<close> l by (simp add: Let_def)
    qed
    have "valid_task (l2 ! i)" using l2(2,3) Cons.prems(2) by simp
    then have "valid_acc (add_kid a (l2 ! i))" by (rule valid_add_kid [OF Cons.prems(3)])
    with l2(2) show ?thesis using Cons.IH [OF l2(1) _ _ l2(3)] Cons.prems(2) by simp
  next
    case False
    then have "row_loop rec p lvl v is a l = Some (a', l')" using Cons.prems(1) by (simp add: Let_def)
    then show ?thesis using Cons.IH [of a l] Cons.prems(2-4) by simp
  qed
qed simp

lemma processRows_valid:
  "processRows now n p row lvl v l = Some l' \<Longrightarrow> v = 0 \<or> v = 1 \<Longrightarrow> \<forall>t \<in> set l. valid_task t \<Longrightarrow>
   length l' = length l \<and> (\<forall>t \<in> set l'. valid_task t)"
proof (induction n arbitrary: p row lvl v l l')
  case (Suc n)
  then obtain a l1 where l1: "row_loop (processRows now n) p lvl v [0..<length l] (new_acc now) l = Some (a, l1)"
    "l' = finish_row row a l1" by auto
  have "valid_acc a \<and> length l1 = length l \<and> (\<forall>t \<in> set l1. valid_task t)"
    by (rule row_loop_valid [OF Suc.IH Suc.prems(2) l1(1)]) (use Suc.prems(3) in simp_all)
  then show ?case using valid_finish [of a l1 row] unfolding l1(2) by (auto simp: finish_row_def split: option.splits)
qed simp

section \<open>Drawing\<close>

lemma min_boundary_valid: "min_boundary fmt v \<noteq> None"
  using quarter_start_valid [of v] by (auto simp: min_boundary_def)

lemma max_boundary_date: "max_boundary fmt v \<noteq> None"
  by (auto simp: max_boundary_def quarter_end_def setFullYear_def Let_def)

lemma parsed_diff_valid: "parsed_diff (Some a) (Some b) u \<noteq> None"
  by (simp add: parsed_diff_def)

lemma known_day_width: "fmt \<in> formats \<Longrightarrow> day_width fmt \<noteq> None" "fmt \<in> formats \<Longrightarrow> col_unit fmt \<noteq> 0"
  by (auto simp: formats_def day_width_def col_unit_def)

lemma draw_bar_valid:
  assumes "valid_task t"
  shows "bar_left (fst (draw_bar g (Some w) unit (Some a) t fmt)) \<noteq> None"
    "bar_width (fst (draw_bar g (Some w) unit (Some a) t fmt)) \<noteq> None"
    "bar_id (fst (draw_bar g q unit vMin t fmt)) = vID t"
    "bar_hidden (fst (draw_bar g q unit vMin t fmt)) = (vVisible t = 0)"
proof -
  obtain s e where d: "vStart t = Some s" "vEnd t = Some e" using assms by (auto simp: valid_task_def)
  have diff: "\<exists>q. parsed_diff (Some x) (Some y) u = Some q" for x y u by (simp add: parsed_diff_def)
  show "bar_left (fst (draw_bar g (Some w) unit (Some a) t fmt)) \<noteq> None"
    using diff by (auto simp: draw_bar_def task_left_def Let_def d pixels_def parsed_diff_def)
  show "bar_width (fst (draw_bar g (Some w) unit (Some a) t fmt)) \<noteq> None"
    using diff by (auto simp: draw_bar_def task_right_def Let_def d width_pixels_def parsed_diff_def)
qed (simp_all add: draw_bar_def Let_def)

lemma draw_bars_valid:
  "\<forall>t \<in> set l. valid_task t \<Longrightarrow>
   (\<forall>b \<in> set (fst (draw_bars g (Some w) unit (Some a) l fmt)). bar_left b \<noteq> None \<and> bar_width b \<noteq> None)
   \<and> map bar_id (fst (draw_bars g (Some w) unit (Some a) l fmt)) = map vID l
   \<and> map bar_hidden (fst (draw_bars g (Some w) unit (Some a) l fmt)) = map (\<lambda>t. vVisible t = 0) l"
proof (induction l arbitrary: fmt)
  case (Cons t l)
  then show ?case using draw_bar_valid [of t] by (simp add: split_def Let_def)
qed simp

lemma draw_bars_known: "fmt \<in> formats \<Longrightarrow> snd (draw_bars g w unit vMin l fmt) \<in> formats"
proof (induction l arbitrary: fmt)
  case (Cons t l)
  have "format_after fmt \<in> formats" using Cons.prems by (simp add: format_after_def formats_def)
  then have "snd (draw_bar g w unit vMin t fmt) \<in> formats" using Cons.prems by (simp add: draw_bar_def Let_def)
  from Cons.IH [OF this] show ?case by (simp add: split_def Let_def)
qed simp

lemma cells_of_columns: "length (row_cells (draw_left_row g t)) = length (draw_columns g)"
  by (simp add: draw_left_row_def draw_columns_def)

lemma draw_table_valid:
  assumes t: "draw_table m now g l (Some a) (Some b) = Some g'" and l: "\<forall>t \<in> set l. valid_task t"
    and "length (vFormatArr g) \<le> 4" "vFormat g \<in> formats"
  shows "valid_chart g'"
proof -
  obtain w where w: "day_width (vFormat g) = Some w" using known_day_width(1) [OF assms(4)] by blast
  let ?bars = "draw_bars g (Some w) (of_int (col_unit (vFormat g))) (Some a) l (vFormat g)"
  obtain major minor where h: "draw_headers m now (vFormat g) (vDateDisplayFormat g) (Some a) (Some b) = Some (major, minor)"
    using t by (auto simp: draw_table_def Let_def)
  have "\<exists>d. vDiv g' = Some d \<and> vTaskList g' = l \<and> vFormatArr g' = vFormatArr g \<and> vFormat g' = snd ?bars
      \<and> chart_width d \<noteq> None
      \<and> bars d = fst ?bars \<and> left_rows d = map (draw_left_row g) l \<and> columns d = draw_columns g"
    using t [symmetric] known_day_width(2) [OF assms(4)]
    by (simp add: draw_table_def Let_def h split_def parsed_diff_def table_width_def w)
  then obtain d where d: "chart_width d \<noteq> None" "bars d = fst ?bars" "left_rows d = map (draw_left_row g) l"
    "columns d = draw_columns g"
    and g': "vDiv g' = Some d" "vTaskList g' = l" "vFormatArr g' = vFormatArr g" "vFormat g' = snd ?bars"
    by blast
  have "valid_drawing d"
    using draw_bars_valid [OF l] d(1) unfolding valid_drawing_def d(2-4)
    by (simp add: cells_of_columns) (simp add: draw_left_row_def comp_def)
  moreover have "vFormat g' \<in> formats" unfolding g'(4) by (rule draw_bars_known [OF assms(4)])
  ultimately show ?thesis using l assms(3) by (simp add: valid_chart_def g'(1-3))
qed

lemma Draw_valid:
  assumes "Draw n m now g = Some (Inr g')" "valid_chart g"
  shows "valid_chart g'"
proof (cases "vTaskList g = []")
  case False
  obtain l a b hs where r: "processRows now n 0 None 1 1 (vTaskList g) = Some l" "getMinDate now l (vFormat g) = Inr a"
    "getMaxDate now l (vFormat g) = Inr b" "draw_table m now g l a b = Some g'"
    using Draw_cases [OF assms(1) False] by metis
  have l: "length l = length (vTaskList g)" "\<forall>t \<in> set l. valid_task t"
    using processRows_valid [OF r(1)] assms(2) by (auto simp: valid_chart_def)
  then have ne: "l \<noteq> []" using False by auto
  have "\<forall>t \<in> set l. \<exists>s. vStart t = Some s" "\<forall>t \<in> set l. \<exists>s. vEnd t = Some s"
    using l(2) by (auto simp: valid_task_def)
  then have "a \<noteq> None" "b \<noteq> None"
    using r(2,3) getMinDate_valid [OF ne] getMaxDate_valid [OF ne] min_boundary_valid max_boundary_date
    by (metis sum.inject(2))+
  then show ?thesis using draw_table_valid [of m now g l _ _ g'] r(4) l(2) assms(2) by (auto simp: valid_chart_def)
qed (use assms in \<open>simp add: Draw_def\<close>)

section \<open>Properties\<close>

lemma valid_used: "used_chart dp g \<Longrightarrow> valid_chart g"
proof (induction rule: used_chart.induct)
  case (added g a now)
  then show ?case using valid_TaskItem by (simp add: valid_chart_def AddTaskItem_def)
next
  case (edited g i t)
  then have "valid_task t" using valid_edited by (simp add: valid_chart_def)
  then show ?case using edited.IH set_list_update [of "vTaskList g" valid_task t i] by (simp add: valid_chart_def)
next
  case (drawn g n m now g')
  then show ?case using Draw_valid by blast
next
  case (reformatted g fmt n m now g')
  have "valid_chart (g\<lparr>vFormat := fmt\<rparr>)" using reformatted.IH reformatted.hyps(2) by (simp add: valid_chart_def)
  then show ?case using Draw_valid reformatted.hyps(3) unfolding setFormat_def by blast
qed (simp_all add: valid_chart_def GanttChart_def setFormatArr_def Let_def setShowRes_def setShowDur_def
      setShowComp_def setShowStartDate_def setShowEndDate_def setDateInputFormat_def setDateDisplayFormat_def
      setCaptionType_def)

text \<open>A chart with a format that the code does not know has neither a width nor a place for a bar.\<close>

lemma unknown_format_nan:
  assumes "draw_table m now g l a b = Some g'" "vFormat g \<notin> formats" "vDiv g' = Some d"
  shows "chart_width d = None \<and> (\<forall>b \<in> set (bars d). bar_left b = None)"
proof -
  have unit: "col_unit (vFormat g) = 0" using assms(2) by (simp add: col_unit_def formats_def)
  have "bar_left b = None" if "b \<in> set (fst (draw_bars g None q a ts fmt))" for q ts fmt b
    using that by (induction ts arbitrary: fmt) (auto simp: draw_bar_def pixels_def Let_def split_def)
  then show ?thesis using assms(1,3)
    by (auto simp: draw_table_def Let_def day_width_def table_width_def unit split_def)
qed

text \<open>C25: However a chart with one of the six formats is built, configured, edited, drawn and changed to one of
  the six formats through its methods, it keeps such a format, every task has valid dates and a visibility of 0 or 1, at most four formats are offered, and the page that was drawn last
  has a width, a place and a width for every bar, the same rows with the same visibility on both sides, and
  in every row of the left table as many cells as there are columns.\<close>

theorem used_charts_valid:
  assumes "used_chart date_parse g"
  shows "valid_chart g"
  using assms by (rule valid_used)

definition one_task_chart :: gantt where
  "one_task_chart =
     AddTaskItem (TaskItem (\<lambda>_. None) 5 ''mm/dd/yyyy''
       \<lparr>pID = 1, pName = ''Paint'', pStart = ''3/15/2024'', pEnd = ''3/17/2024'', pColor = ''ff0000'', pLink = [], pMile = 0,
        pRes = ''Ann'', pComp = Some 40, pGroup = 0, pParent = 0, pOpen = 1, pDepend = [], pCaption = []\<rparr>)
       (GanttChart ''day'')"

lemma one_task_chart_used: "used_chart (\<lambda>_. None) one_task_chart"
proof -
  have "dates_readable (\<lambda>_. None) (vDateInputFormat (GanttChart ''day''))
      \<lparr>pID = 1, pName = ''Paint'', pStart = ''3/15/2024'', pEnd = ''3/17/2024'', pColor = ''ff0000'', pLink = [], pMile = 0,
       pRes = ''Ann'', pComp = Some 40, pGroup = 0, pParent = 0, pOpen = 1, pDepend = [], pCaption = []\<rparr>"
    by code_simp
  moreover have "''day'' \<in> formats" by (simp add: formats_def)
  ultimately show ?thesis using used_chart.added [OF used_chart.created, of "''day''" "\<lambda>_. None" _ 5]
    unfolding one_task_chart_def by (simp add: GanttChart_def)
qed

theorem used_charts_valid_witness: "\<exists>m g'. Draw 2 m 5 one_task_chart = Some (Inr g') \<and> valid_chart g'"
proof -
  have "unique_ids (vTaskList one_task_chart)" "length (vTaskList one_task_chart) = 1" "vFormat one_task_chart = ''day''"
    by (simp_all add: one_task_chart_def AddTaskItem_def GanttChart_def TaskItem_def unique_ids_def)
  moreover from this obtain l where "processRows 5 2 0 None 1 1 (vTaskList one_task_chart) = Some l"
    using chart_pass_total [of "vTaskList one_task_chart" 2 5] by (auto simp del: processRows.simps)
  ultimately obtain m g' where "Draw 2 m 5 one_task_chart = Some (Inr g')"
    using Draw_after_pass by (metis formats_def insertCI)
  then show ?thesis using used_charts_valid [OF used_chart.drawn [OF one_task_chart_used]] by blast
qed

end
