(* ===== verification/Portal.thy ===== *)
theory Portal
  imports Js_Prelude
begin

text \<open>
  Moving the portlets of a portal page with the mouse, \<open>plugins/myportal.js\<close>: the handlers of the sortable
  columns, the search for the neighbour of the portlet that was dropped, the request that tells the server
  its new place, and the loading image.
\<close>

section \<open>The page\<close>

text \<open>The attributes of the element of a portlet; \<^const>\<open>None\<close> is an attribute that is not set.\<close>

record portlet =
  columnseqid :: "string option"
  portalpageid :: "string option"
  portalportletid :: "string option"
  portletseqid :: "string option"

record portlet_update =
  mode :: "string option"
  destinationColumn :: "string option"
  originPortlet :: "string option \<times> string option \<times> string option"
  destinationPortlet :: "(string option \<times> string option \<times> string option) option"

record portal =
  portlets :: "string \<Rightarrow> portlet option"
  isUpdated :: bool
  destinationColumnId :: "string option"
  mainSection :: bool
  loadingImages :: nat
  updates :: "portlet_update list"

text \<open>An attribute of what \<open>jQuery('#' + id)\<close> finds.\<close>

definition item_attr :: "(portlet \<Rightarrow> string option) \<Rightarrow> string \<Rightarrow> portal \<Rightarrow> string option" where
  "item_attr f i s = Option.bind (portlets s i) f"

definition item_id :: "string \<Rightarrow> portal \<Rightarrow> string option" where
  "item_id i s = map_option (\<lambda>_. i) (portlets s i)"

section \<open>Requests\<close>

definition onStartRequest :: "portal \<Rightarrow> portal result" where
  "onStartRequest s = (if mainSection s then Inr (s\<lparr>loadingImages := loadingImages s + 1\<rparr>) else Inl TypeError)"

text \<open>The first image goes, if there is one.\<close>

definition onCompleteRequest :: "portal \<Rightarrow> portal" where
  "onCompleteRequest s = s\<lparr>loadingImages := loadingImages s - 1\<rparr>"

definition portlet_key :: "string \<Rightarrow> portal \<Rightarrow> string option \<times> string option \<times> string option" where
  "portlet_key i s = (item_attr portalpageid i s, item_attr portalportletid i s, item_attr portletseqid i s)"

definition updatePortletOrder ::
    "string \<Rightarrow> string option \<Rightarrow> string option \<Rightarrow> string option \<Rightarrow> portal \<Rightarrow> portal result" where
  "updatePortletOrder currentItem nextObject m dest s =
     and_then (onStartRequest s) (\<lambda>s.
       Inr (s\<lparr>updates := updates s @
         [\<lparr>mode = m, destinationColumn = dest, originPortlet = portlet_key currentItem s,
           destinationPortlet = map_option (\<lambda>n. portlet_key n s) nextObject\<rparr>]\<rparr>))"

section \<open>The place of the dropped portlet\<close>

text \<open>The neighbours of the first occurrence of the portlet.\<close>

fun find_item :: "string option \<Rightarrow> string \<Rightarrow> string list \<Rightarrow> (string option \<times> string option) option" where
  "find_item before x [] = None"
| "find_item before x (y # ys) =
     (if x = y then Some (before, case ys of [] \<Rightarrow> None | z # _ \<Rightarrow> Some z) else find_item (Some y) x ys)"

definition in_column :: "string option \<Rightarrow> string option \<Rightarrow> portal \<Rightarrow> bool" where
  "in_column item dest s \<longleftrightarrow> (case item of None \<Rightarrow> False | Some i \<Rightarrow> item_attr columnseqid i s = dest)"

definition next_object ::
    "string \<Rightarrow> string option \<Rightarrow> string option \<Rightarrow> string option \<Rightarrow> portal \<Rightarrow> (string option \<times> string option) result" where
  "next_object currentItem beforeItem afterItem dest s =
     (if dest \<noteq> None \<and> dest \<noteq> item_attr columnseqid currentItem s then
        if \<not> in_column beforeItem dest s \<and> \<not> in_column afterItem dest s then Inr (None, Some ''NEW'')
        else if in_column beforeItem dest s then Inr (beforeItem, Some ''AFTER'')
        else if in_column afterItem dest s then Inr (afterItem, Some ''BEFORE'')
        else Inr (None, None)
      else
        case beforeItem of
          None \<Rightarrow> Inl TypeError
        | Some b \<Rightarrow>
            if item_id b s \<noteq> None then Inr (beforeItem, Some ''AFTER'')
            else (case afterItem of
                    None \<Rightarrow> Inl TypeError
                  | Some a \<Rightarrow> if item_id a s \<noteq> None then Inr (afterItem, Some ''BEFORE'') else Inr (None, None)))"

definition set_column :: "string \<Rightarrow> string option \<Rightarrow> portal \<Rightarrow> portal" where
  "set_column i dest s =
     (case dest of
        None \<Rightarrow> s
      | Some d \<Rightarrow> s\<lparr>portlets := (portlets s)(i := map_option (columnseqid_update (\<lambda>_. Some d)) (portlets s i))\<rparr>)"

definition preparePortletBackgroundOrderChange :: "string list \<Rightarrow> string \<Rightarrow> portal \<Rightarrow> portal result" where
  "preparePortletBackgroundOrderChange serializedDate dragedItemId s =
     (if \<not> isUpdated s then Inr s
      else case destinationColumnId s of
             None \<Rightarrow> Inl TypeError
           | Some column \<Rightarrow>
               let parts = split column ''_'';
                   dest = (if length parts > 1 then Some (parts ! 1) else None);
                   dataArray = filter (\<lambda>v. v \<noteq> []) serializedDate
               in (case find_item None dragedItemId dataArray of
                     None \<Rightarrow> Inl TypeError
                   | Some (beforeItem, afterItem) \<Rightarrow>
                       and_then (next_object dragedItemId beforeItem afterItem dest s) (\<lambda>(n, m).
                         and_then (updatePortletOrder dragedItemId n m dest s) (\<lambda>s.
                           Inr (set_column dragedItemId dest s)))))"

text \<open>The handlers of the sortable: \<open>update\<close> runs for every column that changes, \<open>stop\<close> at the end.\<close>

definition sort_update :: "string \<Rightarrow> portal \<Rightarrow> portal" where
  "sort_update column s = s\<lparr>isUpdated := True, destinationColumnId := Some column\<rparr>"

definition sort_stop :: "string list \<Rightarrow> string \<Rightarrow> portal \<Rightarrow> portal result" where
  "sort_stop order item s =
     and_then (preparePortletBackgroundOrderChange order item s)
       (\<lambda>s. Inr (s\<lparr>isUpdated := False, destinationColumnId := None\<rparr>))"

section \<open>Layouts\<close>

text \<open>What the requests are about: the columns of a page with their portlets.  What the server makes of a request is
  not a part of the model.\<close>

type_synonym layout = "(string \<times> string list) list"

definition order_of :: "layout \<Rightarrow> string list" where
  "order_of l = concat (map snd l)"

text \<open>The page shows a layout: every portlet is an element that carries the column it is in.\<close>

definition displays :: "layout \<Rightarrow> portal \<Rightarrow> bool" where
  "displays l s \<longleftrightarrow>
     distinct (map fst l) \<and> distinct (order_of l) \<and> [] \<notin> set (order_of l)
     \<and> (\<forall>(c, ys) \<in> set l. \<forall>y \<in> set ys. item_attr columnseqid y s = Some c)"


section \<open>Lemmas\<close>

definition last_opt :: "'a list \<Rightarrow> 'a option" where
  "last_opt xs = (if xs = [] then None else Some (last xs))"

definition hd_opt :: "'a list \<Rightarrow> 'a option" where
  "hd_opt xs = (if xs = [] then None else Some (hd xs))"

lemma find_item_middle:
  "x \<notin> set pre \<Longrightarrow> find_item b x (pre @ x # post) = Some (if pre = [] then b else Some (last pre), hd_opt post)"
  by (induction pre arbitrary: b) (auto simp: hd_opt_def split: list.splits)

lemma split_column: "CHR ''_'' \<notin> set d \<Longrightarrow> split (''portalColumn_'' @ d) ''_'' = [''portalColumn'', d]"
  using split_single [of "CHR ''_''" "''portalColumn''" d] by (simp add: split_no_sep)

lemma order_of_append [simp]: "order_of (ls @ rs) = order_of ls @ order_of rs" "order_of ((d, ys) # rs) = ys @ order_of rs"
  "order_of [] = []"
  by (simp_all add: order_of_def)

lemma order_of_set: "y \<in> set (order_of l) \<longleftrightarrow> (\<exists>c ys. (c, ys) \<in> set l \<and> y \<in> set ys)"
  by (force simp: order_of_def)

text \<open>The columns of the portlets that surround the column \<open>d\<close>.\<close>

lemma displays_column:
  assumes "displays (ls @ (d, ys) # rs) s"
  shows "y \<in> set ys \<Longrightarrow> item_attr columnseqid y s = Some d"
    and "y \<in> set (order_of ls) \<union> set (order_of rs) \<Longrightarrow> \<exists>c. item_attr columnseqid y s = Some c \<and> c \<noteq> d"
proof -
  show "y \<in> set ys \<Longrightarrow> item_attr columnseqid y s = Some d" using assms by (auto simp: displays_def)
  show "\<exists>c. item_attr columnseqid y s = Some c \<and> c \<noteq> d" if "y \<in> set (order_of ls) \<union> set (order_of rs)"
  proof -
    from that obtain c zs where c: "(c, zs) \<in> set ls \<union> set rs" "y \<in> set zs"
      by (auto simp: order_of_set)
    then have "item_attr columnseqid y s = Some c" using assms by (fastforce simp: displays_def)
    moreover have "c \<in> fst ` set ls \<union> fst ` set rs" using c(1) image_iff by fastforce
    then have "c \<noteq> d" using assms by (auto simp: displays_def)
    ultimately show ?thesis by blast
  qed
qed

text \<open>The page after a drop shows the layout with the portlet.\<close>

lemma displays_put:
  assumes "displays (ls @ (d, as @ bs) # rs) s" "x \<notin> set (order_of (ls @ (d, as @ bs) # rs))" "x \<noteq> []"
    "item_attr columnseqid x s' = Some d" "\<And>y. y \<noteq> x \<Longrightarrow> item_attr columnseqid y s' = item_attr columnseqid y s"
  shows "displays (ls @ (d, as @ x # bs) # rs) s'"
proof -
  have d: "distinct (map fst (ls @ (d, as @ bs) # rs))" "distinct (order_of (ls @ (d, as @ bs) # rs))"
    "[] \<notin> set (order_of (ls @ (d, as @ bs) # rs))" using assms(1) by (simp_all add: displays_def)
  have "item_attr columnseqid y s' = Some c" if "(c, ys) \<in> set (ls @ (d, as @ bs) # rs)" "y \<in> set ys" for c y ys
  proof -
    have "y \<in> set (order_of (ls @ (d, as @ bs) # rs))" using that order_of_set by blast
    then have "y \<noteq> x" using assms(2) by blast
    moreover have "item_attr columnseqid y s = Some c" using assms(1) that unfolding displays_def by blast
    ultimately show ?thesis using assms(5) by simp
  qed
  then have "\<forall>(c, ys) \<in> set (ls @ (d, as @ x # bs) # rs). \<forall>y \<in> set ys. item_attr columnseqid y s' = Some c"
    using assms(4) by fastforce
  moreover have "distinct (order_of (ls @ (d, as @ x # bs) # rs))" using d(2) assms(2) by auto
  ultimately show ?thesis using d assms(3) by (auto simp: displays_def)
qed


section \<open>A drop\<close>

text \<open>What a drop sends and changes, once the neighbour is known.\<close>

lemma drop_sends:
  assumes "filter (\<lambda>v. v \<noteq> []) order = pre @ x # post" "x \<notin> set pre" "CHR ''_'' \<notin> set d" "mainSection s"
    "next_object x (last_opt pre) (hd_opt post) (Some d) (sort_update (''portalColumn_'' @ d) s) = Inr (n, m)"
  shows "\<exists>s'. sort_stop order x (sort_update (''portalColumn_'' @ d) s) = Inr s'
    \<and> updates s' = updates s @ [\<lparr>mode = m, destinationColumn = Some d, originPortlet = portlet_key x s,
         destinationPortlet = map_option (\<lambda>n. portlet_key n s) n\<rparr>]
    \<and> portlets s' = (portlets s)(x := map_option (columnseqid_update (\<lambda>_. Some d)) (portlets s x))
    \<and> loadingImages s' = loadingImages s + 1 \<and> \<not> isUpdated s'"
proof -
  have "portlet_key i (s\<lparr>isUpdated := a, destinationColumnId := b, loadingImages := c\<rparr>) = portlet_key i s" for i a b c
    by (simp add: portlet_key_def item_attr_def)
  moreover have "sort_update (''portalColumn_'' @ d) s =
      s\<lparr>isUpdated := True, destinationColumnId := Some (''portalColumn_'' @ d)\<rparr>"
    by (simp add: sort_update_def)
  ultimately show ?thesis
    using assms(4,5) find_item_middle [OF assms(2), of None post] split_column [OF assms(3)] assms(1)
    by (simp add: sort_stop_def preparePortletBackgroundOrderChange_def Let_def last_opt_def
        updatePortletOrder_def onStartRequest_def set_column_def)
qed

lemma item_attr_sort_update [simp]: "item_attr f i (sort_update c s) = item_attr f i s" "item_id i (sort_update c s) = item_id i s"
  by (simp_all add: item_attr_def item_id_def sort_update_def)

lemma in_column_simps [simp]: "\<not> in_column None d s" "in_column (Some i) d s \<longleftrightarrow> item_attr columnseqid i s = d"
  by (simp_all add: in_column_def)

text \<open>C13: for a portlet dropped in another column exactly one request is sent; it names that column and the neighbour
  of the portlet in it, for any layout of the page and any place in the column: after the one above it if there is one,
  otherwise before the one below it, and as new in an empty column.  Afterwards the elements carry the columns of the
  new layout.\<close>

theorem portlet_enters_column:
  assumes "displays (ls @ (d, as @ bs) # rs) s" "x \<notin> set (order_of (ls @ (d, as @ bs) # rs))" "x \<noteq> []"
    "item_attr columnseqid x s = Some c" "c \<noteq> d" "CHR ''_'' \<notin> set d" "mainSection s"
    "filter (\<lambda>v. v \<noteq> []) order = order_of (ls @ (d, as @ x # bs) # rs)"
  shows "\<exists>s'. sort_stop order x (sort_update (''portalColumn_'' @ d) s) = Inr s'
    \<and> updates s' = updates s @ [\<lparr>mode = Some (if as \<noteq> [] then ''AFTER'' else if bs \<noteq> [] then ''BEFORE'' else ''NEW''),
         destinationColumn = Some d, originPortlet = portlet_key x s,
         destinationPortlet = (if as \<noteq> [] then Some (portlet_key (last as) s)
                               else if bs \<noteq> [] then Some (portlet_key (hd bs) s) else None)\<rparr>]
    \<and> displays (ls @ (d, as @ x # bs) # rs) s'"
proof -
  let ?s = "sort_update (''portalColumn_'' @ d) s" and ?pre = "order_of ls @ as" and ?post = "bs @ order_of rs"
  let ?before = "last_opt ?pre" and ?after = "hd_opt ?post"
  note col = displays_column [OF assms(1)]
  have before: "in_column ?before (Some d) ?s \<longleftrightarrow> as \<noteq> []" "as \<noteq> [] \<Longrightarrow> ?before = Some (last as)"
    using col(1) [of "last as"] col(2) [of "last (order_of ls)"] by (auto simp: last_opt_def)
  have after: "in_column ?after (Some d) ?s \<longleftrightarrow> bs \<noteq> []" "bs \<noteq> [] \<Longrightarrow> ?after = Some (hd bs)"
    using col(1) [of "hd bs"] col(2) [of "hd (order_of rs)"] by (auto simp: hd_opt_def)
  let ?n = "if as \<noteq> [] then Some (last as) else if bs \<noteq> [] then Some (hd bs) else None"
  let ?m = "Some (if as \<noteq> [] then ''AFTER'' else if bs \<noteq> [] then ''BEFORE'' else ''NEW'')"
  have "next_object x ?before ?after (Some d) ?s = Inr (?n, ?m)"
  proof (cases "as = []")
    case True
    then show ?thesis using before(1) after assms(4,5) by (cases "bs = []") (simp_all add: next_object_def)
  next
    case False
    then show ?thesis using before assms(4,5) by (simp add: next_object_def)
  qed
  from drop_sends [OF _ _ assms(6,7) this, of order] assms(2,8)
  obtain s' where s': "sort_stop order x ?s = Inr s'"
    "updates s' = updates s @ [\<lparr>mode = ?m, destinationColumn = Some d, originPortlet = portlet_key x s,
         destinationPortlet = map_option (\<lambda>n. portlet_key n s) ?n\<rparr>]"
    "portlets s' = (portlets s)(x := map_option (columnseqid_update (\<lambda>_. Some d)) (portlets s x))"
    by auto
  have "map_option (\<lambda>n. portlet_key n s) ?n = (if as \<noteq> [] then Some (portlet_key (last as) s)
      else if bs \<noteq> [] then Some (portlet_key (hd bs) s) else None)" by simp
  moreover have "displays (ls @ (d, as @ x # bs) # rs) s'"
    using assms(4) by (intro displays_put [OF assms(1-3)]) (auto simp: item_attr_def s'(3) bind_eq_Some_conv)
  ultimately show ?thesis using s'(1,2) by (intro exI conjI) (simp_all only:)
qed

definition two_columns :: portal where
  "two_columns =
     \<lparr>portlets = map_of (map (\<lambda>(i, c). (i, \<lparr>columnseqid = Some c, portalpageid = Some ''Home'', portalportletid = Some i,
         portletseqid = Some ''1''\<rparr>)) [(''PP_a'', ''00001''), (''PP_b'', ''00001''), (''PP_c'', ''00002'')]),
      isUpdated = False, destinationColumnId = None, mainSection = True, loadingImages = 0, updates = []\<rparr>"

lemma two_columns_display:
  "displays [(''00001'', [''PP_a'']), (''00002'', [''PP_c''])] two_columns"
  "displays [(''00001'', [''PP_a'']), (''00002'', [])] two_columns"
  "displays [(''00001'', []), (''00002'', [''PP_c''])] two_columns"
  "displays [(''00001'', [''PP_a'', ''PP_b'']), (''00002'', [])] two_columns"
  by (simp_all add: displays_def two_columns_def item_attr_def)

theorem portlet_enters_column_witness:
  "\<exists>s'. sort_stop [''PP_a'', ''PP_c'', ''PP_b''] ''PP_b'' (sort_update ''portalColumn_00002'' two_columns) = Inr s'
    \<and> map mode (updates s') = [Some ''AFTER'']
    \<and> map destinationPortlet (updates s') = [Some (Some ''Home'', Some ''PP_c'', Some ''1'')]
    \<and> item_attr columnseqid ''PP_b'' s' = Some ''00002''"
proof -
  have "item_attr columnseqid ''PP_b'' two_columns = Some ''00001''" by (simp add: two_columns_def item_attr_def)
  with portlet_enters_column [of "[(''00001'', [''PP_a''])]" "''00002''" "[''PP_c'']" "[]" "[]" two_columns "''PP_b''"
      "''00001''" "[''PP_a'', ''PP_c'', ''PP_b'']"] two_columns_display(1)
  obtain s' where "sort_stop [''PP_a'', ''PP_c'', ''PP_b''] ''PP_b'' (sort_update ''portalColumn_00002'' two_columns) = Inr s'"
    "updates s' = updates two_columns @ [\<lparr>mode = Some ''AFTER'', destinationColumn = Some ''00002'',
       originPortlet = portlet_key ''PP_b'' two_columns, destinationPortlet = Some (portlet_key ''PP_c'' two_columns)\<rparr>]"
    "displays [(''00001'', [''PP_a'']), (''00002'', [''PP_c'', ''PP_b''])] s'"
    by (auto simp: two_columns_def)
  then show ?thesis by (simp add: two_columns_def portlet_key_def item_attr_def displays_def)
qed

lemma displayed_item: "item_attr f i s = Some c \<Longrightarrow> item_id i s = Some i"
  by (auto simp: item_attr_def item_id_def bind_eq_Some_conv)

text \<open>Moved within its column to any place but the first, a portlet is reported to go after the one that
  precedes it.\<close>

lemma portlet_moves_within_column:
  assumes "displays (ls @ (d, as @ bs) # rs) s" "x \<notin> set (order_of (ls @ (d, as @ bs) # rs))" "x \<noteq> []" "as \<noteq> []"
    "item_attr columnseqid x s = Some d" "CHR ''_'' \<notin> set d" "mainSection s"
    "filter (\<lambda>v. v \<noteq> []) order = order_of (ls @ (d, as @ x # bs) # rs)"
  shows "\<exists>s'. sort_stop order x (sort_update (''portalColumn_'' @ d) s) = Inr s'
    \<and> updates s' = updates s @ [\<lparr>mode = Some ''AFTER'', destinationColumn = Some d, originPortlet = portlet_key x s,
         destinationPortlet = Some (portlet_key (last as) s)\<rparr>]
    \<and> displays (ls @ (d, as @ x # bs) # rs) s'"
proof -
  let ?s = "sort_update (''portalColumn_'' @ d) s" and ?pre = "order_of ls @ as" and ?post = "bs @ order_of rs"
  have "item_id (last as) s = Some (last as)"
    using displays_column(1) [OF assms(1), of "last as"] assms(4) displayed_item by auto
  then have "next_object x (last_opt ?pre) (hd_opt ?post) (Some d) ?s = Inr (Some (last as), Some ''AFTER'')"
    using assms(4,5) by (simp add: next_object_def last_opt_def)
  from drop_sends [OF _ _ assms(6,7) this, of order] assms(2,8)
  obtain s' where s': "sort_stop order x ?s = Inr s'"
    "updates s' = updates s @ [\<lparr>mode = Some ''AFTER'', destinationColumn = Some d, originPortlet = portlet_key x s,
         destinationPortlet = Some (portlet_key (last as) s)\<rparr>]"
    "portlets s' = (portlets s)(x := map_option (columnseqid_update (\<lambda>_. Some d)) (portlets s x))"
    by auto
  have "displays (ls @ (d, as @ x # bs) # rs) s'"
    using assms(5) by (intro displays_put [OF assms(1-3)]) (auto simp: item_attr_def s'(3) bind_eq_Some_conv)
  then show ?thesis using s'(1,2) by (intro exI conjI)
qed

lemma portlet_moves_within_column_witness:
  "\<exists>s'. sort_stop [''PP_a'', ''PP_b''] ''PP_b'' (sort_update ''portalColumn_00001'' two_columns) = Inr s'
    \<and> updates s' = [\<lparr>mode = Some ''AFTER'', destinationColumn = Some ''00001'',
         originPortlet = (Some ''Home'', Some ''PP_b'', Some ''1''),
         destinationPortlet = Some (Some ''Home'', Some ''PP_a'', Some ''1'')\<rparr>]"
proof -
  have "item_attr columnseqid ''PP_b'' two_columns = Some ''00001''" by (simp add: two_columns_def item_attr_def)
  with portlet_moves_within_column [of "[]" "''00001''" "[''PP_a'']" "[]" "[(''00002'', [])]" two_columns "''PP_b''"
      "[''PP_a'', ''PP_b'']"]
  show ?thesis using two_columns_display(2) by (auto simp: two_columns_def portlet_key_def item_attr_def)
qed

text \<open>Moving a portlet to the top of its own column fails: when no portlet precedes it on the page, the
  handler throws; otherwise the request places it after a portlet of another column, which is not in the column
  it names.\<close>

lemma portlet_to_top_fails:
  assumes "displays (ls @ (d, bs) # rs) s" "x \<notin> set (order_of (ls @ (d, bs) # rs))"
    "item_attr columnseqid x s = Some d" "CHR ''_'' \<notin> set d" "mainSection s"
    "filter (\<lambda>v. v \<noteq> []) order = order_of (ls @ (d, x # bs) # rs)"
  shows "(order_of ls = [] \<longrightarrow> sort_stop order x (sort_update (''portalColumn_'' @ d) s) = Inl TypeError)
    \<and> (order_of ls \<noteq> [] \<longrightarrow> (\<exists>n s'. sort_stop order x (sort_update (''portalColumn_'' @ d) s) = Inr s'
          \<and> updates s' = updates s @ [\<lparr>mode = Some ''AFTER'', destinationColumn = Some d,
               originPortlet = portlet_key x s, destinationPortlet = Some (portlet_key n s)\<rparr>]
          \<and> item_attr columnseqid n s \<noteq> Some d))"
proof (intro conjI impI)
  let ?s = "sort_update (''portalColumn_'' @ d) s" and ?post = "bs @ order_of rs"
  have x: "x \<notin> set (order_of ls)" using assms(2) by simp
  assume none: "order_of ls = []"
  have "next_object x (last_opt (order_of ls)) (hd_opt ?post) (Some d) ?s = Inl TypeError"
    using assms(3) by (simp add: next_object_def last_opt_def none)
  then show "sort_stop order x ?s = Inl TypeError"
    using find_item_middle [OF x, of None ?post] split_column [OF assms(4)] assms(6)
    by (simp add: sort_stop_def preparePortletBackgroundOrderChange_def Let_def last_opt_def none sort_update_def)
next
  let ?s = "sort_update (''portalColumn_'' @ d) s" and ?post = "bs @ order_of rs" and ?n = "last (order_of ls)"
  assume some: "order_of ls \<noteq> []"
  have x: "x \<notin> set (order_of ls)" using assms(2) by simp
  have n: "\<exists>c. item_attr columnseqid ?n s = Some c \<and> c \<noteq> d"
    using displays_column(2) [OF assms(1), of ?n] some by simp
  then have "item_id ?n s = Some ?n" using displayed_item by blast
  then have "next_object x (last_opt (order_of ls)) (hd_opt ?post) (Some d) ?s = Inr (Some ?n, Some ''AFTER'')"
    using assms(3) some by (simp add: next_object_def last_opt_def)
  from drop_sends [OF _ x assms(4,5) this, of order] assms(6)
  have sent: "\<exists>s'. sort_stop order x ?s = Inr s'
      \<and> updates s' = updates s @ [\<lparr>mode = Some ''AFTER'', destinationColumn = Some d, originPortlet = portlet_key x s,
           destinationPortlet = Some (portlet_key ?n s)\<rparr>]" by auto
  show "\<exists>n s'. sort_stop order x ?s = Inr s'
      \<and> updates s' = updates s @ [\<lparr>mode = Some ''AFTER'', destinationColumn = Some d,
           originPortlet = portlet_key x s, destinationPortlet = Some (portlet_key n s)\<rparr>]
      \<and> item_attr columnseqid n s \<noteq> Some d"
    using sent n by (elim exE conjE) (intro exI [of _ ?n] exI conjI, assumption+, simp)
qed

lemma portlet_to_top_fails_witness:
  "sort_stop [''PP_b'', ''PP_a''] ''PP_b'' (sort_update ''portalColumn_00001'' two_columns) = Inl TypeError"
proof -
  have "item_attr columnseqid ''PP_b'' two_columns = Some ''00001''" by (simp add: two_columns_def item_attr_def)
  with portlet_to_top_fails [of "[]" "''00001''" "[''PP_a'']" "[(''00002'', [])]" two_columns "''PP_b''" "[''PP_b'', ''PP_a'']"]
  show ?thesis using two_columns_display(2) by (simp add: two_columns_def)
qed

end
