(* ===== verification/Messages.thy ===== *)
theory Messages
  imports Js_Date
begin

text \<open>
  Questions, messages and pop-ups of a page: \<open>confirmActionLink\<close>, \<open>confirmActionFormLink\<close>, the pop-up and
  parent-window helpers, \<open>removeSelected\<close>, \<open>changeObjectVisibility\<close>, the localized labels and the error
  messages of \<open>OfbizUtil.js\<close>, and the check of date ranges in \<open>FromThruDateCheck.js\<close>, which shows such a message.
\<close>

section \<open>The window\<close>

text \<open>A form is the list of its fields.  The content area is the element \<open>contentarea\<close> with its text, if
  the page has one; a dialog is opened over an element by its title.\<close>

record msg_window =
  forms :: "string \<Rightarrow> string obj option"
  visibility :: "string \<Rightarrow> string option"
  opener :: bool
  contentArea :: "string option"
  alertBoxes :: "string list"
  areaDialog :: "string option"
  asked :: "string list"
  replacedBy :: "string option"
  submitted :: "(string \<times> string obj) list"
  parentSubmitted :: "string obj list"
  parentLocation :: "string option"
  parentFocused :: bool
  popups :: "(string \<times> string \<times> string) list"
  labelRequests :: "(string \<times> string list) list list"
  alerted :: "string list"

section \<open>Questions\<close>

definition question :: "string option \<Rightarrow> string" where
  "question msg = (case msg of None \<Rightarrow> ''Are you sure you want to do this?'' | Some m \<Rightarrow> m)"

text \<open>The answer of the user is a parameter.\<close>

definition confirmActionLink :: "bool \<Rightarrow> string option \<Rightarrow> string option \<Rightarrow> msg_window \<Rightarrow> msg_window" where
  "confirmActionLink agree msg newLocation w =
     (let w1 = w\<lparr>asked := asked w @ [question msg]\<rparr>
      in if agree then (case newLocation of None \<Rightarrow> w1 | Some l \<Rightarrow> w1\<lparr>replacedBy := Some l\<rparr>) else w1)"

definition confirmActionFormLink :: "bool \<Rightarrow> string option \<Rightarrow> string option \<Rightarrow> msg_window \<Rightarrow> msg_window result" where
  "confirmActionFormLink agree msg formName w =
     (let w1 = w\<lparr>asked := asked w @ [question msg]\<rparr>
      in if agree then
           (case formName of
              None \<Rightarrow> Inr w1
            | Some f \<Rightarrow> (case forms w f of
                          None \<Rightarrow> Inl TypeError
                        | Some fs \<Rightarrow> Inr (w1\<lparr>submitted := submitted w1 @ [(f, fs)]\<rparr>)))
         else Inr w1)"

section \<open>Forms and other windows\<close>

definition removeSelected :: "string \<Rightarrow> msg_window \<Rightarrow> msg_window result" where
  "removeSelected formName w =
     (case forms w formName of
        None \<Rightarrow> Inl TypeError
      | Some fs \<Rightarrow>
          if map_of fs ''removeSelected'' = None then Inl TypeError
          else let fs' = obj_set ''removeSelected'' ''true'' fs
               in Inr (w\<lparr>forms := (forms w)(formName \<mapsto> fs'), submitted := submitted w @ [(formName, fs')]\<rparr>))"

definition removeSelectedDefault :: "msg_window \<Rightarrow> msg_window result" where
  "removeSelectedDefault w = removeSelected ''selectAllForm'' w"

definition popUp :: "string \<Rightarrow> string \<Rightarrow> string \<Rightarrow> string \<Rightarrow> msg_window \<Rightarrow> msg_window" where
  "popUp url name height width w =
     w\<lparr>popups := popups w @ [(url, name, ''location=no,scrollbars,width='' @ width @ '',height='' @ height)]\<rparr>"

definition popUpSmall :: "string \<Rightarrow> string \<Rightarrow> msg_window \<Rightarrow> msg_window" where
  "popUpSmall url name w = popUp url name ''300'' ''450'' w"

definition doPostViaParent :: "string \<Rightarrow> msg_window \<Rightarrow> msg_window result" where
  "doPostViaParent formName w =
     (case forms w formName of
        None \<Rightarrow> Inl TypeError
      | Some fs \<Rightarrow>
          if opener w then Inr (w\<lparr>parentSubmitted := parentSubmitted w @ [fs], parentFocused := True\<rparr>) else Inl TypeError)"

definition doGetViaParent :: "string \<Rightarrow> msg_window \<Rightarrow> msg_window result" where
  "doGetViaParent url w =
     (if opener w then Inr (w\<lparr>parentLocation := Some url, parentFocused := True\<rparr>) else Inl TypeError)"

text \<open>Only \<open>getElementById\<close> exists in the browsers of today: an element that is not on the page has no style.\<close>

definition getStyleObject :: "string \<Rightarrow> msg_window \<Rightarrow> string option" where
  "getStyleObject objectId w = visibility w objectId"

definition changeObjectVisibility :: "string \<Rightarrow> string \<Rightarrow> msg_window \<Rightarrow> msg_window \<times> bool" where
  "changeObjectVisibility objectId newVisibility w =
     (if getStyleObject objectId w \<noteq> None
      then (w\<lparr>visibility := (visibility w)(objectId \<mapsto> newVisibility)\<rparr>, True) else (w, False))"

section \<open>Labels\<close>

text \<open>The answer comes later; it is given to the callback, which the callers use to set a local variable.\<close>

definition getJSONuiLabels :: "(string \<times> string list) list \<Rightarrow> msg_window \<Rightarrow> msg_window" where
  "getJSONuiLabels requiredLabels w = w\<lparr>labelRequests := labelRequests w @ [requiredLabels]\<rparr>"

text \<open>The function returns before the answer is there: it reads a property of the empty text, which has none by
  the name of a resource.\<close>

definition getJSONuiLabel :: "string \<Rightarrow> string \<Rightarrow> msg_window \<Rightarrow> msg_window \<times> string option" where
  "getJSONuiLabel uiResource errUiLabel w =
     (w\<lparr>labelRequests := labelRequests w @ [[(uiResource, [errUiLabel])]]\<rparr>, None)"

section \<open>Error messages\<close>

text \<open>\<open>after\<close> inserts the box and gives back the content area: it is the content area that becomes the dialog.\<close>

definition showErrorAlert :: "string \<Rightarrow> string \<Rightarrow> msg_window \<Rightarrow> msg_window" where
  "showErrorAlert errBoxTitle errMessage w =
     (if errMessage = [] then w
      else case contentArea w of
             None \<Rightarrow> w
           | Some c \<Rightarrow> w\<lparr>alertBoxes := alertBoxes w @ [errMessage], areaDialog := Some errBoxTitle\<rparr>)"

text \<open>The button of the dialog removes the element it was opened on.\<close>

definition press_ok :: "msg_window \<Rightarrow> msg_window" where
  "press_ok w = (case areaDialog w of None \<Rightarrow> w | Some t \<Rightarrow> w\<lparr>contentArea := None, areaDialog := None\<rparr>)"

definition alert_labels :: "string \<Rightarrow> string \<Rightarrow> string \<Rightarrow> string \<Rightarrow> (string \<times> string list) list" where
  "alert_labels titleResource titleLabel uiResource errUiLabel =
     (if titleResource \<noteq> [] \<and> titleLabel \<noteq> [] then
        if titleResource = uiResource then [(titleResource, [titleLabel, errUiLabel])]
        else [(titleResource, [titleLabel]), (uiResource, [errUiLabel])]
      else [(uiResource, [errUiLabel])])"

definition label_at :: "(string \<times> string list) list \<Rightarrow> string \<Rightarrow> nat \<Rightarrow> string option" where
  "label_at labels res i =
     (case map_of labels res of None \<Rightarrow> None | Some ls \<Rightarrow> if i < length ls then Some (ls ! i) else None)"

text \<open>The title and the text are read while the dialog opens, before the answer with the labels can be there;
  writing \<open>undefined\<close> as the text of an element leaves it.\<close>

definition showErrorAlertLoadUiLabel :: "string \<Rightarrow> string \<Rightarrow> string \<Rightarrow> string \<Rightarrow> msg_window \<Rightarrow> msg_window" where
  "showErrorAlertLoadUiLabel errBoxTitleResource errBoxTitleLabel uiResource errUiLabel w =
     (if uiResource = [] \<or> errUiLabel = [] then w
      else
        let labels = alert_labels errBoxTitleResource errBoxTitleLabel uiResource errUiLabel;
            useTitle = (errBoxTitleResource \<noteq> [] \<and> errBoxTitleLabel \<noteq> []);
            w1 = getJSONuiLabels labels w
        in case contentArea w1 of
             None \<Rightarrow> w1\<lparr>alerted := alerted w1 @ [the (label_at labels uiResource 0)]\<rparr>
           | Some c \<Rightarrow>
               let title = (if useTitle then the (label_at labels errBoxTitleResource 0) else []);
                   positionInArray = (if errBoxTitleResource = uiResource then 1 else 0)
               in w1\<lparr>alertBoxes := alertBoxes w1 @ [[]], areaDialog := Some title,
                    contentArea := Some (case label_at labels uiResource positionInArray of None \<Rightarrow> c | Some l \<Rightarrow> l)\<rparr>)"

section \<open>Date ranges\<close>

text \<open>Texts are compared by their code units.\<close>

fun js_less :: "string \<Rightarrow> string \<Rightarrow> bool" where
  "js_less [] ys = (ys \<noteq> [])"
| "js_less (x # xs) [] = False"
| "js_less (x # xs) (y # ys) = ((of_char x :: nat) < of_char y \<or> x = y \<and> js_less xs ys)"

text \<open>The input fields of the page in their order, each with its name and its value.  The value of a selection
  of fields is that of the first of them; there may be none.\<close>

type_synonym inputs = "(string \<times> string) list"

definition value_like :: "string \<Rightarrow> inputs \<Rightarrow> string option" where
  "value_like part fs = map_option snd (find (\<lambda>f. occurs part (fst f)) fs)"

definition checkDate :: "inputs \<Rightarrow> msg_window \<Rightarrow> msg_window" where
  "checkDate fs w =
     (let a = value_like ''fromDate'' fs; b = value_like ''thruDate'' fs
      in if a \<noteq> Some [] \<and> b \<noteq> Some [] then
           (case (a, b) of
              (Some x, Some y) \<Rightarrow>
                if \<not> js_less x y
                then showErrorAlertLoadUiLabel [] [] ''CommonUiLabels'' ''CommonFromDateThruDateCheck'' w else w
            | _ \<Rightarrow> w)
         else w)"


section \<open>Lemmas on dates as text\<close>

fun pad :: "nat \<Rightarrow> int \<Rightarrow> string" where
  "pad 0 n = []"
| "pad (Suc k) n = pad k (n div 10) @ [digit_char (nat (n mod 10))]"

lemma length_pad [simp]: "length (pad k n) = k"
  by (induction k arbitrary: n) auto

lemma js_less_append:
  "length a = length b \<Longrightarrow> js_less (a @ u) (b @ v) \<longleftrightarrow> js_less a b \<or> a = b \<and> js_less u v"
  by (induction a b rule: list_induct2) auto

lemma js_less_digit: "d < 10 \<Longrightarrow> e < 10 \<Longrightarrow> js_less [digit_char d] [digit_char e] \<longleftrightarrow> d < e"
  by (simp add: of_char_digit_char)

lemma digit_char_inject: "d < 10 \<Longrightarrow> e < 10 \<Longrightarrow> digit_char d = digit_char e \<longleftrightarrow> d = e"
  by (metis digit_char_facts(2))

lemma radix_order:
  fixes q p r s b :: int
  assumes "0 \<le> r" "r < b" "0 \<le> s" "s < b"
  shows "b * q + r < b * p + s \<longleftrightarrow> q < p \<or> q = p \<and> r < s" "b * q + r = b * p + s \<longleftrightarrow> q = p \<and> r = s"
proof -
  have step: "b * x + u < b * y + v" if "x < y" "u < b" "0 \<le> v" for x y u v
  proof -
    have "b * (x + 1) \<le> b * y" using that assms by (intro mult_left_mono) auto
    then show ?thesis using that by (simp add: algebra_simps)
  qed
  have lt: "q < p \<Longrightarrow> b * q + r < b * p + s" and gt: "p < q \<Longrightarrow> b * p + s < b * q + r"
    using step assms by blast+
  have eq: "q = p \<Longrightarrow> b * q + r < b * p + s \<longleftrightarrow> r < s" "q = p \<Longrightarrow> b * q + r = b * p + s \<longleftrightarrow> r = s"
    by simp_all
  show "b * q + r < b * p + s \<longleftrightarrow> q < p \<or> q = p \<and> r < s"
    using lt gt eq(1) less_asym by (cases q p rule: linorder_cases) blast+
  show "b * q + r = b * p + s \<longleftrightarrow> q = p \<and> r = s"
    using lt gt eq(2) less_imp_neq dual_order.strict_implies_not_eq by (cases q p rule: linorder_cases) blast+
qed

lemma pad_order:
  "0 \<le> m \<Longrightarrow> m < 10 ^ k \<Longrightarrow> 0 \<le> n \<Longrightarrow> n < 10 ^ k \<Longrightarrow>
    (js_less (pad k m) (pad k n) \<longleftrightarrow> m < n) \<and> (pad k m = pad k n \<longleftrightarrow> m = n)"
proof (induction k arbitrary: m n)
  case (Suc k)
  let ?q = "m div 10" and ?r = "m mod 10" and ?p = "n div 10" and ?s = "n mod 10"
  have IH: "js_less (pad k ?q) (pad k ?p) \<longleftrightarrow> ?q < ?p" "pad k ?q = pad k ?p \<longleftrightarrow> ?q = ?p"
    using Suc.IH [of ?q ?p] Suc.prems by (auto simp: pos_imp_zdiv_nonneg_iff div_less_iff_less_mult)
  have d: "nat ?r < 10" "nat ?s < 10" by simp_all
  have order: "m < n \<longleftrightarrow> ?q < ?p \<or> ?q = ?p \<and> ?r < ?s" "m = n \<longleftrightarrow> ?q = ?p \<and> ?r = ?s"
    using radix_order [of ?r 10 ?s ?q ?p] by simp_all
  have r: "nat ?r < nat ?s \<longleftrightarrow> ?r < ?s" "nat ?r = nat ?s \<longleftrightarrow> ?r = ?s"
    using nat_less_eq_zless [of ?r ?s] eq_nat_nat_iff [of ?r ?s] by simp_all
  show ?case
    unfolding pad.simps js_less_append [of "pad k ?q" "pad k ?p", simplified] append_eq_append_conv [of "pad k ?q" "pad k ?p", simplified]
    using IH order js_less_digit [OF d] digit_char_inject [OF d] r by simp
qed simp


text \<open>The fields of a date in the order of its text, and the text.\<close>

definition getSeconds :: "int \<Rightarrow> int" where "getSeconds t = t mod 60000 div 1000"

definition stamp :: "int \<Rightarrow> string" where
  "stamp t =
     pad 4 (getFullYear t) @ ''-'' @ pad 2 (getMonth t + 1) @ ''-'' @ pad 2 (getDate t) @ '' ''
     @ pad 2 (getHours t) @ '':'' @ pad 2 (getMinutes t) @ '':'' @ pad 2 (getSeconds t)"

lemma field_less:
  assumes "0 \<le> m" "m < 10 ^ k" "0 \<le> n" "n < 10 ^ k"
  shows "js_less (pad k m @ u) (pad k n @ v) \<longleftrightarrow> m < n \<or> m = n \<and> js_less u v"
  using pad_order [OF assms] js_less_append [of "pad k m" "pad k n" u v] by simp

lemma month_start_step: "month_start lp k \<le> month_start lp (k + 1)"
  by (simp add: month_start_def Let_def)

lemma month_start_less:
  assumes "m < n"
  shows "month_start lp (m + 1) \<le> month_start lp n"
proof -
  have "m + 1 \<le> n" using assms by simp
  then show ?thesis
  proof (induction n rule: int_ge_induct)
    case (step k)
    then show ?case using month_start_step [of lp k] by linarith
  qed simp
qed

lemma day_parts_less:
  assumes "0 \<le> m" "m < 12" "1 \<le> d" "d \<le> days_in_month y m" "0 \<le> n" "n < 12" "1 \<le> e" "e \<le> days_in_month z n"
    "y < z \<or> y = z \<and> (m < n \<or> m = n \<and> d < e)"
  shows "MakeDay y m d < MakeDay z n e"
proof -
  have mk: "MakeDay y m d = DayFromYear y + month_start (leap y) m + d - 1"
    "MakeDay z n e = DayFromYear z + month_start (leap z) n + e - 1"
    using assms by (simp_all add: MakeDay_def div_pos_pos_trivial mod_pos_pos_trivial)
  have d: "d \<le> month_start (leap y) (m + 1) - month_start (leap y) m" using assms by (simp add: days_in_month_def)
  have start: "0 \<le> month_start (leap z) n" using month_start_mono [OF assms(5,6)] by simp
  consider "y < z" | "y = z" "m < n" | "y = z" "m = n" "d < e" using assms(9) by blast
  then show ?thesis
  proof cases
    case 1
    have "month_start (leap y) (m + 1) \<le> days_in_year y"
      using month_start_mono [OF assms(1,2), of "leap y"] month_start_12 [of "leap y"] by (simp add: days_in_year_def split: if_splits)
    moreover have "DayFromYear (y + 1) \<le> DayFromYear z"
      using 1 DayFromYear_less [of "y + 1" z] by (cases "y + 1 = z") auto
    ultimately show ?thesis using mk d start DayFromYear_Suc [of y] assms(7) by linarith
  next
    case 2
    then show ?thesis using mk d month_start_less [of m n "leap y"] assms(7) by simp
  next
    case 3
    then show ?thesis using mk by simp
  qed
qed


lemma day_order:
  "t div msPerDay < u div msPerDay \<longleftrightarrow>
    getFullYear t < getFullYear u \<or> getFullYear t = getFullYear u \<and>
      (getMonth t < getMonth u \<or> getMonth t = getMonth u \<and> getDate t < getDate u)" (is "?D < ?E \<longleftrightarrow> ?less t u")
  "t div msPerDay = u div msPerDay \<longleftrightarrow> getFullYear t = getFullYear u \<and> getMonth t = getMonth u \<and> getDate t = getDate u"
proof -
  have made: "v div msPerDay = MakeDay (getFullYear v) (getMonth v) (getDate v)" for v
    by (simp add: getFullYear_def getMonth_def getDate_def)
  have less: "v div msPerDay < w div msPerDay"
    if "getFullYear v < getFullYear w \<or> getFullYear v = getFullYear w \<and>
      (getMonth v < getMonth w \<or> getMonth v = getMonth w \<and> getDate v < getDate w)" for v w
    unfolding made using that
    by (intro day_parts_less) (simp_all add: getFullYear_def getMonth_def getDate_def MonthFromDay_range DateFromDay_range)
  have same: "?D = ?E" if "getFullYear t = getFullYear u" "getMonth t = getMonth u" "getDate t = getDate u"
    unfolding made using that by simp
  show "?D < ?E \<longleftrightarrow> ?less t u"
    using less [of t u] less [of u t] same by linarith
  show "?D = ?E \<longleftrightarrow> getFullYear t = getFullYear u \<and> getMonth t = getMonth u \<and> getDate t = getDate u"
    using same by (auto simp: getFullYear_def getMonth_def getDate_def)
qed

lemma nested_quotients:
  "t div 1000 = 60 * (t div 60000) + getSeconds t"
  "t div 60000 = 60 * (t div 3600000) + getMinutes t"
  "t div 3600000 = 24 * (t div msPerDay) + getHours t"
proof -
  have split: "t div b = c * (t div (b * c)) + t mod (b * c) div b" if "0 < b" "0 < c" for b c :: int
    using that zmod_zmult2_eq [of c t b] zdiv_zmult2_eq [of c t b] mult_div_mod_eq [of c "t div b"] by simp
  show "t div 1000 = 60 * (t div 60000) + getSeconds t" using split [of 1000 60] by (simp add: getSeconds_def)
  show "t div 60000 = 60 * (t div 3600000) + getMinutes t" using split [of 60000 60] by (simp add: getMinutes_def)
  show "t div 3600000 = 24 * (t div msPerDay) + getHours t" using split [of 3600000 24] by (simp add: getHours_def)
qed

lemma time_ranges:
  "0 \<le> getSeconds t" "getSeconds t < 60" "0 \<le> getMinutes t" "getMinutes t < 60" "0 \<le> getHours t" "getHours t < 24"
proof -
  have "0 \<le> t mod (b * c) div b \<and> t mod (b * c) div b < c" if "0 < b" "0 < c" for b c :: int
    using that zmod_zmult2_eq [of c t b] by (simp add: pos_imp_zdiv_nonneg_iff)
  from this [of 1000 60] this [of 60000 60] this [of 3600000 24]
  show "0 \<le> getSeconds t" "getSeconds t < 60" "0 \<le> getMinutes t" "getMinutes t < 60" "0 \<le> getHours t" "getHours t < 24"
    by (simp_all add: getSeconds_def getMinutes_def getHours_def)
qed


definition four_digit_year :: "int \<Rightarrow> bool" where
  "four_digit_year t \<longleftrightarrow> 0 \<le> getFullYear t \<and> getFullYear t < 10000"

lemma stamp_order:
  assumes "four_digit_year t" "four_digit_year u"
  shows "js_less (stamp t) (stamp u) \<longleftrightarrow> t div 1000 < u div 1000"
proof -
  have date: "0 \<le> getDate v" "getDate v < 10 ^ 2" "0 \<le> getMonth v + 1" "getMonth v + 1 < 10 ^ 2" for v
    using getDate_range [of v] MonthFromDay_range [of "v div msPerDay"] by (simp_all add: getMonth_def)
  have time: "0 \<le> getSeconds v" "getSeconds v < 10 ^ 2" "0 \<le> getMinutes v" "getMinutes v < 10 ^ 2"
    "0 \<le> getHours v" "getHours v < 10 ^ 2" for v
    using time_ranges [of v] by simp_all
  have year: "0 \<le> getFullYear t" "getFullYear t < 10 ^ 4" "0 \<le> getFullYear u" "getFullYear u < 10 ^ 4"
    using assms by (simp_all add: four_digit_year_def)
  have sep: "js_less (c # xs) (c # ys) \<longleftrightarrow> js_less xs ys" for c xs ys by simp
  have seconds: "js_less (pad 2 (getSeconds t)) (pad 2 (getSeconds u)) \<longleftrightarrow> getSeconds t < getSeconds u"
    using pad_order time by blast
  have text_order: "js_less (stamp t) (stamp u) \<longleftrightarrow>
      getFullYear t < getFullYear u \<or> getFullYear t = getFullYear u \<and>
      (getMonth t < getMonth u \<or> getMonth t = getMonth u \<and>
       (getDate t < getDate u \<or> getDate t = getDate u \<and>
        (getHours t < getHours u \<or> getHours t = getHours u \<and>
         (getMinutes t < getMinutes u \<or> getMinutes t = getMinutes u \<and> getSeconds t < getSeconds u))))"
    unfolding stamp_def append.simps field_less [OF year] sep field_less [OF date(3,4) date(3,4)]
      field_less [OF date(1,2) date(1,2)] field_less [OF time(5,6) time(5,6)] field_less [OF time(3,4) time(3,4)] seconds
    by (simp only: add_less_cancel_right add_right_cancel)
  have "t div 1000 < u div 1000 \<longleftrightarrow>
      t div msPerDay < u div msPerDay \<or> t div msPerDay = u div msPerDay \<and>
        (getHours t < getHours u \<or> getHours t = getHours u \<and>
         (getMinutes t < getMinutes u \<or> getMinutes t = getMinutes u \<and> getSeconds t < getSeconds u))"
    using radix_order [of "getSeconds t" 60 "getSeconds u" "t div 60000" "u div 60000"]
      radix_order [of "getMinutes t" 60 "getMinutes u" "t div 3600000" "u div 3600000"]
      radix_order [of "getHours t" 24 "getHours u" "t div msPerDay" "u div msPerDay"]
      time_ranges [of t] time_ranges [of u] nested_quotients [of t] nested_quotients [of u] by metis
  then show ?thesis unfolding text_order day_order by blast
qed

text \<open>C37: when the first fields of the page whose names have \<open>fromDate\<close> and \<open>thruDate\<close> in them hold a moment as
  text in the form of the server, with four digits for the year and two for each other part, the message
  appears exactly when the range does not end after it begins, to the second.\<close>

theorem checkDate_order:
  assumes "value_like ''fromDate'' fs = Some (stamp t)" "value_like ''thruDate'' fs = Some (stamp u)"
    "four_digit_year t" "four_digit_year u"
  shows "checkDate fs w =
    (if parse_of_date t < parse_of_date u then w
     else showErrorAlertLoadUiLabel [] [] ''CommonUiLabels'' ''CommonFromDateThruDateCheck'' w)"
proof -
  have "stamp v \<noteq> []" for v by (simp add: stamp_def)
  then show ?thesis using stamp_order [OF assms(3,4)] by (simp add: checkDate_def assms(1,2) parse_of_date_def)
qed

definition plain_window :: msg_window where
  "plain_window =
     \<lparr>forms = (\<lambda>_. None), visibility = (\<lambda>_. None), opener = False, contentArea = Some ''page'', alertBoxes = [],
      areaDialog = None, asked = [], replacedBy = None, submitted = [], parentSubmitted = [], parentLocation = None,
      parentFocused = False, popups = [], labelRequests = [], alerted = []\<rparr>"

lemma small_years: "four_digit_year 0" "four_digit_year 86400000"
  by (simp_all add: four_digit_year_def getFullYear_def YearFromDay_def year_guess_def DayFromYear_def)

theorem checkDate_order_witness:
  "checkDate [(''fromDate'', stamp 0), (''thruDate'', stamp 86400000)] plain_window = plain_window
    \<and> areaDialog (checkDate [(''fromDate'', stamp 86400000), (''thruDate'', stamp 0)] plain_window) = Some []"
proof -
  have "occurs ''fromDate'' ''fromDate''" "\<not> occurs ''thruDate'' ''fromDate''" "occurs ''thruDate'' ''thruDate''"
    by code_simp+
  then have v: "value_like ''fromDate'' [(''fromDate'', a), (''thruDate'', b)] = Some a"
    "value_like ''thruDate'' [(''fromDate'', a), (''thruDate'', b)] = Some b" for a b
    by (simp_all add: value_like_def)
  show ?thesis using checkDate_order [OF v small_years] checkDate_order [OF v small_years(2,1), of plain_window]
    by (simp add: parse_of_date_def showErrorAlertLoadUiLabel_def getJSONuiLabels_def plain_window_def Let_def)
qed

text \<open>A date field of the theme is preceded by the one that is shown, with \<open>_i18n\<close> after its name and the
  date in the form of the language.  These are the texts that are compared: a range from the end of a year to the
  middle of the next January is refused in American English.\<close>

lemma shown_dates_compared:
  "areaDialog (checkDate [(''fromDate_i18n'', ''12/31/2023''), (''fromDate'', ''2023-12-31''),
      (''thruDate_i18n'', ''1/15/2024''), (''thruDate'', ''2024-01-15'')] plain_window) = Some []"
proof -
  have "occurs ''fromDate'' ''fromDate_i18n''" "\<not> occurs ''thruDate'' ''fromDate_i18n''"
    "\<not> occurs ''thruDate'' ''fromDate''" "occurs ''thruDate'' ''thruDate_i18n''"
    "\<not> js_less ''12/31/2023'' ''1/15/2024''" by code_simp+
  then show ?thesis
    by (simp add: checkDate_def value_like_def showErrorAlertLoadUiLabel_def getJSONuiLabels_def plain_window_def Let_def)
qed

text \<open>On a page with a content area an error message takes the page: the name of the label, not its text,
  replaces the content, and closing the message removes the content area; nothing that the server answers
  changes it.\<close>

lemma error_message_takes_page:
  assumes "contentArea w = Some c" "res \<noteq> []" "label \<noteq> []"
  shows "let w' = showErrorAlertLoadUiLabel [] [] res label w
    in contentArea w' = Some label \<and> contentArea (press_ok w') = None \<and> labelRequests w' = labelRequests w @ [[(res, [label])]]"
  using assms
  by (simp add: showErrorAlertLoadUiLabel_def getJSONuiLabels_def alert_labels_def label_at_def press_ok_def)

lemma error_message_takes_page_witness:
  "contentArea (press_ok (showErrorAlertLoadUiLabel [] [] ''CommonUiLabels'' ''CommonFromDateThruDateCheck'' plain_window)) = None"
  using error_message_takes_page [of plain_window "''page''" "''CommonUiLabels''" "''CommonFromDateThruDateCheck''"]
  by (simp add: plain_window_def Let_def)

text \<open>With a title of the same resource the text of the message is looked up at the second place, also when the
  title has no label and the list has one entry: the content stays.\<close>

lemma titled_message_lost:
  "contentArea w = Some c \<Longrightarrow> res \<noteq> [] \<Longrightarrow> label \<noteq> [] \<Longrightarrow> contentArea (showErrorAlertLoadUiLabel res [] res label w) = Some c"
  by (simp add: showErrorAlertLoadUiLabel_def getJSONuiLabels_def alert_labels_def label_at_def)

lemma plain_message_lost:
  "contentArea w = Some c \<Longrightarrow> msg \<noteq> [] \<Longrightarrow>
    contentArea (showErrorAlert title msg w) = Some c \<and> contentArea (press_ok (showErrorAlert title msg w)) = None"
  by (simp add: showErrorAlert_def press_ok_def)

end
