(* ===== verification/Timezone_Data.thy ===== *)
theory Timezone_Data
  imports Js_Date Js_Prelude "HOL-Library.List_Lexorder" "HOL-Library.Char_ord"
begin

text \<open>
  The tables of \<open>timezoneJS.timezone\<close> (\<open>date.timezone.js\<close>): zones, rules and links, the reader of zone files,
  and how files are found and loaded.  Offsets are kept in milliseconds, so that the fractions of minutes
  which the code computes with are exact.  The text of a file on the server is a parameter.
\<close>

section \<open>The tables\<close>

text \<open>The moment of a rule within a day: hours, minutes, seconds and the letter that says how it is meant.\<close>

record hms =
  hms_h :: int
  hms_m :: int
  hms_s :: int
  hms_type :: "char option"

datatype year_end = To_Year int | To_Text string

record rule =
  r_from :: "int option"
  r_to :: year_end
  r_type :: string
  r_in :: string
  r_on :: string
  r_at :: hms
  r_save :: int
  r_letter :: "string option"

text \<open>A line of a zone: its offset to the west, its rule set, the format of its abbreviation, and the moment at
  which it ends, \<^const>\<open>None\<close> when there is none or it is not a date.\<close>

record zone_line =
  z_off :: int
  z_rules :: string
  z_format :: string
  z_until :: date

datatype zone_entry = Lines "zone_line list" | Link_To string

text \<open>What happens when a file has arrived: nothing, the callback, or the count of a group of files.\<close>

datatype notify = No_Callback | Call_Back | Counted nat

record tz =
  tz_zones :: "zone_entry obj"
  tz_rules :: "rule list obj"
  tz_loaded :: "string \<Rightarrow> bool"
  tz_scheme :: string
  tz_path :: "string option"
  tz_exact :: "int \<times> rule \<Rightarrow> date option"
  tz_requests :: "(string \<times> notify) list"
  tz_groups :: "(nat \<times> nat) list"
  tz_calls :: nat

definition PRELOAD_ALL :: string where "PRELOAD_ALL = ''preloadAll''"
definition LAZY_LOAD :: string where "LAZY_LOAD = ''lazyLoad''"
definition MANUAL_LOAD :: string where "MANUAL_LOAD = ''manualLoad''"

definition zoneFiles :: "string list" where
  "zoneFiles = [''africa'', ''antarctica'', ''asia'', ''australasia'', ''backward'', ''etcetera'', ''europe'',
     ''northamerica'', ''pacificnew'', ''southamerica'']"

definition new_tz :: tz where
  "new_tz = \<lparr>tz_zones = [], tz_rules = [], tz_loaded = (\<lambda>_. False), tz_scheme = LAZY_LOAD, tz_path = None,
     tz_exact = (\<lambda>_. None), tz_requests = [], tz_groups = [], tz_calls = 0\<rparr>"

definition MONTHS :: "string list" where
  "MONTHS = [''January'', ''February'', ''March'', ''April'', ''May'', ''June'', ''July'', ''August'', ''September'',
     ''October'', ''November'', ''December'']"

definition DAYS :: "string list" where
  "DAYS = [''Sunday'', ''Monday'', ''Tuesday'', ''Wednesday'', ''Thursday'', ''Friday'', ''Saturday'']"

definition short_names :: "string list \<Rightarrow> string \<Rightarrow> int option" where
  "short_names l = map_of (zip (map (take 3) l) (map int [0..<length l]))"

definition SHORT_MONTHS :: "string \<Rightarrow> int option" where "SHORT_MONTHS = short_names MONTHS"
definition SHORT_DAYS :: "string \<Rightarrow> int option" where "SHORT_DAYS = short_names DAYS"

definition regionMap :: "(string \<times> string) list" where
  "regionMap =
     [(''Etc'', ''etcetera''), (''EST'', ''northamerica''), (''MST'', ''northamerica''), (''HST'', ''northamerica''),
      (''EST5EDT'', ''northamerica''), (''CST6CDT'', ''northamerica''), (''MST7MDT'', ''northamerica''),
      (''PST8PDT'', ''northamerica''), (''America'', ''northamerica''), (''Pacific'', ''australasia''),
      (''Atlantic'', ''europe''), (''Africa'', ''africa''), (''Indian'', ''africa''),
      (''Antarctica'', ''antarctica''), (''Asia'', ''asia''), (''Australia'', ''australasia''),
      (''Europe'', ''europe''), (''WET'', ''europe''), (''CET'', ''europe''), (''MET'', ''europe''),
      (''EET'', ''europe'')]"

definition regionExceptions :: "(string \<times> string) list" where
  "regionExceptions =
     [(''Pacific/Honolulu'', ''northamerica''), (''Atlantic/Bermuda'', ''northamerica''),
      (''Atlantic/Cape_Verde'', ''africa''), (''Atlantic/St_Helena'', ''africa''),
      (''Indian/Kerguelen'', ''antarctica''), (''Indian/Chagos'', ''asia''), (''Indian/Maldives'', ''asia''),
      (''Indian/Christmas'', ''australasia''), (''Indian/Cocos'', ''australasia''),
      (''America/Danmarkshavn'', ''europe''), (''America/Scoresbysund'', ''europe''),
      (''America/Godthab'', ''europe''), (''America/Thule'', ''europe''), (''Asia/Yekaterinburg'', ''europe''),
      (''Asia/Omsk'', ''europe''), (''Asia/Novosibirsk'', ''europe''), (''Asia/Krasnoyarsk'', ''europe''),
      (''Asia/Irkutsk'', ''europe''), (''Asia/Yakutsk'', ''europe''), (''Asia/Vladivostok'', ''europe''),
      (''Asia/Sakhalin'', ''europe''), (''Asia/Magadan'', ''europe''), (''Asia/Kamchatka'', ''europe''),
      (''Asia/Anadyr'', ''europe''), (''Africa/Ceuta'', ''europe''),
      (''America/Argentina/Buenos_Aires'', ''southamerica''), (''America/Argentina/Cordoba'', ''southamerica''),
      (''America/Argentina/Tucuman'', ''southamerica''), (''America/Argentina/La_Rioja'', ''southamerica''),
      (''America/Argentina/San_Juan'', ''southamerica''), (''America/Argentina/Jujuy'', ''southamerica''),
      (''America/Argentina/Catamarca'', ''southamerica''), (''America/Argentina/Mendoza'', ''southamerica''),
      (''America/Argentina/Rio_Gallegos'', ''southamerica''), (''America/Argentina/Ushuaia'', ''southamerica''),
      (''America/Aruba'', ''southamerica''), (''America/La_Paz'', ''southamerica''),
      (''America/Noronha'', ''southamerica''), (''America/Belem'', ''southamerica''),
      (''America/Fortaleza'', ''southamerica''), (''America/Recife'', ''southamerica''),
      (''America/Araguaina'', ''southamerica''), (''America/Maceio'', ''southamerica''),
      (''America/Bahia'', ''southamerica''), (''America/Sao_Paulo'', ''southamerica''),
      (''America/Campo_Grande'', ''southamerica''), (''America/Cuiaba'', ''southamerica''),
      (''America/Porto_Velho'', ''southamerica''), (''America/Boa_Vista'', ''southamerica''),
      (''America/Manaus'', ''southamerica''), (''America/Eirunepe'', ''southamerica''),
      (''America/Rio_Branco'', ''southamerica''), (''America/Santiago'', ''southamerica''),
      (''Pacific/Easter'', ''southamerica''), (''America/Bogota'', ''southamerica''),
      (''America/Curacao'', ''southamerica''), (''America/Guayaquil'', ''southamerica''),
      (''Pacific/Galapagos'', ''southamerica''), (''Atlantic/Stanley'', ''southamerica''),
      (''America/Cayenne'', ''southamerica''), (''America/Guyana'', ''southamerica''),
      (''America/Asuncion'', ''southamerica''), (''America/Lima'', ''southamerica''),
      (''Atlantic/South_Georgia'', ''southamerica''), (''America/Paramaribo'', ''southamerica''),
      (''America/Port_of_Spain'', ''southamerica''), (''America/Montevideo'', ''southamerica''),
      (''America/Caracas'', ''southamerica'')]"

section \<open>Times and offsets\<close>

text \<open>The pattern \<open>/(\d+)(?::0*(\d*))?(?::0*(\d*))?([wsugz])?$/\<close>: digits, two optional groups after colons, an
  optional letter and the end.  The zeros skipped in a group do not change its value.\<close>

definition time_group :: "string \<Rightarrow> int \<times> string" where
  "time_group s =
     (case s of
        c # s' \<Rightarrow> if c = CHR '':'' then (int (digits_val 0 (takeWhile is_digit s')), dropWhile is_digit s') else (0, s)
      | [] \<Rightarrow> (0, s))"

definition time_type :: "string \<Rightarrow> char option option" where
  "time_type s =
     (case s of [] \<Rightarrow> Some None | [c] \<Rightarrow> if c \<in> set ''wsugz'' then Some (Some c) else None | _ \<Rightarrow> None)"

definition time_here :: "string \<Rightarrow> hms option" where
  "time_here s =
     (let d = takeWhile is_digit s; (m, r) = time_group (dropWhile is_digit s); (sec, r') = time_group r
      in if d = [] then None
         else map_option (\<lambda>t. \<lparr>hms_h = int (digits_val 0 d), hms_m = m, hms_s = sec, hms_type = t\<rparr>) (time_type r'))"

fun find_time :: "string \<Rightarrow> hms option" where
  "find_time [] = None"
| "find_time (c # s) = (case time_here (c # s) of Some h \<Rightarrow> Some h | None \<Rightarrow> find_time s)"

text \<open>Without a match the groups of nothing are read.\<close>

definition parseTimeString :: "string \<Rightarrow> hms result" where
  "parseTimeString str = (case find_time str of None \<Rightarrow> Inl TypeError | Some h \<Rightarrow> Inr h)"

definition getBasicOffset :: "string \<Rightarrow> int result" where
  "getBasicOffset time =
     and_then (parseTimeString time)
       (\<lambda>off. Inr ((if indexOf time ''-'' = 0 then - 1 else 1) * (((hms_h off * 60 + hms_m off) * 60 + hms_s off) * 1000)))"

text \<open>A field that is missing and one that is empty count as none alike.\<close>

definition line_field :: "string list \<Rightarrow> nat \<Rightarrow> string" where
  "line_field z i = (if i < length z then z ! i else [])"

text \<open>Year, month, day and time of the end of a zone line.  Without a month it is the last day of the year.\<close>

definition processZone :: "string list \<Rightarrow> (int option \<times> int option \<times> int \<times> hms) option result" where
  "processZone z =
     (if line_field z 3 = [] then Inr None
      else
        let yea = parseInt (line_field z 3);
            mon = (if line_field z 4 = [] then Some 11 else SHORT_MONTHS (take 3 (line_field z 4)));
            dat = (if line_field z 4 = [] then 31
                   else case parseInt (line_field z 5) of None \<Rightarrow> 1 | Some d \<Rightarrow> if d = 0 then 1 else d)
        in and_then (parseTimeString (if line_field z 6 = [] then ''00:00:00'' else line_field z 6))
             (\<lambda>t. Inr (Some (yea, mon, dat, t))))"

text \<open>\<open>Date.UTC\<close> takes the years from 0 to 99 for those of the twentieth century.\<close>

definition Date_UTC :: "int \<Rightarrow> int \<Rightarrow> int \<Rightarrow> int \<Rightarrow> int \<Rightarrow> int \<Rightarrow> int" where
  "Date_UTC y m d h mi s =
     MakeDate (MakeDay (if 0 \<le> y \<and> y \<le> 99 then 1900 + y else y) m d) (((h * 60 + mi) * 60 + s) * 1000)"

definition until_of :: "(int option \<times> int option \<times> int \<times> hms) option \<Rightarrow> date" where
  "until_of p =
     (case p of
        Some (Some y, Some m, d, t) \<Rightarrow> Some (Date_UTC y m d (hms_h t) (hms_m t) (hms_s t))
      | _ \<Rightarrow> None)"

section \<open>Reading a zone file\<close>

function split_space :: "string \<Rightarrow> string list" where
  "split_space s =
     (let r = dropWhile (\<lambda>c. \<not> is_space c) s
      in takeWhile (\<lambda>c. \<not> is_space c) s # (if r = [] then [] else split_space (dropWhile is_space r)))"
  by auto
termination
proof (relation "measure length")
  fix s r
  assume r: "r = dropWhile (\<lambda>c. \<not> is_space c) s" "r \<noteq> []"
  then have "is_space (hd r)" using hd_dropWhile [of "\<lambda>c. \<not> is_space c" s] by simp
  then have "length (dropWhile is_space r) < length r"
    using r(2) length_dropWhile_le [of is_space "tl r"] by (cases r) simp_all
  also have "\<dots> \<le> length s" using r(1) length_dropWhile_le by simp
  finally show "(dropWhile is_space r, s) \<in> measure length" by simp
qed simp

declare split_space.simps [simp del]

definition truthy_entry :: "zone_entry option \<Rightarrow> bool" where
  "truthy_entry e = (case e of None \<Rightarrow> False | Some (Link_To l) \<Rightarrow> l \<noteq> [] | Some (Lines _) \<Rightarrow> True)"

definition set_zone :: "string \<Rightarrow> zone_entry \<Rightarrow> tz \<Rightarrow> tz" where
  "set_zone n e s = s\<lparr>tz_zones := obj_set n e (tz_zones s)\<rparr>"

text \<open>Each line is read in a state that keeps what was done before it failed.\<close>

definition parse_zone :: "string \<Rightarrow> string list \<Rightarrow> tz \<Rightarrow> unit result \<times> tz" where
  "parse_zone zone arr s =
     (let s1 = (if truthy_entry (map_of (tz_zones s) zone) then s else set_zone zone (Lines []) s)
      in if length arr < 3 then (Inr (), s1)
         else case and_then (processZone arr) (\<lambda>p. and_then (getBasicOffset (arr ! 0)) (\<lambda>off. Inr (until_of p, off))) of
                Inl e \<Rightarrow> (Inl e, s1)
              | Inr (u, off) \<Rightarrow>
                  (case map_of (tz_zones s1) zone of
                     Some (Lines ls) \<Rightarrow>
                       (Inr (), set_zone zone
                         (Lines (ls @ [\<lparr>z_off = - off, z_rules = arr ! 1, z_format = arr ! 2, z_until = u\<rparr>])) s1)
                   | _ \<Rightarrow> (Inl TypeError, s1)))"

definition year_end_of :: "string \<Rightarrow> year_end" where
  "year_end_of t = (case parseInt t of None \<Rightarrow> To_Text t | Some y \<Rightarrow> if y = 0 then To_Text t else To_Year y)"

definition rule_of :: "string list \<Rightarrow> rule result" where
  "rule_of arr =
     and_then (parseTimeString (line_field arr 5)) (\<lambda>at'. and_then (getBasicOffset (line_field arr 6)) (\<lambda>sv.
       Inr \<lparr>r_from = parseInt (line_field arr 0), r_to = year_end_of (line_field arr 1), r_type = line_field arr 2, r_in = line_field arr 3,
            r_on = line_field arr 4, r_at = at', r_save = sv, r_letter = (if 7 < length arr then Some (arr ! 7) else None)\<rparr>))"

definition parse_rule :: "string \<Rightarrow> string list \<Rightarrow> tz \<Rightarrow> unit result \<times> tz" where
  "parse_rule name arr s =
     (let rs = (case map_of (tz_rules s) name of None \<Rightarrow> [] | Some rs \<Rightarrow> rs);
          s1 = s\<lparr>tz_rules := obj_set name rs (tz_rules s)\<rparr>
      in case rule_of arr of
           Inl e \<Rightarrow> (Inl e, s1)
         | Inr r \<Rightarrow> (Inr (), s1\<lparr>tz_rules := obj_set name (rs @ [r]) (tz_rules s1)\<rparr>))"

definition parse_link :: "string list \<Rightarrow> tz \<Rightarrow> unit result \<times> tz" where
  "parse_link arr s =
     (let n = undef_text (if 1 < length arr then Some (arr ! 1) else None)
      in if truthy_entry (map_of (tz_zones s) n) then (Inl Thrown, s)
         else case arr of [] \<Rightarrow> (Inr (), s) | t # _ \<Rightarrow> (Inr (), set_zone n (Link_To t) s))"

definition first_field :: "string list \<Rightarrow> string" where
  "first_field l = undef_text (case l of [] \<Rightarrow> None | x # _ \<Rightarrow> Some x)"

text \<open>One line, with the zone of the lines before it: a line that begins with white space goes on with that zone.\<close>

definition parse_line :: "string \<Rightarrow> string \<Rightarrow> tz \<Rightarrow> (string \<times> unit result) \<times> tz" where
  "parse_line line zone s =
     (let l0 = (case line of c # _ \<Rightarrow> if is_space c then ''Zone '' @ zone @ line else line | [] \<Rightarrow> line);
          l = hd (split l0 ''#'')
      in if length l > 3 then
           let arr = split_space l; chunk = hd arr; args = tl arr
           in if chunk = ''Zone'' then
                let (r, s') = parse_zone (first_field args) (tl args) s in ((first_field args, r), s')
              else if chunk = ''Rule'' then
                let (r, s') = parse_rule (first_field args) (tl args) s in ((zone, r), s')
              else if chunk = ''Link'' then
                let (r, s') = parse_link args s in ((zone, r), s')
              else ((zone, Inr ()), s)
         else ((zone, Inr ()), s))"

fun parse_lines :: "string list \<Rightarrow> string \<Rightarrow> tz \<Rightarrow> unit result \<times> tz" where
  "parse_lines [] zone s = (Inr (), s)"
| "parse_lines (l # ls) zone s =
     (case parse_line l zone s of
        ((zone', Inl e), s') \<Rightarrow> (Inl e, s')
      | ((zone', Inr _), s') \<Rightarrow> parse_lines ls zone' s')"

definition parseZones :: "string \<Rightarrow> tz \<Rightarrow> unit result \<times> tz" where
  "parseZones str s = parse_lines (split str [CHR 0x0A]) ''null'' s"

section \<open>Loading zone files\<close>

text \<open>Runs over the tables: \<^const>\<open>None\<close> is a loop that has not ended, otherwise there is a result or an error,
  and the tables as they are then.\<close>

type_synonym 'a tz_run = "tz \<Rightarrow> ('a result \<times> tz) option"

definition run_then :: "'a tz_run \<Rightarrow> ('a \<Rightarrow> 'b tz_run) \<Rightarrow> 'b tz_run" where
  "run_then m f s =
     (case m s of
        None \<Rightarrow> None
      | Some (Inl e, s') \<Rightarrow> Some (Inl e, s')
      | Some (Inr a, s') \<Rightarrow> f a s')"

text \<open>A synchronous request gives the text of a file; without one there is nothing to split into lines.\<close>

definition load_sync :: "(string \<Rightarrow> string option) \<Rightarrow> string \<Rightarrow> unit tz_run" where
  "load_sync files url s = Some (case files url of None \<Rightarrow> (Inl TypeError, s) | Some str \<Rightarrow> parseZones str s)"

definition builtInLoadZoneFile :: "(string \<Rightarrow> string option) \<Rightarrow> string \<Rightarrow> notify option \<Rightarrow> unit tz_run" where
  "builtInLoadZoneFile files fileName opts s =
     (let url = undef_text (tz_path s) @ ''/'' @ fileName
      in case opts of
           None \<Rightarrow> load_sync files url s
         | Some cb \<Rightarrow> Some (Inr (), s\<lparr>tz_requests := tz_requests s @ [(url, cb)]\<rparr>))"

text \<open>The options are those of an asynchronous request, or none.  A file counts as loaded from the moment it is
  asked for.\<close>

definition loadZoneFile :: "(string \<Rightarrow> string option) \<Rightarrow> string \<Rightarrow> notify option \<Rightarrow> unit tz_run" where
  "loadZoneFile files fileName opts s =
     (if tz_path s = None then Some (Inl Thrown, s)
      else if tz_loaded s fileName then Some (Inr (), s)
      else builtInLoadZoneFile files fileName opts (s\<lparr>tz_loaded := (tz_loaded s)(fileName := True)\<rparr>))"

text \<open>What the answer to a request does: the file is read, and then the callback runs.  The callback of a group
  of files counts; at the count of the files it calls the one it was given.\<close>

definition run_callback :: "notify \<Rightarrow> tz \<Rightarrow> tz" where
  "run_callback cb s =
     (case cb of
        No_Callback \<Rightarrow> s
      | Call_Back \<Rightarrow> s\<lparr>tz_calls := tz_calls s + 1\<rparr>
      | Counted g \<Rightarrow>
          let (k, total) = tz_groups s ! g
          in s\<lparr>tz_groups := (tz_groups s)[g := (k + 1, total)],
               tz_calls := (if k + 1 = total then tz_calls s + 1 else tz_calls s)\<rparr>)"

definition zone_file_answer :: "nat \<Rightarrow> string \<Rightarrow> tz \<Rightarrow> tz" where
  "zone_file_answer i str s =
     (let (url, cb) = tz_requests s ! i;
          s1 = s\<lparr>tz_requests := take i (tz_requests s) @ drop (i + 1) (tz_requests s)\<rparr>
      in case parseZones str s1 of
           (Inl e, s2) \<Rightarrow> s2
         | (Inr _, s2) \<Rightarrow> run_callback cb s2)"

fun load_each :: "(string \<Rightarrow> string option) \<Rightarrow> string list \<Rightarrow> notify option \<Rightarrow> unit tz_run" where
  "load_each files [] opts s = Some (Inr (), s)"
| "load_each files (f # fs) opts s = run_then (loadZoneFile files f opts) (\<lambda>_. load_each files fs opts) s"

text \<open>The options of \<open>init\<close>: whether requests are asynchronous, and whether there is a callback.  Its file is
  \<open>northamerica\<close> whatever \<open>defaultZoneFile\<close> was, unless all are to be loaded.\<close>

definition init :: "(string \<Rightarrow> string option) \<Rightarrow> bool \<Rightarrow> bool \<Rightarrow> unit tz_run" where
  "init files async callback s =
     (if tz_scheme s = PRELOAD_ALL then
        let g = length (tz_groups s);
            cb = (if callback then Counted g else No_Callback)
        in load_each files zoneFiles (if async then Some cb else None)
             (s\<lparr>tz_groups := tz_groups s @ [(0, length zoneFiles)]\<rparr>)
      else loadZoneFile files ''northamerica'' (if async then Some (if callback then Call_Back else No_Callback) else None) s)"

text \<open>\<open>initTimeZone\<close> names the scheme \<open>PRELOAD_ALL\<close> without setting it.\<close>

definition initTimeZone :: "(string \<Rightarrow> string option) \<Rightarrow> unit tz_run" where
  "initTimeZone files s =
     init files True False (s\<lparr>tz_path := Some ''/common/js/plugins/date/timezones/min''\<rparr>)"

definition loadZoneDataFromObject :: "(zone_entry obj \<times> rule list obj) option \<Rightarrow> tz \<Rightarrow> tz" where
  "loadZoneDataFromObject data s =
     (case data of
        None \<Rightarrow> s
      | Some (zs, rs) \<Rightarrow>
          s\<lparr>tz_zones := fold (\<lambda>(z, e). obj_set z e) zs (tz_zones s),
            tz_rules := fold (\<lambda>(r, l). obj_set r l) rs (tz_rules s)\<rparr>)"

text \<open>Data as a script: evaluating it is the browser's business and may fail.\<close>

definition processData :: "(string \<Rightarrow> (zone_entry obj \<times> rule list obj) result) \<Rightarrow> string \<Rightarrow> tz \<Rightarrow> unit result \<times> tz" where
  "processData eval_script data s =
     (case eval_script data of
        Inl e \<Rightarrow> (Inl e, s)
      | Inr d \<Rightarrow> (Inr (), loadZoneDataFromObject (Some d) s))"

definition getAllZones :: "tz \<Rightarrow> string list" where
  "getAllZones s = sort (map fst (tz_zones s))"

section \<open>Finding the zone of a moment\<close>

text \<open>The file of a zone by its name, by its region, or by those of the zone it is a link to.  The first argument
  is the depth of the stack.\<close>

fun getRegionForTimezone :: "nat \<Rightarrow> (string \<Rightarrow> string option) \<Rightarrow> string \<Rightarrow> string tz_run" where
  "getRegionForTimezone 0 files tz s = Some (Inl RangeError, s)"
| "getRegionForTimezone (Suc n) files tz s =
     (case map_of regionExceptions tz of
        Some r \<Rightarrow> Some (Inr r, s)
      | None \<Rightarrow>
          (case map_of regionMap (hd (split tz ''/'')) of
             Some r \<Rightarrow> Some (Inr r, s)
           | None \<Rightarrow>
               (case map_of (tz_zones s) tz of
                  Some (Link_To l) \<Rightarrow> getRegionForTimezone n files l s
                | _ \<Rightarrow>
                    if \<not> tz_loaded s ''backward'' then
                      run_then (loadZoneFile files ''backward'' None) (\<lambda>_. getRegionForTimezone n files tz) s
                    else Some (Inl Thrown, s))))"

text \<open>The loop that follows links; the first argument bounds its rounds.\<close>

fun follow_links :: "nat \<Rightarrow> zone_entry obj \<Rightarrow> string \<Rightarrow> (string \<times> zone_line list option) option" where
  "follow_links 0 zs t = None"
| "follow_links (Suc n) zs t =
     (case map_of zs t of
        Some (Link_To u) \<Rightarrow> follow_links n zs u
      | Some (Lines ls) \<Rightarrow> Some (t, Some ls)
      | None \<Rightarrow> Some (t, None))"

text \<open>The loop from the last line of a zone down; an end at the beginning of 1970 is zero and counts as none.\<close>

definition ended :: "int \<Rightarrow> zone_line \<Rightarrow> bool" where
  "ended utcMillis z = (case z_until z of None \<Rightarrow> False | Some u \<Rightarrow> u \<noteq> 0 \<and> utcMillis > u)"

fun line_index :: "int \<Rightarrow> zone_line list \<Rightarrow> nat \<Rightarrow> nat" where
  "line_index utcMillis ls 0 = 0"
| "line_index utcMillis ls (Suc i) = (if ended utcMillis (ls ! i) then Suc i else line_index utcMillis ls i)"

definition zone_line_at :: "int \<Rightarrow> zone_line list \<Rightarrow> zone_line option" where
  "zone_line_at utcMillis ls =
     (let i = line_index utcMillis ls (length ls) in if i < length ls then Some (ls ! i) else None)"

text \<open>The first argument bounds the rounds of the loop and the depth of the stack.\<close>

fun getZone :: "nat \<Rightarrow> (string \<Rightarrow> string option) \<Rightarrow> int \<Rightarrow> string \<Rightarrow> zone_line option tz_run" where
  "getZone 0 files dt tz s = Some (Inl RangeError, s)"
| "getZone (Suc n) files dt tz s =
     (case follow_links (Suc n) (tz_zones s) tz of
        None \<Rightarrow> None
      | Some (t, Some ls) \<Rightarrow> Some (if ls = [] then (Inl Thrown, s) else (Inr (zone_line_at dt ls), s))
      | Some (t, None) \<Rightarrow>
          if \<not> tz_loaded s ''backward'' then
            run_then (loadZoneFile files ''backward'' None) (\<lambda>_. getZone n files dt tz) s
          else Some (Inl Thrown, s))"

end
