(* ===== verification/Timezone_Rules.thy ===== *)
theory Timezone_Rules
  imports Timezone_Data "HOL-Library.Multiset"
begin

text \<open>
  \<open>getRule\<close> of \<open>timezoneJS.timezone\<close>: the rule of daylight saving time that is in force at a moment, with the
  table of exact dates it keeps, and \<open>getTzInfo\<close>, which puts together zones and rules.  The numbers of days
  in the fields of rules are written in digits.
\<close>

section \<open>The date of a rule in a year\<close>

definition on_number :: "string \<Rightarrow> int option" where
  "on_number s = (if s = [] then Some 0 else if list_all is_digit s then Some (int (digits_val 0 s)) else None)"

text \<open>From a date on to a day of the week, or back to one.\<close>

definition hunt :: "bool \<Rightarrow> int \<Rightarrow> int \<Rightarrow> int" where
  "hunt forwards targetDay d =
     (let ourDay = getDay d
      in d + (if forwards then targetDay - ourDay + (if targetDay < ourDay then 7 else 0)
              else targetDay - ourDay - (if targetDay > ourDay then 7 else 0)) * msPerDay)"

definition rule_date :: "int \<Rightarrow> rule \<Rightarrow> date" where
  "rule_date year r =
     (let t = r_at r; on = r_on r
      in case SHORT_MONTHS (r_in r) of
           None \<Rightarrow> None
         | Some m \<Rightarrow>
             (case on_number on of
                Some d \<Rightarrow> Some (Date_UTC year m d (hms_h t) (hms_m t) (hms_s t))
              | None \<Rightarrow>
                  if take 4 on = ''last'' then
                    map_option (\<lambda>targetDay. hunt False targetDay (Date_UTC year (m + 1) 1 (hms_h t - 24) (hms_m t) (hms_s t)))
                      (SHORT_DAYS (take 3 (drop 4 on)))
                  else
                    (case (on_number (drop 5 on), SHORT_DAYS (take 3 on)) of
                       (Some d, Some targetDay) \<Rightarrow>
                         Some (hunt (take 2 (drop 3 on) = ''>='') targetDay
                           (Date_UTC year m d (hms_h t) (hms_m t) (hms_s t)))
                     | _ \<Rightarrow> None)))"

text \<open>The table of the dates found before; a date that is none is kept as well.  The code finds them by the year and
  the text of the rule, which is the same for rules with the same parts.\<close>

type_synonym date_cache = "int \<times> rule \<Rightarrow> date option"

definition exact_date :: "int \<times> rule \<Rightarrow> date_cache \<Rightarrow> date \<times> date_cache" where
  "exact_date yr c =
     (case c yr of
        Some d \<Rightarrow> (d, c)
      | None \<Rightarrow> let d = rule_date (fst yr) (snd yr) in (d, c(yr \<mapsto> d)))"

section \<open>Offsets\<close>

definition getAdjustedOffset :: "int \<Rightarrow> rule \<Rightarrow> int" where
  "getAdjustedOffset off r = (let k = 60000 in - (- ((off - r_save r) div k)) * k)"

text \<open>\<open>convertDateToUTC\<close>: a moment that is meant as universal, standard or wall clock time.\<close>

definition to_utc :: "int \<Rightarrow> char option \<Rightarrow> rule \<Rightarrow> int \<Rightarrow> int" where
  "to_utc basicOffset type r d =
     (if type = Some (CHR ''u'') \<or> type = Some (CHR ''g'') \<or> type = Some (CHR ''z'') then d
      else if type = Some (CHR ''s'') then d + basicOffset
      else d + getAdjustedOffset basicOffset r)"

section \<open>The rules of a year\<close>

definition rule_applies :: "int \<Rightarrow> rule \<Rightarrow> bool" where
  "rule_applies year r =
     (case r_from r of
        None \<Rightarrow> False
      | Some f \<Rightarrow>
          f \<le> year \<and>
          (case r_to r of
             To_Year y \<Rightarrow> y \<ge> year
           | To_Text t \<Rightarrow>
               (case on_number t of None \<Rightarrow> False | Some y \<Rightarrow> y \<ge> year) \<or> f = year \<and> t = ''only'' \<or> t = ''max''))"

definition findApplicableRules :: "int \<Rightarrow> rule list \<Rightarrow> (int \<times> rule) list" where
  "findApplicableRules year ruleset = map (Pair year) (filter (rule_applies year) ruleset)"

text \<open>The date that is looked up is sorted in among the rules.\<close>

datatype rule_entry = The_Date | On "int \<times> rule"

definition fill_cache :: "rule_entry list \<Rightarrow> date_cache \<Rightarrow> date_cache" where
  "fill_cache es c = foldl (\<lambda>c e. case e of The_Date \<Rightarrow> c | On yr \<Rightarrow> snd (exact_date yr c)) c es"

definition entry_date :: "int \<Rightarrow> date_cache \<Rightarrow> rule_entry \<Rightarrow> date" where
  "entry_date date c e = (case e of The_Date \<Rightarrow> Some date | On yr \<Rightarrow> fst (exact_date yr c))"

text \<open>\<open>applicableRules.sort(compareDates)\<close>: the sorting is stable, it looks at every element when there are two,
  and with a date that is none its outcome is left open: there is no result then.\<close>

definition sort_entries :: "int \<Rightarrow> rule_entry list \<Rightarrow> date_cache \<Rightarrow> (rule_entry list \<times> date_cache) option" where
  "sort_entries date es c =
     (let c' = (if length es < 2 then c else fill_cache es c)
      in if list_all (\<lambda>e. entry_date date c' e \<noteq> None) es
         then Some (sort_key (\<lambda>e. the (entry_date date c' e)) es, c') else None)"

definition date_index :: "rule_entry list \<Rightarrow> nat" where
  "date_index es = length (takeWhile (\<lambda>e. e \<noteq> The_Date) es)"

definition rule_of_entry :: "rule_entry \<Rightarrow> rule option" where
  "rule_of_entry e = (case e of The_Date \<Rightarrow> None | On yr \<Rightarrow> Some (snd yr))"

text \<open>\<open>compareDates(date, entry, prev)\<close>.\<close>

definition compare_with :: "int \<Rightarrow> bool \<Rightarrow> int \<Rightarrow> date_cache \<Rightarrow> rule_entry \<Rightarrow> rule_entry \<Rightarrow> int" where
  "compare_with off isUTC date c e prev =
     (case (e, prev) of
        (On yr, On p) \<Rightarrow>
          to_utc off (Some (if isUTC then CHR ''u'' else CHR ''w'')) (snd p) date
          - to_utc off (hms_type (r_at (snd yr))) (snd p) (the (fst (exact_date yr c)))
      | _ \<Rightarrow> 0)"

definition pick_rule :: "int \<Rightarrow> bool \<Rightarrow> int \<Rightarrow> date_cache \<Rightarrow> rule_entry list \<Rightarrow> rule option" where
  "pick_rule off isUTC date c a =
     (let p = date_index a
      in if p > 1 \<and> compare_with off isUTC date c (a ! (p - 1)) (a ! (p - 2)) < 0 then rule_of_entry (a ! (p - 2))
         else if p > 0 \<and> p + 1 < length a \<and> compare_with off isUTC date c (a ! (p + 1)) (a ! (p - 1)) > 0
         then rule_of_entry (a ! (p + 1))
         else if p = 0 then None
         else rule_of_entry (a ! (p - 1)))"

definition ruleset_of :: "rule list obj \<Rightarrow> zone_line \<Rightarrow> rule list" where
  "ruleset_of rules zone = (case map_of rules (z_rules zone) of None \<Rightarrow> [] | Some rs \<Rightarrow> rs)"

text \<open>The rules of the year before come in when fewer than two of the year's own come before the date.\<close>

definition with_year_before :: "int \<Rightarrow> rule list \<Rightarrow> rule_entry list \<Rightarrow> date_cache \<Rightarrow> (rule_entry list \<times> date_cache) option" where
  "with_year_before date rs a c =
     (if date_index a < 2 then sort_entries date (a @ map On (findApplicableRules (getFullYear date - 1) rs)) c
      else Some (a, c))"

definition getRule :: "rule list obj \<Rightarrow> int \<Rightarrow> zone_line \<Rightarrow> bool \<Rightarrow> date_cache \<Rightarrow> (rule option \<times> date_cache) option" where
  "getRule rules date zone isUTC c =
     (let rs = ruleset_of rules zone
      in Option.bind (sort_entries date (map On (findApplicableRules (getFullYear date) rs) @ [The_Date]) c)
           (\<lambda>(a, c). Option.bind (with_year_before date rs a c)
             (\<lambda>(a, c). Some (pick_rule (z_off zone) isUTC date c a, c))))"

section \<open>The offset and the abbreviation of a moment\<close>

record tz_info =
  tzOffset :: int
  tzAbbr :: "string option"

text \<open>Two alternatives are chosen from by the rule; without a rule there is nothing to read from.\<close>

definition getAbbreviation :: "zone_line \<Rightarrow> rule option \<Rightarrow> string result" where
  "getAbbreviation zone r =
     (let base = z_format zone
      in if occurs ''%s'' base then
           Inr (replace_first base ''%s''
             (case r of None \<Rightarrow> ''S'' | Some r \<Rightarrow> let t = undef_text (r_letter r) in if t = ''-'' then [] else t))
         else if occurs ''/'' base then
           (case r of None \<Rightarrow> Inl TypeError | Some r \<Rightarrow> Inr (split base ''/'' ! (if r_save r \<noteq> 0 then 1 else 0)))
         else Inr base)"

definition load_region :: "nat \<Rightarrow> (string \<Rightarrow> string option) \<Rightarrow> string \<Rightarrow> unit tz_run" where
  "load_region n files tz s =
     (if tz_scheme s = LAZY_LOAD then
        run_then (getRegionForTimezone n files tz)
          (\<lambda>zoneFile s. if \<not> tz_loaded s zoneFile then loadZoneFile files zoneFile None s else Some (Inr (), s)) s
      else Some (Inr (), s))"

definition getTzInfo :: "nat \<Rightarrow> (string \<Rightarrow> string option) \<Rightarrow> int \<Rightarrow> string \<Rightarrow> bool \<Rightarrow> tz_info tz_run" where
  "getTzInfo n files dt tz isUTC =
     run_then (load_region n files tz) (\<lambda>_. run_then (getZone n files dt tz) (\<lambda>z s.
       case z of
         None \<Rightarrow> Some (Inl TypeError, s)
       | Some z \<Rightarrow>
           (case getRule (tz_rules s) dt z isUTC (tz_exact s) of
              None \<Rightarrow> None
            | Some (r, c) \<Rightarrow>
                Some (and_then (getAbbreviation z r)
                        (\<lambda>ab. Inr \<lparr>tzOffset = (case r of None \<Rightarrow> z_off z | Some r \<Rightarrow> getAdjustedOffset (z_off z) r),
                                   tzAbbr = Some ab\<rparr>),
                      s\<lparr>tz_exact := c\<rparr>))))"

section \<open>The table of dates\<close>

definition cache_ok :: "date_cache \<Rightarrow> bool" where
  "cache_ok c \<longleftrightarrow> (\<forall>yr d. c yr = Some d \<longrightarrow> d = rule_date (fst yr) (snd yr))"

abbreviation no_dates :: date_cache where "no_dates \<equiv> \<lambda>_. None"

lemma no_dates_ok [simp]: "cache_ok no_dates"
  by (simp add: cache_ok_def)

lemma exact_date_ok:
  assumes "cache_ok c"
  shows "fst (exact_date yr c) = rule_date (fst yr) (snd yr)" "cache_ok (snd (exact_date yr c))"
  using assms by (auto simp: exact_date_def cache_ok_def Let_def split: option.splits)

lemma fill_cache_ok: "cache_ok c \<Longrightarrow> cache_ok (fill_cache es c)"
  unfolding fill_cache_def by (induction es arbitrary: c) (auto split: rule_entry.split simp: exact_date_ok(2))

lemma entry_date_ok: "cache_ok c \<Longrightarrow> entry_date date c e = entry_date date no_dates e"
  by (cases e) (simp_all add: entry_date_def exact_date_ok(1) del: split_paired_All)

text \<open>A step that uses the table and adds to it: what it finds does not depend on the table, as long as the table
  is right, and the table stays right.\<close>

definition transparent :: "(date_cache \<Rightarrow> ('a \<times> date_cache) option) \<Rightarrow> bool" where
  "transparent f \<longleftrightarrow>
     (\<forall>c. cache_ok c \<longrightarrow> map_option fst (f c) = map_option fst (f no_dates) \<and> (\<forall>a c'. f c = Some (a, c') \<longrightarrow> cache_ok c'))"

lemma transparentD:
  assumes "transparent f" "cache_ok c"
  shows "map_option fst (f c) = map_option fst (f no_dates)" "f c = Some (a, c') \<Longrightarrow> cache_ok c'"
  using assms unfolding transparent_def by blast+

lemma transparent_bind:
  assumes f: "transparent f" and g: "\<And>a. transparent (g a)"
  shows "transparent (\<lambda>c. Option.bind (f c) (\<lambda>(a, c). g a c))"
  unfolding transparent_def
proof (intro allI impI conjI)
  fix c assume c: "cache_ok c"
  show "map_option fst (Option.bind (f c) (\<lambda>(a, c). g a c)) = map_option fst (Option.bind (f no_dates) (\<lambda>(a, c). g a c))"
  proof (cases "f c")
    case None
    then have "f no_dates = None" using transparentD(1) [OF f c] by simp
    with None show ?thesis by simp
  next
    case (Some p)
    then obtain a c1 where 1: "f c = Some (a, c1)" by (cases p) auto
    then have "map_option fst (f no_dates) = Some a" using transparentD(1) [OF f c] by simp
    then obtain c2 where 2: "f no_dates = Some (a, c2)" by auto
    have "map_option fst (g a c1) = map_option fst (g a c2)"
      using transparentD(1) [OF g transparentD(2) [OF f c 1]] transparentD(1) [OF g transparentD(2) [OF f no_dates_ok 2]] by simp
    then show ?thesis by (simp add: 1 2)
  qed
next
  fix c b c' assume c: "cache_ok c" "Option.bind (f c) (\<lambda>(a, c). g a c) = Some (b, c')"
  then obtain a c1 where "f c = Some (a, c1)" "g a c1 = Some (b, c')" by (auto simp: bind_eq_Some_conv)
  then show "cache_ok c'" using transparentD(2) [OF f c(1)] transparentD(2) [OF g] by blast
qed

lemma transparent_sort: "transparent (sort_entries date es)"
  unfolding transparent_def
proof (intro allI impI conjI)
  let ?c = "\<lambda>c. if length es < 2 then c else fill_cache es c"
  fix c assume "cache_ok c"
  then have ok: "cache_ok (?c c)" "cache_ok (?c no_dates)" using fill_cache_ok by simp_all
  have e: "entry_date date (?c c) = entry_date date no_dates" "entry_date date (?c no_dates) = entry_date date no_dates"
    using entry_date_ok [OF ok(1)] entry_date_ok [OF ok(2)] by (auto intro!: ext)
  show "map_option fst (sort_entries date es c) = map_option fst (sort_entries date es no_dates)"
    unfolding sort_entries_def Let_def e by simp
  show "cache_ok c'" if "sort_entries date es c = Some (a, c')" for a c'
  proof -
    have "?c c = c'" using that unfolding sort_entries_def Let_def
      by (cases "list_all (\<lambda>e. entry_date date (?c c) e \<noteq> None) es")
        (simp_all only: if_True if_False option.inject prod.inject option.distinct not_False_eq_True)
    then show ?thesis using ok(1) by simp
  qed
qed

lemma pick_rule_ok: "cache_ok c \<Longrightarrow> pick_rule off u date c a = pick_rule off u date no_dates a"
proof -
  assume c: "cache_ok c"
  have "compare_with off u date c = compare_with off u date no_dates"
    unfolding compare_with_def exact_date_ok(1) [OF c] exact_date_ok(1) [OF no_dates_ok] ..
  then show ?thesis unfolding pick_rule_def by (simp only:)
qed

lemma transparent_getRule: "transparent (getRule rules date zone u)"
proof -
  let ?rs = "ruleset_of rules zone"
  have "transparent (with_year_before date ?rs a)" for a
  proof (cases "date_index a < 2")
    case True
    then have "with_year_before date ?rs a
        = sort_entries date (a @ map On (findApplicableRules (getFullYear date - 1) ?rs))"
      by (intro ext) (simp add: with_year_before_def)
    then show ?thesis using transparent_sort by simp
  qed (simp add: with_year_before_def transparent_def)
  moreover have "transparent (\<lambda>c. Some (pick_rule (z_off zone) u date c a, c))" for a
    unfolding transparent_def using pick_rule_ok by (metis option.inject option.map(2) prod.inject fst_conv)
  ultimately show ?thesis unfolding getRule_def Let_def by (intro transparent_bind transparent_sort)
qed

section \<open>The table along a run\<close>

text \<open>What reads and loads zone files neither looks at the table of dates nor changes it.\<close>

abbreviation put_dates :: "date_cache \<Rightarrow> tz \<Rightarrow> tz" where
  "put_dates c s \<equiv> s\<lparr>tz_exact := c\<rparr>"

lemma set_zone_dates [simp]: "set_zone n e (put_dates c s) = put_dates c (set_zone n e s)"
  by (simp add: set_zone_def)

lemma set_zone_tables [simp]: "tz_exact (set_zone n e s) = tz_exact s" "tz_rules (set_zone n e s) = tz_rules s"
  by (simp_all add: set_zone_def)

lemma parse_zone_dates: "parse_zone n arr (put_dates c s) = map_prod id (put_dates c) (parse_zone n arr s)"
  by (simp add: parse_zone_def Let_def set_zone_def split: sum.split option.split zone_entry.split)

lemma parse_rule_dates: "parse_rule n arr (put_dates c s) = map_prod id (put_dates c) (parse_rule n arr s)"
  by (simp add: parse_rule_def Let_def split: sum.split)

lemma parse_link_dates: "parse_link arr (put_dates c s) = map_prod id (put_dates c) (parse_link arr s)"
  by (simp add: parse_link_def Let_def split: list.split)

lemma parse_line_dates: "parse_line l z (put_dates c s) = map_prod id (put_dates c) (parse_line l z s)"
  by (simp add: parse_line_def Let_def parse_zone_dates parse_rule_dates parse_link_dates split_def)

lemma parse_lines_dates: "parse_lines ls z (put_dates c s) = map_prod id (put_dates c) (parse_lines ls z s)"
proof (induction ls arbitrary: z s)
  case (Cons l ls)
  obtain z' r s' where "parse_line l z s = ((z', r), s')" by (metis surj_pair)
  then show ?case using Cons.IH by (cases r) (simp_all add: parse_line_dates)
qed simp

definition keeps_dates :: "'a tz_run \<Rightarrow> bool" where
  "keeps_dates m \<longleftrightarrow> (\<forall>s c. m (put_dates c s) = map_option (map_prod id (put_dates c)) (m s))"

lemma keeps_datesD: "keeps_dates m \<Longrightarrow> m (put_dates c s) = map_option (map_prod id (put_dates c)) (m s)"
  by (simp add: keeps_dates_def)

lemma keeps_dates_exact: "keeps_dates m \<Longrightarrow> m s = Some (r, s') \<Longrightarrow> tz_exact s' = tz_exact s"
  using keeps_datesD [of m "tz_exact s" s] by (cases s') simp

lemma keeps_run_then:
  assumes "keeps_dates m" "\<And>a. keeps_dates (f a)"
  shows "keeps_dates (run_then m f)"
  unfolding keeps_dates_def
proof (intro allI)
  fix s c
  show "run_then m f (put_dates c s) = map_option (map_prod id (put_dates c)) (run_then m f s)"
  proof (cases "m s")
    case (Some p)
    obtain r s' where "p = (r, s')" by fastforce
    then show ?thesis using keeps_datesD [OF assms(1), of c s] keeps_datesD [OF assms(2)] Some
      by (cases r) (simp_all add: run_then_def)
  qed (use keeps_datesD [OF assms(1), of c s] in \<open>simp add: run_then_def\<close>)
qed

lemma keeps_loadZoneFile: "keeps_dates (loadZoneFile files f opts)"
proof -
  have upd: "put_dates c s\<lparr>tz_loaded := l\<rparr> = put_dates c (s\<lparr>tz_loaded := l\<rparr>)" for c s l by simp
  show ?thesis
    unfolding keeps_dates_def loadZoneFile_def builtInLoadZoneFile_def load_sync_def parseZones_def Let_def
    by (auto simp: parse_lines_dates upd simp del: tz.update_convs split: option.split)
qed

lemma keeps_return: "keeps_dates (\<lambda>s. Some (r, s))"
  by (simp add: keeps_dates_def)

lemma keeps_getRegion: "keeps_dates (getRegionForTimezone n files tz)"
proof (induction n arbitrary: tz)
  case 0
  have "getRegionForTimezone 0 files tz = (\<lambda>s. Some (Inl RangeError, s))" by (intro ext) simp
  then show ?case by (simp add: keeps_return)
next
  case (Suc n)
  have load: "keeps_dates (run_then (loadZoneFile files ''backward'' None) (\<lambda>_. getRegionForTimezone n files tz))"
    by (intro keeps_run_then keeps_loadZoneFile Suc.IH)
  show ?case
    unfolding keeps_dates_def
    by (simp add: keeps_datesD [OF Suc.IH] keeps_datesD [OF load] split: option.split zone_entry.split)
qed

lemma keeps_getZone: "keeps_dates (getZone n files dt tz)"
proof (induction n)
  case 0
  have "getZone 0 files dt tz = (\<lambda>s. Some (Inl RangeError, s))" by (intro ext) simp
  then show ?case by (simp add: keeps_return)
next
  case (Suc n)
  have load: "keeps_dates (run_then (loadZoneFile files ''backward'' None) (\<lambda>_. getZone n files dt tz))"
    by (intro keeps_run_then keeps_loadZoneFile Suc.IH)
  show ?case
    unfolding keeps_dates_def
    by (simp add: keeps_datesD [OF load] del: follow_links.simps split: option.split)
qed

lemma keeps_load_region: "keeps_dates (load_region n files tz)"
proof -
  have get: "keeps_dates (run_then (getRegionForTimezone n files tz)
      (\<lambda>zoneFile s. if \<not> tz_loaded s zoneFile then loadZoneFile files zoneFile None s else Some (Inr (), s)))"
    by (intro keeps_run_then keeps_getRegion)
      (simp add: keeps_dates_def keeps_datesD [OF keeps_loadZoneFile])
  show ?thesis
    unfolding keeps_dates_def load_region_def by (simp add: keeps_datesD [OF get])
qed

text \<open>The answer of \<open>getTzInfo\<close> is that of an empty table.\<close>

definition find_zone :: "nat \<Rightarrow> (string \<Rightarrow> string option) \<Rightarrow> int \<Rightarrow> string \<Rightarrow> zone_line option tz_run" where
  "find_zone n files dt tz = run_then (load_region n files tz) (\<lambda>_. getZone n files dt tz)"

definition info_of :: "zone_line \<Rightarrow> rule option \<Rightarrow> tz_info result" where
  "info_of z r =
     and_then (getAbbreviation z r)
       (\<lambda>ab. Inr \<lparr>tzOffset = (case r of None \<Rightarrow> z_off z | Some r \<Rightarrow> getAdjustedOffset (z_off z) r), tzAbbr = Some ab\<rparr>)"

lemma run_then_assoc: "run_then m (\<lambda>a. run_then (f a) g) = run_then (run_then m f) g"
  by (intro ext) (simp add: run_then_def split: option.split sum.split)

lemma getTzInfo_find:
  "getTzInfo n files dt tz u s =
     (case find_zone n files dt tz s of
        None \<Rightarrow> None
      | Some (Inl e, s') \<Rightarrow> Some (Inl e, s')
      | Some (Inr None, s') \<Rightarrow> Some (Inl TypeError, s')
      | Some (Inr (Some z), s') \<Rightarrow>
          map_option (\<lambda>(r, c). (info_of z r, put_dates c s')) (getRule (tz_rules s') dt z u (tz_exact s')))"
  unfolding getTzInfo_def find_zone_def run_then_assoc
  by (simp add: run_then_def info_of_def split: option.split sum.split)

lemma keeps_find_zone: "keeps_dates (find_zone n files dt tz)"
  unfolding find_zone_def by (intro keeps_run_then keeps_load_region keeps_getZone)

lemma getTzInfo_dates:
  assumes "cache_ok (tz_exact s)"
  shows "map_option fst (getTzInfo n files dt tz u s) = map_option fst (getTzInfo n files dt tz u (put_dates no_dates s))"
    "getTzInfo n files dt tz u s = Some (r, s') \<Longrightarrow> cache_ok (tz_exact s')"
proof -
  let ?f = "find_zone n files dt tz"
  note empty = keeps_datesD [OF keeps_find_zone, of n files dt tz no_dates s]
  have ok: "cache_ok (tz_exact s1)" if "?f s = Some (z, s1)" for z s1
    using keeps_dates_exact [OF keeps_find_zone that] assms by simp
  show "cache_ok (tz_exact s')" if info: "getTzInfo n files dt tz u s = Some (r, s')"
  proof (cases "\<exists>z s1. ?f s = Some (Inr (Some z), s1)")
    case True
    then obtain z s1 where 1: "?f s = Some (Inr (Some z), s1)" by blast
    then obtain q c where "getRule (tz_rules s1) dt z u (tz_exact s1) = Some (q, c)" "s' = put_dates c s1"
      using info by (auto simp: getTzInfo_find)
    then show ?thesis using transparentD(2) [OF transparent_getRule ok [OF 1]] by simp
  next
    case False
    then have "\<exists>z. ?f s = Some (z, s')"
      using info by (auto simp: getTzInfo_find split: option.splits sum.splits)
    then show ?thesis using ok by blast
  qed
  show "map_option fst (getTzInfo n files dt tz u s) = map_option fst (getTzInfo n files dt tz u (put_dates no_dates s))"
  proof (cases "\<exists>z s1. ?f s = Some (Inr (Some z), s1)")
    case True
    then obtain z s1 where 1: "?f s = Some (Inr (Some z), s1)" by blast
    have "map_option fst (getRule (tz_rules s1) dt z u (tz_exact s1)) = map_option fst (getRule (tz_rules s1) dt z u no_dates)"
      by (rule transparentD(1) [OF transparent_getRule ok [OF 1]])
    then have "map_option (info_of z \<circ> fst) (getRule (tz_rules s1) dt z u (tz_exact s1))
        = map_option (info_of z \<circ> fst) (getRule (tz_rules s1) dt z u no_dates)"
      unfolding option.map_comp [symmetric] by simp
    then show ?thesis using 1 empty by (simp add: getTzInfo_find option.map_comp comp_def split_def)
  next
    case False
    then show ?thesis using empty
      by (cases "?f s") (auto simp: getTzInfo_find split: sum.split option.split)
  qed
qed

text \<open>The tables of a page: loaded from files and objects in any order, and asked for moments in between.\<close>

inductive tables_of :: "(string \<Rightarrow> string option) \<Rightarrow> tz \<Rightarrow> bool" for files where
  fresh: "tables_of files new_tz"
| scheme: "tables_of files s \<Longrightarrow> tables_of files (s\<lparr>tz_scheme := m\<rparr>)"
| path: "tables_of files s \<Longrightarrow> tables_of files (s\<lparr>tz_path := p\<rparr>)"
| started: "tables_of files s \<Longrightarrow> init files a cb s = Some (r, s') \<Longrightarrow> tables_of files s'"
| answered: "tables_of files s \<Longrightarrow> i < length (tz_requests s) \<Longrightarrow> tables_of files (zone_file_answer i str s)"
| from_object: "tables_of files s \<Longrightarrow> tables_of files (loadZoneDataFromObject data s)"
| asked: "tables_of files s \<Longrightarrow> getTzInfo n files dt tz u s = Some (r, s') \<Longrightarrow> tables_of files s'"

lemma keeps_load_each: "keeps_dates (load_each files fs opts)"
proof (induction fs)
  case Nil
  have "load_each files [] opts = (\<lambda>s. Some (Inr (), s))" by (intro ext) simp
  then show ?case by (simp add: keeps_return)
next
  case (Cons f fs)
  have "load_each files (f # fs) opts = run_then (loadZoneFile files f opts) (\<lambda>_. load_each files fs opts)"
    by (intro ext) simp
  then show ?case using keeps_run_then [OF keeps_loadZoneFile Cons.IH] by simp
qed

lemma init_dates: "init files a cb s = Some (r, s') \<Longrightarrow> tz_exact s' = tz_exact s"
  using keeps_dates_exact [OF keeps_load_each] keeps_dates_exact [OF keeps_loadZoneFile]
  by (fastforce simp: init_def Let_def split: if_splits)

lemma parse_lines_exact: "tz_exact (snd (parse_lines ls z s)) = tz_exact s"
proof -
  have "put_dates (tz_exact s) s = s" by simp
  then have "snd (parse_lines ls z s) = put_dates (tz_exact s) (snd (parse_lines ls z s))"
    using arg_cong [where f = snd, OF parse_lines_dates [of ls z "tz_exact s" s]] by simp
  from arg_cong [where f = tz_exact, OF this] show ?thesis by simp
qed

lemma answer_exact: "tz_exact (zone_file_answer i str s) = tz_exact s"
proof -
  have cb: "tz_exact (run_callback cb t) = tz_exact t" for cb t
    by (simp add: run_callback_def split: notify.split prod.split)
  obtain url c where r: "tz_requests s ! i = (url, c)" by fastforce
  define s1 where "s1 = s\<lparr>tz_requests := take i (tz_requests s) @ drop (i + 1) (tz_requests s)\<rparr>"
  obtain r s2 where p: "parseZones str s1 = (r, s2)" by fastforce
  then have "tz_exact s2 = tz_exact s1" using parse_lines_exact by (metis parseZones_def snd_conv)
  moreover have "tz_exact s1 = tz_exact s" by (simp add: s1_def)
  ultimately show ?thesis using p [unfolded s1_def] r cb by (cases r) (simp_all add: zone_file_answer_def)
qed

lemma tables_dates: "tables_of files s \<Longrightarrow> cache_ok (tz_exact s)"
proof (induction rule: tables_of.induct)
  case (answered s i str)
  then show ?case by (simp add: answer_exact)
next
  case (from_object s data)
  then show ?case by (simp add: loadZoneDataFromObject_def split: option.split prod.split)
qed (use getTzInfo_dates(2) init_dates in \<open>auto simp: new_tz_def\<close>)

section \<open>The rule in force\<close>

definition ex :: "int \<times> rule \<Rightarrow> int" where
  "ex yr = the (rule_date (fst yr) (snd yr))"

text \<open>The moment at which a rule takes over, on the clock that the rule before it has set.\<close>

definition switch :: "int \<Rightarrow> bool \<Rightarrow> int \<times> rule \<Rightarrow> int \<times> rule \<Rightarrow> int" where
  "switch off isUTC prev yr =
     ex yr + to_utc off (hms_type (r_at (snd yr))) (snd prev) 0
     - to_utc off (Some (if isUTC then CHR ''u'' else CHR ''w'')) (snd prev) 0"

definition has_begun :: "int \<Rightarrow> bool \<Rightarrow> int \<Rightarrow> (int \<times> rule) list \<Rightarrow> nat \<Rightarrow> bool" where
  "has_begun off isUTC date L k \<longleftrightarrow>
     (if k = 0 then ex (L ! 0) < date else switch off isUTC (L ! (k - 1)) (L ! k) \<le> date)"

text \<open>Of the rules in the order of their dates, the last one that has begun.\<close>

definition rule_in_force :: "int \<Rightarrow> bool \<Rightarrow> int \<Rightarrow> (int \<times> rule) list \<Rightarrow> rule option" where
  "rule_in_force off isUTC date L =
     (let ks = filter (has_begun off isUTC date L) [0..<length L] in if ks = [] then None else Some (snd (L ! last ks)))"

text \<open>The dates are further apart than any clock is set forward or back, twice, and the moment is none at which
  a rule takes over.\<close>

definition well_spaced :: "int \<Rightarrow> bool \<Rightarrow> int \<Rightarrow> int \<Rightarrow> (int \<times> rule) list \<Rightarrow> bool" where
  "well_spaced off isUTC B date L \<longleftrightarrow>
     0 \<le> B \<and> sorted_wrt (\<lambda>a b. ex a + 2 * B < ex b) L \<and> (\<forall>yr \<in> set L. rule_date (fst yr) (snd yr) \<noteq> None \<and> ex yr \<noteq> date)
     \<and> (\<forall>k \<in> {1..<length L}.
          \<bar>switch off isUTC (L ! (k - 1)) (L ! k) - ex (L ! k)\<bar> \<le> B \<and> switch off isUTC (L ! (k - 1)) (L ! k) \<noteq> date)"

lemma to_utc_shift: "to_utc off t r d = d + to_utc off t r 0"
  by (simp add: to_utc_def)

lemma compare_switch:
  "rule_date (fst yr) (snd yr) \<noteq> None \<Longrightarrow>
   compare_with off u date no_dates (On yr) (On prev) = date - switch off u prev yr"
  using to_utc_shift [of off _ "snd prev" date] to_utc_shift [of off _ "snd prev" "ex yr"]
  by (simp add: compare_with_def switch_def ex_def exact_date_ok(1) split: rule_entry.split)

definition entries_around :: "(int \<times> rule) list \<Rightarrow> nat \<Rightarrow> rule_entry list" where
  "entries_around L p = map On (take p L) @ The_Date # map On (drop p L)"

lemma date_index_around [simp]: "p \<le> length L \<Longrightarrow> date_index (entries_around L p) = p"
proof -
  assume "p \<le> length L"
  have "takeWhile (\<lambda>e. e \<noteq> The_Date) (entries_around L p) = map On (take p L)"
    unfolding entries_around_def by (subst takeWhile_append2) auto
  then show ?thesis using \<open>p \<le> length L\<close> by (simp add: date_index_def)
qed

lemma around_nth:
  assumes "p \<le> length L"
  shows "k < p \<Longrightarrow> entries_around L p ! k = On (L ! k)"
    "p < length L \<Longrightarrow> entries_around L p ! (p + 1) = On (L ! p)"
    "length (entries_around L p) = length L + 1"
  using assms by (simp_all add: entries_around_def nth_append)

lemma last_filter_upt:
  assumes "k < n" "P k" "\<forall>j. k < j \<and> j < n \<longrightarrow> \<not> P j"
  shows "filter P [0..<n] \<noteq> [] \<and> last (filter P [0..<n]) = k"
proof -
  have "[0..<n] = [0..<k] @ k # [k + 1..<n]"
    using assms(1) by (metis Suc_eq_plus1 le_add1 less_imp_le_nat plus_nat.add_0 upt_add_eq_append upt_conv_Cons le_add_diff_inverse)
  moreover have "filter P [k + 1..<n] = []" using assms(3) by (simp add: filter_empty_conv)
  ultimately show ?thesis using assms(2) by simp
qed

lemma force_eq:
  assumes "k < length L" "has_begun off u date L k" "\<forall>j. k < j \<and> j < length L \<longrightarrow> \<not> has_begun off u date L j"
  shows "rule_in_force off u date L = Some (snd (L ! k))"
  using last_filter_upt [OF assms] by (simp add: rule_in_force_def Let_def)

lemma pick_in_force:
  assumes sp: "well_spaced off u B date L" and p: "p \<le> length L"
    and before: "\<forall>k < p. ex (L ! k) < date" and after: "\<forall>k. p \<le> k \<and> k < length L \<longrightarrow> date < ex (L ! k)"
  shows "pick_rule off u date no_dates (entries_around L p) = rule_in_force off u date L"
proof -
  have B: "0 \<le> B" using sp by (simp add: well_spaced_def)
  have gap: "ex (L ! i) + 2 * B < ex (L ! j)" if "i < j" "j < length L" for i j
    using sp that by (auto simp: well_spaced_def sorted_wrt_iff_nth_less)
  have near: "\<bar>switch off u (L ! (k - 1)) (L ! k) - ex (L ! k)\<bar> \<le> B" "switch off u (L ! (k - 1)) (L ! k) \<noteq> date"
    if "0 < k" "k < length L" for k using sp that by (auto simp: well_spaced_def)
  have comp: "compare_with off u date no_dates (On (L ! k)) (On q) = date - switch off u q (L ! k)" if "k < length L" for k q
    using compare_switch sp that by (auto simp: well_spaced_def)
  have late: "\<not> has_begun off u date L j" if "p < j" "j < length L" for j
    using gap [of p j] after near [of j] that B by (force simp: has_begun_def)
  consider "p = 0" | "p = 1" | "2 \<le> p" by linarith
  then show ?thesis
  proof cases
    case 1
    have "\<not> has_begun off u date L j" if "j < length L" for j
      using late [of j] after that 1 by (cases "j = 0") (auto simp: has_begun_def)
    then show ?thesis using 1 by (simp add: pick_rule_def rule_in_force_def filter_empty_conv Let_def)
  next
    case 2
    then have 0: "has_begun off u date L 0" using before by (simp add: has_begun_def)
    show ?thesis
    proof (cases "p < length L \<and> switch off u (L ! 0) (L ! 1) < date")
      case True
      then have "has_begun off u date L 1" using 2 by (simp add: has_begun_def)
      then have "rule_in_force off u date L = Some (snd (L ! 1))" using force_eq [of 1 L] late True 2 by simp
      then show ?thesis using True 2 comp [of 1 "L ! 0"] around_nth [OF p]
        by (simp add: pick_rule_def Let_def rule_of_entry_def p)
    next
      case False
      then have "\<not> has_begun off u date L 1 \<or> length L = 1" using 2 p near [of 1]
        by (cases "length L = 1") (auto simp: has_begun_def)
      then have "\<forall>j. 0 < j \<and> j < length L \<longrightarrow> \<not> has_begun off u date L j"
        using late 2 by (metis One_nat_def Suc_lessI less_one linorder_neqE_nat)
      moreover have "0 < length L" using p 2 by (cases L) auto
      ultimately have "rule_in_force off u date L = Some (snd (L ! 0))" using 0 by (intro force_eq)
      then show ?thesis using False 2 comp [of 1 "L ! 0"] around_nth [OF p] p
        by (auto simp: pick_rule_def Let_def rule_of_entry_def)
    qed
  next
    case 3
    then have len: "p - 1 < length L" "p - 2 < length L" "0 < p - 1" using p by auto
    have m1: "entries_around L p ! (p - 1) = On (L ! (p - 1))" "entries_around L p ! (p - 2) = On (L ! (p - 2))"
      using around_nth(1) [OF p] 3 by simp_all
    have eq: "p - 1 - 1 = p - 2" using 3 by simp
    show ?thesis
    proof (cases "date < switch off u (L ! (p - 2)) (L ! (p - 1))")
      case True
      have g: "ex (L ! (p - 2)) + 2 * B < ex (L ! (p - 1))" by (rule gap) (use 3 len in auto)
      have d: "ex (L ! (p - 1)) < date" "ex (L ! (p - 2)) < date" using before 3 by simp_all
      have "has_begun off u date L (p - 2)"
      proof (cases "p = 2")
        case False
        then have "0 < p - 2" using 3 by simp
        moreover have "switch off u (L ! (p - 2 - 1)) (L ! (p - 2)) \<le> date"
          using near(1) [OF \<open>0 < p - 2\<close> len(2)] g d B by linarith
        ultimately show ?thesis unfolding has_begun_def by simp
      qed (use d in \<open>simp add: has_begun_def\<close>)
      moreover have "\<not> has_begun off u date L j" if "p - 2 < j" "j < length L" for j
      proof (cases "p < j")
        case False
        then have j: "j = p - 1 \<or> j = p" using that(1) by auto
        have "\<not> has_begun off u date L (p - 1)" using True len(3) eq by (simp add: has_begun_def)
        moreover have "\<not> has_begun off u date L p" if "p < length L"
        proof -
          have "ex (L ! (p - 1)) + 2 * B < ex (L ! p)" by (rule gap) (use 3 that in auto)
          moreover have "\<bar>switch off u (L ! (p - 1)) (L ! p) - ex (L ! p)\<bar> \<le> B" using near(1) [of p] 3 that by simp
          moreover have "\<bar>switch off u (L ! (p - 2)) (L ! (p - 1)) - ex (L ! (p - 1))\<bar> \<le> B"
            using near(1) [OF len(3,1)] eq by simp
          ultimately have "date < switch off u (L ! (p - 1)) (L ! p)" using True by linarith
          then show ?thesis using 3 by (simp add: has_begun_def)
        qed
        ultimately show ?thesis using j that(2) by blast
      qed (use late that in blast)
      ultimately have "rule_in_force off u date L = Some (snd (L ! (p - 2)))" using force_eq [of "p - 2" L] len by blast
      then show ?thesis using True comp [OF len(1), of "L ! (p - 2)"] 3
        by (simp add: pick_rule_def Let_def rule_of_entry_def p m1 del: One_nat_def)
    next
      case False
      have b: "has_begun off u date L (p - 1)" using False len(3) eq by (simp add: has_begun_def)
      show ?thesis
      proof (cases "p < length L \<and> switch off u (L ! (p - 1)) (L ! p) < date")
        case True
        then have "has_begun off u date L p" using 3 by (simp add: has_begun_def)
        then have "rule_in_force off u date L = Some (snd (L ! p))" using force_eq [of p L] late True by blast
        then show ?thesis using True False comp [of p "L ! (p - 1)"] comp [OF len(1), of "L ! (p - 2)"] around_nth [OF p] 3
          by (simp add: pick_rule_def Let_def rule_of_entry_def p m1 del: One_nat_def)
      next
        case F: False
        then have "\<not> has_begun off u date L p \<or> p = length L" using 3 p near [of p] by (cases "p = length L") (auto simp: has_begun_def)
        then have "\<forall>j. p - 1 < j \<and> j < length L \<longrightarrow> \<not> has_begun off u date L j"
          using late 3 by (metis One_nat_def Suc_pred less_Suc_eq less_le_not_le linorder_neqE_nat not_less_eq zero_less_diff len(3) less_trans)
        then have "rule_in_force off u date L = Some (snd (L ! (p - 1)))" using force_eq [of "p - 1" L] b len by blast
        then show ?thesis using F False comp [of p "L ! (p - 1)"] comp [OF len(1), of "L ! (p - 2)"] around_nth [OF p] 3 p
          by (auto simp: pick_rule_def Let_def rule_of_entry_def m1 del: One_nat_def)
      qed
    qed
  qed
qed

section \<open>Sorting\<close>

lemma split_sorted:
  "sorted (map f l) \<Longrightarrow> take (length (filter (\<lambda>x. f x < d) l)) l = filter (\<lambda>x. f x < d) l
     \<and> drop (length (filter (\<lambda>x. f x < d) l)) l = filter (\<lambda>x. \<not> f x < d) l" for d :: int
proof (induction l)
  case (Cons x l)
  show ?case
  proof (cases "f x < d")
    case False
    then have "\<forall>y \<in> set l. \<not> f y < d" using Cons.prems by auto
    then have "filter (\<lambda>x. f x < d) l = []" "filter (\<lambda>x. \<not> f x < d) l = l" by (simp_all add: filter_empty_conv)
    then show ?thesis using False by simp
  qed (use Cons in simp)
qed simp

definition count_before :: "int \<Rightarrow> (int \<times> rule) list \<Rightarrow> nat" where
  "count_before date xs = length (filter (\<lambda>yr. ex yr < date) xs)"

lemma count_before_sort [simp]: "count_before date (sort_key ex xs) = count_before date xs"
  unfolding count_before_def by (metis mset_filter mset_sort size_mset)

lemma count_before_le: "count_before date xs \<le> length xs"
  by (simp add: count_before_def)

lemma sorted_parts:
  assumes "sorted (map ex L)"
  shows "k < count_before date L \<Longrightarrow> ex (L ! k) < date"
    "count_before date L \<le> k \<Longrightarrow> k < length L \<Longrightarrow> date \<le> ex (L ! k)"
proof -
  let ?p = "count_before date L"
  note s = split_sorted [OF assms, of date, folded count_before_def]
  show "ex (L ! k) < date" if "k < ?p"
  proof -
    have "L ! k \<in> set (take ?p L)" using that count_before_le [of date L] nth_mem [of k "take ?p L"] by simp
    then show ?thesis unfolding conjunct1 [OF s] by simp
  qed
  show "date \<le> ex (L ! k)" if "?p \<le> k" "k < length L"
  proof -
    have "L ! k \<in> set (drop ?p L)" using that nth_mem [of "k - ?p" "drop ?p L"] by simp
    then show ?thesis unfolding conjunct2 [OF s] by simp
  qed
qed

lemma mset_around: "mset (entries_around L p) = mset (The_Date # map On L)"
proof -
  have "mset (map On (take p L)) + mset (map On (drop p L)) = mset (map On L)"
    by (metis append_take_drop_id map_append mset_append)
  then show ?thesis by (simp add: entries_around_def)
qed

lemma sort_entries_around:
  assumes es: "mset es = mset (The_Date # map On xs)" and d: "distinct (map ex xs)"
    and dates: "\<forall>yr \<in> set xs. rule_date (fst yr) (snd yr) \<noteq> None \<and> ex yr \<noteq> date" and c: "cache_ok c"
  shows "\<exists>c'. cache_ok c' \<and> sort_entries date es c = Some (entries_around (sort_key ex xs) (count_before date xs), c')"
proof -
  let ?L = "sort_key ex xs" and ?p = "count_before date xs" and ?f = "\<lambda>e. the (entry_date date no_dates e)"
  let ?c = "if length es < 2 then c else fill_cache es c"
  have set: "set es = insert The_Date (On ` set xs)" using es by (metis set_map list.set(2) set_mset_mset)
  have f: "?f The_Date = date" "?f (On yr) = ex yr" for yr
    by (simp_all add: entry_date_def exact_date_ok(1) ex_def)
  have "inj_on ex (set xs)" using d by (simp add: distinct_map)
  then have inj: "inj_on ?f (set es)" using dates f unfolding set by (auto simp: inj_on_def)
  have L: "sorted (map ex ?L)" by simp
  have "mset (entries_around ?L ?p) = mset (The_Date # map On xs)" by (simp add: mset_around)
  then have m: "mset es = mset (entries_around ?L ?p)" using es by simp
  have s: "take ?p ?L = filter (\<lambda>x. ex x < date) ?L" "drop ?p ?L = filter (\<lambda>x. \<not> ex x < date) ?L"
    using split_sorted [OF L, of date] by (simp_all add: count_before_def [symmetric])
  have "sorted (map ?f (entries_around ?L ?p))"
    unfolding entries_around_def s using L by (auto simp: sorted_append f comp_def sorted_filter)
  then have sk: "sort_key ?f es = entries_around ?L ?p" by (rule sort_key_inj_key_eq [OF m inj])
  have ok: "cache_ok ?c" using c fill_cache_ok by simp
  then have e: "entry_date date ?c = entry_date date no_dates" using entry_date_ok by (intro ext) blast
  have "list_all (\<lambda>e. entry_date date no_dates e \<noteq> None) es"
    using dates by (auto simp: list_all_iff set entry_date_def exact_date_ok(1))
  then have "sort_entries date es c = Some (entries_around ?L ?p, ?c)"
    unfolding sort_entries_def Let_def e sk by simp
  with ok show ?thesis by blast
qed

definition considered :: "rule list \<Rightarrow> int \<Rightarrow> (int \<times> rule) list" where
  "considered rs date =
     (let this_year = findApplicableRules (getFullYear date) rs
      in sort_key ex (if count_before date this_year < 2
                      then this_year @ findApplicableRules (getFullYear date - 1) rs else this_year))"

lemma spaced_facts:
  assumes "well_spaced off u B date (sort_key ex xs)"
  shows "distinct (map ex xs)" "\<forall>yr \<in> set xs. rule_date (fst yr) (snd yr) \<noteq> None \<and> ex yr \<noteq> date"
proof -
  have "sorted_wrt (\<lambda>a b. ex a < ex b) (sort_key ex xs)"
    using assms by (auto simp: well_spaced_def intro: sorted_wrt_mono_rel [rotated])
  then have "sorted_wrt (<) (map ex (sort_key ex xs))" by (simp add: sorted_wrt_map)
  then have "distinct (map ex (sort_key ex xs))" by (simp only: strict_sorted_iff)
  moreover have "mset (map ex (sort_key ex xs)) = mset (map ex xs)" by simp
  ultimately show "distinct (map ex xs)" using mset_eq_imp_distinct_iff by blast
  show "\<forall>yr \<in> set xs. rule_date (fst yr) (snd yr) \<noteq> None \<and> ex yr \<noteq> date" using assms by (simp add: well_spaced_def)
qed

lemma getRule_around:
  assumes sp: "well_spaced (z_off zone) u B date (considered (ruleset_of rules zone) date)" and c: "cache_ok c"
  shows "map_option fst (getRule rules date zone u c)
    = Some (rule_in_force (z_off zone) u date (considered (ruleset_of rules zone) date))"
proof -
  let ?rs = "ruleset_of rules zone"
  let ?now = "findApplicableRules (getFullYear date) ?rs" and ?prev = "findApplicableRules (getFullYear date - 1) ?rs"
  let ?L = "considered ?rs date"
  define xs where "xs = (if count_before date ?now < 2 then ?now @ ?prev else ?now)"
  have L: "?L = sort_key ex xs" by (simp add: considered_def xs_def)
  note facts = spaced_facts [OF sp [unfolded L]]
  have this_facts: "distinct (map ex ?now)" "\<forall>yr \<in> set ?now. rule_date (fst yr) (snd yr) \<noteq> None \<and> ex yr \<noteq> date"
    using facts by (auto simp: xs_def split: if_splits)
  obtain c1 where c1: "cache_ok c1" "sort_entries date (map On ?now @ [The_Date]) c
      = Some (entries_around (sort_key ex ?now) (count_before date ?now), c1)"
    using sort_entries_around [OF _ this_facts c, of "map On ?now @ [The_Date]"] by auto
  have idx: "date_index (entries_around (sort_key ex ?now) (count_before date ?now)) = count_before date ?now"
    by (simp add: count_before_le)
  have "\<exists>c2. cache_ok c2 \<and> with_year_before date ?rs (entries_around (sort_key ex ?now) (count_before date ?now)) c1
      = Some (entries_around ?L (count_before date ?L), c2)"
  proof (cases "count_before date ?now < 2")
    case True
    then have xs: "xs = ?now @ ?prev" by (simp add: xs_def)
    have "mset (entries_around (sort_key ex ?now) (count_before date ?now) @ map On ?prev) = mset (The_Date # map On xs)"
      by (simp add: xs mset_around)
    from sort_entries_around [OF this facts c1(1)] True show ?thesis
      unfolding with_year_before_def idx by (simp add: L)
  next
    case False
    then have "xs = ?now" by (simp add: xs_def)
    then show ?thesis using False c1(1) unfolding with_year_before_def idx by (simp add: L)
  qed
  then obtain c2 where c2: "cache_ok c2"
    "with_year_before date ?rs (entries_around (sort_key ex ?now) (count_before date ?now)) c1
      = Some (entries_around ?L (count_before date ?L), c2)" by blast
  have s: "sorted (map ex ?L)" by (simp add: L)
  have "pick_rule (z_off zone) u date no_dates (entries_around ?L (count_before date ?L)) = rule_in_force (z_off zone) u date ?L"
  proof (rule pick_in_force [OF sp count_before_le])
    show "\<forall>k < count_before date ?L. ex (?L ! k) < date" using sorted_parts(1) [OF s] by blast
    show "\<forall>k. count_before date ?L \<le> k \<and> k < length ?L \<longrightarrow> date < ex (?L ! k)"
    proof (intro allI impI)
      fix k assume k: "count_before date ?L \<le> k \<and> k < length ?L"
      then have "ex (?L ! k) \<noteq> date" using sp by (simp add: well_spaced_def)
      then show "date < ex (?L ! k)" using sorted_parts(2) [OF s, of date k] k by simp
    qed
  qed
  then show ?thesis
    unfolding getRule_def Let_def c1(2) using c2(2) pick_rule_ok [OF c2(1)] by simp
qed

section \<open>Properties\<close>

text \<open>C11: whatever was loaded and asked for before, the answer about a moment is the one that an empty table of
  dates gives: a date in the table is that of its rule in its year.\<close>

theorem cached_dates_harmless:
  assumes "tables_of files s"
  shows "map_option fst (getTzInfo n files dt tz isUTC s)
    = map_option fst (getTzInfo n files dt tz isUTC (s\<lparr>tz_exact := \<lambda>_. None\<rparr>))"
  by (rule getTzInfo_dates(1) [OF tables_dates [OF assms]])

text \<open>The rules of the United States since 2007, and the line of New York since 1967.\<close>

definition us_march :: rule where
  "us_march = \<lparr>r_from = Some 2007, r_to = To_Text ''max'', r_type = ''-'', r_in = ''Mar'', r_on = ''Sun>=8'',
     r_at = \<lparr>hms_h = 2, hms_m = 0, hms_s = 0, hms_type = None\<rparr>, r_save = 3600000, r_letter = Some ''D''\<rparr>"

definition us_november :: rule where
  "us_november = \<lparr>r_from = Some 2007, r_to = To_Text ''max'', r_type = ''-'', r_in = ''Nov'', r_on = ''Sun>=1'',
     r_at = \<lparr>hms_h = 2, hms_m = 0, hms_s = 0, hms_type = None\<rparr>, r_save = 0, r_letter = Some ''S''\<rparr>"

definition ny_line :: zone_line where
  "ny_line = \<lparr>z_off = 18000000, z_rules = ''US'', z_format = ''E%sT'', z_until = None\<rparr>"

definition ny_tables :: tz where
  "ny_tables = loadZoneDataFromObject
     (Some ([(''America/New_York'', Lines [ny_line])], [(''US'', [us_march, us_november])])) (new_tz\<lparr>tz_scheme := MANUAL_LOAD\<rparr>)"

lemma ny_tables_used: "tables_of files ny_tables"
  unfolding ny_tables_def by (intro tables_of.from_object tables_of.scheme tables_of.fresh)

theorem cached_dates_harmless_witness:
  "\<exists>r s. getTzInfo 3 (\<lambda>_. None) 1720000000000 ''America/New_York'' False ny_tables = Some (r, s)
    \<and> map_option fst (getTzInfo 3 (\<lambda>_. None) 1730000000000 ''America/New_York'' False s)
      = map_option fst (getTzInfo 3 (\<lambda>_. None) 1730000000000 ''America/New_York'' False (s\<lparr>tz_exact := \<lambda>_. None\<rparr>))"
proof -
  have "getTzInfo 3 (\<lambda>_. None) 1720000000000 ''America/New_York'' False ny_tables \<noteq> None" by code_simp
  then obtain r s where 1: "getTzInfo 3 (\<lambda>_. None) 1720000000000 ''America/New_York'' False ny_tables = Some (r, s)"
    by auto
  have "tables_of (\<lambda>_. None) s" by (rule tables_of.asked [OF ny_tables_used 1])
  from cached_dates_harmless [OF this] 1 show ?thesis by blast
qed

text \<open>C3: as long as the dates of the rules that are considered are well apart and the moment is not exactly
  one of those at which a rule takes over, \<open>getRule\<close> gives the last rule that has begun, where the beginning of a
  rule is read on the clock set by the rule before it, as its letter demands, and no rule when none has begun.\<close>

theorem getRule_in_force:
  assumes "cache_ok c" "well_spaced (z_off zone) isUTC B date (considered (ruleset_of rules zone) date)"
  shows "map_option fst (getRule rules date zone isUTC c)
    = Some (rule_in_force (z_off zone) isUTC date (considered (ruleset_of rules zone) date))"
  using assms by (intro getRule_around)

theorem getRule_in_force_witness:
  "map_option fst (getRule [(''US'', [us_march, us_november])] 1720000000000 ny_line False (\<lambda>_. None)) = Some (Some us_march)"
proof -
  have "well_spaced (z_off ny_line) False 0 1720000000000
      (considered (ruleset_of [(''US'', [us_march, us_november])] ny_line) 1720000000000)" by code_simp
  moreover have "rule_in_force (z_off ny_line) False 1720000000000
      (considered (ruleset_of [(''US'', [us_march, us_november])] ny_line) 1720000000000) = Some us_march" by code_simp
  ultimately show ?thesis using getRule_in_force [OF no_dates_ok] by metis
qed

end
