(* ===== verification/Timezone_Date.thy ===== *)
theory Timezone_Date
  imports Timezone_Rules
begin

text \<open>
  \<open>timezoneJS.Date\<close>: dates in a time zone of their own, on top of the dates of the browser and the tables of zones
  and rules, and the clock of the server that is shown with them.  The browser has an offset of its own, which may
  change with the seasons; offsets are in milliseconds.  Dates are valid ones: what is not a date is \<^const>\<open>None\<close>.
\<close>

section \<open>Fields of dates\<close>

definition getSeconds :: "int \<Rightarrow> int" where "getSeconds t = t mod 60000 div 1000"
definition getMilliseconds :: "int \<Rightarrow> int" where "getMilliseconds t = t mod 1000"

definition Date_UTC_ms :: "int \<Rightarrow> int \<Rightarrow> int \<Rightarrow> int \<Rightarrow> int \<Rightarrow> int \<Rightarrow> int \<Rightarrow> int" where
  "Date_UTC_ms y m d h mi s ms = Date_UTC y m d h mi s + ms"

datatype time_unit = Year | Month | Day | Hours | Minutes | Seconds | Milliseconds

text \<open>The setter of the language for a unit.\<close>

definition set_unit :: "time_unit \<Rightarrow> int \<Rightarrow> int \<Rightarrow> int" where
  "set_unit un n t =
     (case un of
        Year \<Rightarrow> MakeDate (MakeDay n (getMonth t) (getDate t)) (t mod msPerDay)
      | Month \<Rightarrow> MakeDate (MakeDay (getFullYear t) n (getDate t)) (t mod msPerDay)
      | Day \<Rightarrow> setDate n t
      | Hours \<Rightarrow> setHours n t
      | Minutes \<Rightarrow> setMinutes n t
      | Seconds \<Rightarrow> t div 60000 * 60000 + (n * 1000 + t mod 1000)
      | Milliseconds \<Rightarrow> t div 1000 * 1000 + n)"

text \<open>\<open>setUTCMinutes\<close> with the minutes of the date and an offset: a fraction of a minute is cut off.\<close>

definition cut_off :: "int \<Rightarrow> int \<Rightarrow> int" where
  "cut_off a b = (if a \<ge> 0 then a div b else - ((- a) div b))"

definition add_to_minutes :: "int \<Rightarrow> int \<Rightarrow> int" where
  "add_to_minutes off t = setMinutes (cut_off (getMinutes t * 60000 + off) 60000) t"

section \<open>The clock of the browser\<close>

text \<open>What the browser knows of its own time zone: its offset at a moment, and the moment that it takes for fields of
  local time, which are skipped or repeated when its clock changes.  Both are parameters.\<close>

record browser_clock =
  utc_offset :: "int \<Rightarrow> int"
  from_local :: "int \<Rightarrow> int"

definition local_time :: "browser_clock \<Rightarrow> int \<Rightarrow> int" where
  "local_time br t = t - utc_offset br t"

text \<open>A browser whose clock never changes.\<close>

definition steady :: "int \<Rightarrow> browser_clock" where
  "steady off = \<lparr>utc_offset = (\<lambda>_. off), from_local = (\<lambda>l. l + off)\<rparr>"

lemma steady_simps [simp]: "utc_offset (steady off) t = off" "from_local (steady off) l = l + off" "local_time (steady off) t = t - off"
  by (simp_all add: steady_def local_time_def)

section \<open>Dates in a time zone\<close>

record tz_date =
  d_useCache :: bool
  d_tzInfo :: tz_info
  d_day :: int
  d_year :: int
  d_month :: int
  d_date :: int
  d_hours :: int
  d_minutes :: int
  d_seconds :: int
  d_milliseconds :: int
  d_timezone :: "string option"
  d_dateProxy :: int
  d_timeProxy :: int

definition setFromDateObjProxy :: "browser_clock \<Rightarrow> int \<Rightarrow> tz_date \<Rightarrow> tz_date" where
  "setFromDateObjProxy br dt d =
     (let l = local_time br dt
      in d\<lparr>d_year := getFullYear l, d_month := getMonth l, d_date := getDate l, d_hours := getHours l,
           d_minutes := getMinutes l, d_seconds := getSeconds l, d_milliseconds := getMilliseconds l, d_day := getDay l,
           d_dateProxy := dt,
           d_timeProxy := Date_UTC_ms (getFullYear l) (getMonth l) (getDate l) (getHours l) (getMinutes l) (getSeconds l)
             (getMilliseconds l),
           d_useCache := False\<rparr>)"

definition named :: "string option \<Rightarrow> bool" where
  "named tz \<longleftrightarrow> tz \<noteq> None \<and> tz \<noteq> Some []"

text \<open>The moment is looked up as it is, as if it were wall clock time.\<close>

definition setFromTimeProxy ::
    "nat \<Rightarrow> (string \<Rightarrow> string option) \<Rightarrow> browser_clock \<Rightarrow> int \<Rightarrow> string option \<Rightarrow> tz_date \<Rightarrow> tz_date tz_run" where
  "setFromTimeProxy n files br utcMillis tz d s =
     (if named tz then
        run_then (getTzInfo n files utcMillis (the tz) False)
          (\<lambda>i s. Some (Inr (setFromDateObjProxy br (utcMillis + (utc_offset br utcMillis - tzOffset i)) d), s)) s
      else Some (Inr (setFromDateObjProxy br utcMillis d), s))"

definition getTimezoneInfo :: "nat \<Rightarrow> (string \<Rightarrow> string option) \<Rightarrow> browser_clock \<Rightarrow> tz_date \<Rightarrow> (tz_info \<times> tz_date) tz_run" where
  "getTimezoneInfo n files br d s =
     (let store = (\<lambda>i s. Some (Inr (i, d\<lparr>d_tzInfo := i, d_useCache := True\<rparr>), s))
      in if d_useCache d then Some (Inr (d_tzInfo d, d), s)
         else if named (d_timezone d) then
           if d_timezone d = Some ''Etc/UTC'' \<or> d_timezone d = Some ''Etc/GMT''
           then store \<lparr>tzOffset = 0, tzAbbr = Some ''UTC''\<rparr> s
           else run_then (getTzInfo n files (d_timeProxy d) (the (d_timezone d)) False) store s
         else store \<lparr>tzOffset = utc_offset br (d_dateProxy d), tzAbbr = None\<rparr> s)"

definition getTime :: "nat \<Rightarrow> (string \<Rightarrow> string option) \<Rightarrow> browser_clock \<Rightarrow> tz_date \<Rightarrow> (int \<times> tz_date) tz_run" where
  "getTime n files br d =
     run_then (getTimezoneInfo n files br d) (\<lambda>(i, d) s. Some (Inr (d_timeProxy d + tzOffset i, d), s))"

section \<open>The constructor\<close>

datatype arg = Num int | Text string

text \<open>A time zone has letters and a slash at the beginning.\<close>

definition is_letter :: "char \<Rightarrow> bool" where
  "is_letter c \<longleftrightarrow> of_char c \<in> {65..90 :: nat} \<or> of_char c \<in> {97..122 :: nat}"

definition TZ_REGEXP :: "string \<Rightarrow> bool" where
  "TZ_REGEXP t \<longleftrightarrow> takeWhile is_letter t \<noteq> [] \<and> take 1 (dropWhile is_letter t) = ''/''"

definition tz_argument :: "arg list \<Rightarrow> string option" where
  "tz_argument args = (if args = [] then None
     else case last args of Text t \<Rightarrow> if TZ_REGEXP t then Some t else None | Num _ \<Rightarrow> None)"

text \<open>Missing arguments count as zero, also the day.  An argument that is a text is not a number.\<close>

definition number_argument :: "arg list \<Rightarrow> nat \<Rightarrow> int option" where
  "number_argument args i =
     (if i < length args then (case args ! i of Num k \<Rightarrow> Some k | Text t \<Rightarrow> if t = [] then Some 0 else None) else Some 0)"

definition blank_date :: "string option \<Rightarrow> tz_date" where
  "blank_date tz = \<lparr>d_useCache = False, d_tzInfo = \<lparr>tzOffset = 0, tzAbbr = None\<rparr>, d_day = 0, d_year = 0, d_month = 0,
     d_date = 0, d_hours = 0, d_minutes = 0, d_seconds = 0, d_milliseconds = 0, d_timezone = tz, d_dateProxy = 0,
     d_timeProxy = 0\<rparr>"

definition some_date :: "tz_date tz_run \<Rightarrow> tz_date option tz_run" where
  "some_date m = run_then m (\<lambda>d s. Some (Inr (Some d), s))"

definition fields_date :: "browser_clock \<Rightarrow> arg list \<Rightarrow> date" where
  "fields_date br args =
     (let a = map (number_argument args) [0..<7]
      in if None \<in> set a then None
         else let v = map the a in Some (from_local br (Date_UTC_ms (v ! 0) (v ! 1) (v ! 2) (v ! 3) (v ! 4) (v ! 5) (v ! 6))))"

definition new_Date ::
    "nat \<Rightarrow> (string \<Rightarrow> string option) \<Rightarrow> browser_clock \<Rightarrow> int \<Rightarrow> (string \<Rightarrow> date) \<Rightarrow> arg list \<Rightarrow> tz_date option tz_run" where
  "new_Date n files br now date_parse args s =
     (let tz = tz_argument args; args = (if tz = None then args else butlast args); this = blank_date tz;
          from_time = (\<lambda>dt. case dt of None \<Rightarrow> Some (Inr None, s)
             | Some t \<Rightarrow> some_date (setFromTimeProxy n files br t tz this) s)
      in case args of
           [] \<Rightarrow> from_time (Some now)
         | [Num t] \<Rightarrow> from_time (Some t)
         | [Text t] \<Rightarrow> from_time (date_parse t)
         | _ \<Rightarrow> Some (Inr (map_option (\<lambda>dt. setFromDateObjProxy br dt this) (fields_date br args)), s))"

section \<open>Setters\<close>

text \<open>\<^const>\<open>None\<close> is not a number.\<close>

definition setAttribute :: "browser_clock \<Rightarrow> time_unit \<Rightarrow> int option \<Rightarrow> tz_date \<Rightarrow> tz_date result" where
  "setAttribute br un n d =
     (case n of
        None \<Rightarrow> Inl Thrown
      | Some k \<Rightarrow> Inr (setFromDateObjProxy br (from_local br (set_unit un k (local_time br (d_dateProxy d)))) d))"

definition getUTCDateProxy :: "nat \<Rightarrow> (string \<Rightarrow> string option) \<Rightarrow> browser_clock \<Rightarrow> tz_date \<Rightarrow> (int \<times> tz_date) tz_run" where
  "getUTCDateProxy n files br d =
     run_then (getTimezoneInfo n files br d) (\<lambda>(i, d) s. Some (Inr (add_to_minutes (tzOffset i) (d_timeProxy d), d), s))"

definition getUTC :: "nat \<Rightarrow> (string \<Rightarrow> string option) \<Rightarrow> browser_clock \<Rightarrow> (int \<Rightarrow> int) \<Rightarrow> tz_date \<Rightarrow> (int \<times> tz_date) tz_run" where
  "getUTC n files br get d = run_then (getUTCDateProxy n files br d) (\<lambda>(dt, d) s. Some (Inr (get dt, d), s))"

definition setUTCAttribute ::
    "nat \<Rightarrow> (string \<Rightarrow> string option) \<Rightarrow> browser_clock \<Rightarrow> time_unit \<Rightarrow> int option \<Rightarrow> tz_date \<Rightarrow> tz_date tz_run" where
  "setUTCAttribute n files br un k d s =
     (case k of
        None \<Rightarrow> Some (Inl Thrown, s)
      | Some k \<Rightarrow>
          run_then (getUTCDateProxy n files br d) (\<lambda>(dt, d). run_then (getTimezoneInfo n files br d) (\<lambda>(i, d).
            let dt' = add_to_minutes (- tzOffset i) (set_unit un k dt)
            in setFromTimeProxy n files br (dt' + tzOffset i) (d_timezone d) d)) s)"

definition setTimezone :: "nat \<Rightarrow> (string \<Rightarrow> string option) \<Rightarrow> browser_clock \<Rightarrow> string option \<Rightarrow> tz_date \<Rightarrow> tz_date tz_run" where
  "setTimezone n files br tz d =
     run_then (getTimezoneInfo n files br d) (\<lambda>(previous, d).
       run_then (getUTCDateProxy n files br (d\<lparr>d_timezone := tz, d_useCache := False\<rparr>)) (\<lambda>(dt, d).
         run_then (getTimezoneInfo n files br d) (\<lambda>(i, d).
           setUTCAttribute n files br Minutes
             (Some (cut_off (getMinutes dt * 60000 - tzOffset i + tzOffset previous) 60000)) d)))"

text \<open>The year is set in universal time, unlike by \<open>setFullYear\<close>.\<close>

definition setYear :: "nat \<Rightarrow> (string \<Rightarrow> string option) \<Rightarrow> browser_clock \<Rightarrow> int option \<Rightarrow> tz_date \<Rightarrow> tz_date tz_run" where
  "setYear n files br k d = setUTCAttribute n files br Year k d"

definition removeTimezone :: "tz_date \<Rightarrow> tz_date" where
  "removeTimezone d = d\<lparr>d_timezone := None, d_useCache := False\<rparr>"

text \<open>Arguments that may be missing: \<^const>\<open>None\<close> is \<open>undefined\<close>.\<close>

definition set_given :: "(int option \<Rightarrow> 'd \<Rightarrow> 'r) \<Rightarrow> ('d \<Rightarrow> 'r) \<Rightarrow> int option option \<Rightarrow> 'd \<Rightarrow> 'r" where
  "set_given f skip a d = (case a of None \<Rightarrow> skip d | Some k \<Rightarrow> f k d)"

text \<open>An argument that is zero or not a number is skipped by \<open>setHours\<close>.\<close>

definition set_truthy :: "(int option \<Rightarrow> 'd \<Rightarrow> 'r) \<Rightarrow> ('d \<Rightarrow> 'r) \<Rightarrow> int option option \<Rightarrow> 'd \<Rightarrow> 'r" where
  "set_truthy f skip a d = (case a of Some (Some k) \<Rightarrow> if k \<noteq> 0 then f (Some k) d else skip d | _ \<Rightarrow> skip d)"

definition setFullYear_tz :: "browser_clock \<Rightarrow> int option \<Rightarrow> int option option \<Rightarrow> int option option \<Rightarrow> tz_date \<Rightarrow> tz_date result" where
  "setFullYear_tz br year month day d =
     and_then (set_given (\<lambda>_. setAttribute br Day (Some 1)) Inr day d) (\<lambda>d.
     and_then (setAttribute br Year year d) (\<lambda>d.
     and_then (set_given (setAttribute br Month) Inr month d)
       (set_given (setAttribute br Day) Inr day)))"

definition setHours_tz ::
    "browser_clock \<Rightarrow> int option \<Rightarrow> int option option \<Rightarrow> int option option \<Rightarrow> int option option \<Rightarrow> tz_date \<Rightarrow> tz_date result" where
  "setHours_tz br hours minutes seconds milliseconds d =
     and_then (setAttribute br Hours hours d) (\<lambda>d.
     and_then (set_truthy (setAttribute br Minutes) Inr minutes d) (\<lambda>d.
     and_then (set_truthy (setAttribute br Seconds) Inr seconds d)
       (set_truthy (setAttribute br Milliseconds) Inr milliseconds)))"

definition skip_run :: "tz_date \<Rightarrow> tz_date tz_run" where
  "skip_run d s = Some (Inr d, s)"

definition setUTCFullYear ::
    "nat \<Rightarrow> (string \<Rightarrow> string option) \<Rightarrow> browser_clock \<Rightarrow> int option \<Rightarrow> int option option \<Rightarrow> int option option \<Rightarrow> tz_date \<Rightarrow> tz_date tz_run" where
  "setUTCFullYear n files br year month day d =
     (let set = setUTCAttribute n files br
      in run_then (set_given (\<lambda>_. set Day (Some 1)) skip_run day d) (\<lambda>d.
         run_then (set Year year d) (\<lambda>d.
         run_then (set_given (set Month) skip_run month d)
           (set_given (set Day) skip_run day))))"

definition setUTCHours ::
    "nat \<Rightarrow> (string \<Rightarrow> string option) \<Rightarrow> browser_clock \<Rightarrow> int option \<Rightarrow> int option option \<Rightarrow> int option option \<Rightarrow> int option option
     \<Rightarrow> tz_date \<Rightarrow> tz_date tz_run" where
  "setUTCHours n files br hours minutes seconds milliseconds d =
     (let set = setUTCAttribute n files br
      in run_then (set Hours hours d) (\<lambda>d.
         run_then (set_truthy (set Minutes) skip_run minutes d) (\<lambda>d.
         run_then (set_truthy (set Seconds) skip_run seconds d)
           (set_truthy (set Milliseconds) skip_run milliseconds))))"

definition setTime :: "nat \<Rightarrow> (string \<Rightarrow> string option) \<Rightarrow> browser_clock \<Rightarrow> int option \<Rightarrow> tz_date \<Rightarrow> tz_date tz_run" where
  "setTime n files br k d s =
     (case k of None \<Rightarrow> Some (Inl Thrown, s) | Some t \<Rightarrow> setFromTimeProxy n files br t (d_timezone d) d s)"

definition clone :: "nat \<Rightarrow> (string \<Rightarrow> string option) \<Rightarrow> browser_clock \<Rightarrow> int \<Rightarrow> (string \<Rightarrow> date) \<Rightarrow> tz_date \<Rightarrow> (tz_date option \<times> tz_date) tz_run" where
  "clone n files br now date_parse d =
     run_then (getTime n files br d) (\<lambda>(t, d).
       run_then (new_Date n files br now date_parse (Num t # (if named (d_timezone d) then [Text (the (d_timezone d))] else [])))
         (\<lambda>c s. Some (Inr (c, d), s)))"

section \<open>The text of a date\<close>

text \<open>Despite its comment it never shortens a number.\<close>

definition fixWidth :: "int \<Rightarrow> nat \<Rightarrow> string" where
  "fixWidth number digits = (let s = int_str number in replicate (digits - length s) (CHR ''0'') @ s)"

text \<open>\<open>replace\<close> with a global pattern \<open>c+\<close> and a function, which gets the runs from left to right and may keep a
  state.\<close>

function replace_runs :: "(char \<Rightarrow> bool) \<Rightarrow> (nat \<Rightarrow> 's \<Rightarrow> string \<times> 's) \<Rightarrow> string \<Rightarrow> 's \<Rightarrow> string \<times> 's" where
  "replace_runs p f [] st = ([], st)"
| "replace_runs p f (c # cs) st =
     (if p c then
        let (t, st1) = f (length (takeWhile p (c # cs))) st; (r, st2) = replace_runs p f (dropWhile p cs) st1
        in (t @ r, st2)
      else let (r, st1) = replace_runs p f cs st in (c # r, st1))"
  by pat_completeness auto
termination
  by (relation "measure (\<lambda>(p, f, s, st). length s)") (auto simp: le_imp_less_Suc length_dropWhile_le)

definition replace_letter :: "char \<Rightarrow> (nat \<Rightarrow> string) \<Rightarrow> string \<Rightarrow> string" where
  "replace_letter c f s = fst (replace_runs (\<lambda>x. x = c) (\<lambda>k st. (f k, st)) s ())"

definition month_token :: "int \<Rightarrow> nat \<Rightarrow> string" where
  "month_token m len =
     (if len > 3 then MONTHS ! nat m
      else if len > 2 then substring (MONTHS ! nat m) 0 (int len)
      else fixWidth (m + 1) len)"

text \<open>Morning or afternoon; in the afternoon the hours count from noon on from then on.\<close>

definition half_day :: "nat \<Rightarrow> int \<Rightarrow> string \<times> int" where
  "half_day k hours = (if hours \<ge> 12 then (''PM'', if hours > 12 then hours - 12 else hours) else (''AM'', hours))"

definition format_fields :: "string \<Rightarrow> tz_info \<Rightarrow> tz_date \<Rightarrow> string" where
  "format_fields format i d =
     (let r1 = replace_letter (CHR ''a'') (\<lambda>_. ''k'') format;
          r2 = replace_letter (CHR ''y'') (fixWidth (d_year d)) r1;
          r3 = replace_letter (CHR ''d'') (fixWidth (d_date d)) r2;
          r4 = replace_letter (CHR ''m'') (fixWidth (d_minutes d)) r3;
          r5 = replace_letter (CHR ''s'') (fixWidth (d_seconds d)) r4;
          r6 = replace_letter (CHR ''S'') (fixWidth (d_milliseconds d)) r5;
          r7 = replace_letter (CHR ''M'') (month_token (d_month d)) r6;
          (r8, hours) = replace_runs (\<lambda>c. c = CHR ''k'') half_day r7 (d_hours d);
          r9 = replace_letter (CHR ''H'') (fixWidth hours) r8;
          r10 = replace_letter (CHR ''E'') (\<lambda>k. substring (DAYS ! nat (d_day d)) 0 (int k)) r9
      in fst (replace_runs (\<lambda>c. c = CHR ''Z'' \<or> c = CHR ''z'')
           (\<lambda>_ st. (case tzAbbr i of None \<Rightarrow> ''null'' | Some t \<Rightarrow> t, st)) r10 ()))"

text \<open>With a time zone a copy is moved there first.  A copy that is not a date has no fields to read.\<close>

definition toString ::
    "nat \<Rightarrow> (string \<Rightarrow> string option) \<Rightarrow> browser_clock \<Rightarrow> int \<Rightarrow> (string \<Rightarrow> date) \<Rightarrow> string \<Rightarrow> string option \<Rightarrow> tz_date
     \<Rightarrow> (string option \<times> tz_date) tz_run" where
  "toString n files br now date_parse format0 tz d =
     (let format = (if format0 = [] then ''yyyy-MM-dd HH:mm:ss'' else format0)
      in if named tz then
           run_then (getTime n files br d) (\<lambda>(t, d).
             run_then (getTzInfo n files t (the tz) False) (\<lambda>i.
               run_then (clone n files br now date_parse d) (\<lambda>(c, d) s.
                 case c of
                   None \<Rightarrow> Some (Inr (None, d), s)
                 | Some c \<Rightarrow>
                     run_then (setTimezone n files br tz c) (\<lambda>c s. Some (Inr (Some (format_fields format i c), d), s)) s)))
         else run_then (getTimezoneInfo n files br d) (\<lambda>(i, d) s. Some (Inr (Some (format_fields format i d), d), s)))"

definition toISOString ::
    "nat \<Rightarrow> (string \<Rightarrow> string option) \<Rightarrow> browser_clock \<Rightarrow> int \<Rightarrow> (string \<Rightarrow> date) \<Rightarrow> tz_date \<Rightarrow> (string option \<times> tz_date) tz_run" where
  "toISOString n files br now date_parse d =
     run_then (toString n files br now date_parse ''yyyy-MM-ddTHH:mm:ss.SSS'' (Some ''Etc/UTC'') d)
       (\<lambda>(t, d) s. Some (Inr (map_option (\<lambda>t. t @ ''Z'') t, d), s))"

definition toGMTString ::
    "nat \<Rightarrow> (string \<Rightarrow> string option) \<Rightarrow> browser_clock \<Rightarrow> int \<Rightarrow> (string \<Rightarrow> date) \<Rightarrow> tz_date \<Rightarrow> (string option \<times> tz_date) tz_run" where
  "toGMTString n files br now date_parse d =
     toString n files br now date_parse ''EEE, dd MMM yyyy HH:mm:ss Z'' (Some ''Etc/GMT'') d"

section \<open>Julian days\<close>

text \<open>The products with fractions are exact in the whole parts that are taken of them.\<close>

definition civilToJulianDayNumber :: "int \<Rightarrow> int \<Rightarrow> int \<Rightarrow> int" where
  "civilToJulianDayNumber y m d =
     (let m1 = m + 1;
          (y2, m2) = (if m1 > 12 then (y + m1 div 12, m1 mod 12) else (y, m1));
          (y3, m3) = (if m2 \<le> 2 then (y2 - 1, m2 + 12) else (y2, m2));
          a = y3 div 100;
          b = 2 - a + a div 4
      in (1461 * (y3 + 4716)) div 4 + (306001 * (m3 + 1)) div 10000 + d + b - 1524)"

section \<open>Julian days are the days of the language\<close>

definition leap_days :: "int \<Rightarrow> int" where
  "leap_days y = y div 4 - y div 100 + y div 400"

lemma DayFromYear_leap_days: "DayFromYear (y + 1) = 365 * (y - 1969) + leap_days y - 477"
  using DayFromYear_alt [of "y + 1"] by (simp add: leap_days_def)

lemma quarter_days: "(1461 * (y + 4716)) div 4 = 365 * y + y div 4 + (1722519 :: int)"
proof -
  have "1461 * (y + 4716) = y + (365 * y + 1722519) * 4" by simp
  then show ?thesis by (simp only: div_mult_self1)
qed

lemma quotient_of: "b = 12 * q + r \<Longrightarrow> 0 \<le> r \<Longrightarrow> r < 12 \<Longrightarrow> b div 12 = q \<and> b mod 12 = r" for b :: int
  using int_div_pos_eq [of b 12 q r] int_mod_pos_eq [of b 12 q r] by simp

lemma civil_parts:
  "(1461 * (y + 4716)) div 4 + (2 - y div 100 + y div 100 div 4) = 365 * y + leap_days y + (1722521 :: int)"
  using quarter_days [of y] zdiv_zmult2_eq [of 4 y 100] by (simp add: leap_days_def)

text \<open>The year and month that the code computes with: January and February count as months 13 and 14.\<close>

lemma civil_shifted:
  assumes "0 \<le> m" "Y = y + m div 12" "M = m mod 12"
  shows "civilToJulianDayNumber y m d =
    (let (y3, m3) = (if M \<le> 1 then (Y - 1, M + 13) else (Y, M + 1))
     in 365 * y3 + leap_days y3 + (306001 * (m3 + 1)) div 10000 + d + 1720997)"
proof -
  define q where "q = m div 12"
  have m: "m = 12 * q + M" "0 \<le> q" "0 \<le> M" "M < 12" and Y: "Y = y + q" using assms by (simp_all add: q_def)
  have next_m: "(m + 1) div 12 = (if M = 11 then q + 1 else q)" "(m + 1) mod 12 = (if M = 11 then 0 else M + 1)"
    using quotient_of [of "m + 1" "q + 1" 0] quotient_of [of "m + 1" q "M + 1"] m by auto
  have big: "m + 1 > 12 \<longleftrightarrow> q > 0" using m by auto
  have split: "(if (if m + 1 > 12 then (m + 1) mod 12 else m + 1) \<le> 2
      then (if m + 1 > 12 then y + (m + 1) div 12 else y) - 1 else (if m + 1 > 12 then y + (m + 1) div 12 else y))
      = (if M \<le> 1 then Y - 1 else Y)
    \<and> (if (if m + 1 > 12 then (m + 1) mod 12 else m + 1) \<le> 2
      then (if m + 1 > 12 then (m + 1) mod 12 else m + 1) + 12 else (if m + 1 > 12 then (m + 1) mod 12 else m + 1))
      = (if M \<le> 1 then M + 13 else M + 1)"
    unfolding big next_m using m Y by (cases "q = 0"; cases "M = 11") auto
  let ?y3 = "if M \<le> 1 then Y - 1 else Y"
  have "civilToJulianDayNumber y m d =
    (1461 * (?y3 + 4716)) div 4 + (306001 * ((if M \<le> 1 then M + 13 else M + 1) + 1)) div 10000 + d
      + (2 - ?y3 div 100 + ?y3 div 100 div 4) - 1524"
    using split unfolding civilToJulianDayNumber_def Let_def by (simp only: split_beta fst_conv snd_conv if_distrib [of fst] if_distrib [of snd])
  then show ?thesis using civil_parts [of ?y3] by (cases "M \<le> 1") simp_all
qed

text \<open>C29: the Julian day number of a day, also with a month beyond the year, is the number of the day since
  1970 that the language computes with, counted from day 2440588.\<close>

theorem julian_days:
  assumes "0 \<le> m"
  shows "civilToJulianDayNumber y m d = MakeDay y m d + 2440588"
proof -
  let ?Y = "y + m div 12" and ?M = "m mod 12"
  have jan: "DayFromYear ?Y = 365 * (?Y - 1 - 1969) + leap_days (?Y - 1) - 477"
    using DayFromYear_leap_days [of "?Y - 1"] by simp
  have mar: "DayFromYear ?Y + (if leap ?Y then 366 else 365) = 365 * (?Y - 1969) + leap_days ?Y - 477"
    using DayFromYear_leap_days [of ?Y] DayFromYear_Suc [of ?Y] by (simp add: days_in_year_def)
  have "0 \<le> ?M" "?M < 12" by simp_all
  then consider "?M = 0" | "?M = 1" | "?M = 2" | "?M = 3" | "?M = 4" | "?M = 5" | "?M = 6" | "?M = 7" | "?M = 8" | "?M = 9"
    | "?M = 10" | "?M = 11" using twelve_months [of ?M] by blast
  then show ?thesis unfolding civil_shifted [OF assms refl refl] MakeDay_def
    by cases (use jan mar in \<open>simp_all add: Let_def month_start_def split: if_splits\<close>)
qed

theorem julian_days_witness: "civilToJulianDayNumber 2023 14 29 = 19811 + 2440588"
proof -
  have "MakeDay 2023 14 29 = 19811" by code_simp
  then show ?thesis using julian_days [of 14 2023 29] by simp
qed

section \<open>What a date shows\<close>

lemma day_fields: "MakeDay (getFullYear t) (getMonth t) (getDate t) = t div msPerDay"
  by (simp add: getFullYear_def getMonth_def getDate_def)

lemma clock_fields:
  "getHours t * 3600000 + getMinutes t * 60000 + getSeconds t * 1000 + getMilliseconds t = t mod msPerDay"
proof -
  have "t mod msPerDay mod 3600000 = t mod 3600000" "t mod 3600000 mod 60000 = t mod 60000" "t mod 60000 mod 1000 = t mod 1000"
    by (simp_all add: mod_mod_cancel)
  then show ?thesis
    using div_mult_mod_eq [of "t mod msPerDay" 3600000] div_mult_mod_eq [of "t mod 3600000" 60000]
      div_mult_mod_eq [of "t mod 60000" 1000]
    by (simp add: getHours_def getMinutes_def getSeconds_def getMilliseconds_def)
qed

text \<open>\<open>Date.UTC\<close> misreads the first hundred years.\<close>

definition plain_year :: "int \<Rightarrow> bool" where
  "plain_year t \<longleftrightarrow> \<not> (0 \<le> getFullYear t \<and> getFullYear t \<le> 99)"

lemma UTC_fields:
  assumes "plain_year t"
  shows "Date_UTC_ms (getFullYear t) (getMonth t) (getDate t) (getHours t) (getMinutes t) (getSeconds t) (getMilliseconds t) = t"
proof -
  have "Date_UTC_ms (getFullYear t) (getMonth t) (getDate t) (getHours t) (getMinutes t) (getSeconds t) (getMilliseconds t)
      = MakeDate (t div msPerDay) (getHours t * 3600000 + getMinutes t * 60000 + getSeconds t * 1000 + getMilliseconds t)"
    using assms by (auto simp: Date_UTC_ms_def Date_UTC_def day_fields MakeDate_def plain_year_def)
  then show ?thesis by (simp add: clock_fields)
qed

text \<open>The date shows the moment \<open>l\<close> of the wall clock.\<close>

definition wall_clock :: "browser_clock \<Rightarrow> tz_date \<Rightarrow> int \<Rightarrow> bool" where
  "wall_clock br d l \<longleftrightarrow>
     d_year d = getFullYear l \<and> d_month d = getMonth l \<and> d_date d = getDate l \<and> d_hours d = getHours l
     \<and> d_minutes d = getMinutes l \<and> d_seconds d = getSeconds l \<and> d_milliseconds d = getMilliseconds l \<and> d_day d = getDay l
     \<and> local_time br (d_dateProxy d) = l \<and> (plain_year l \<longrightarrow> d_timeProxy d = l)"

lemma wall_clock_set: "wall_clock br (setFromDateObjProxy br dt d) (local_time br dt)"
  by (simp add: wall_clock_def setFromDateObjProxy_def Let_def UTC_fields)

lemma set_proxy_keeps [simp]:
  "d_timezone (setFromDateObjProxy br dt d) = d_timezone d" "\<not> d_useCache (setFromDateObjProxy br dt d)"
  by (simp_all add: setFromDateObjProxy_def Let_def)

lemma tz_date_made:
  assumes tz: "TZ_REGEXP tz" and i: "getTzInfo n files t tz False s = Some (Inr i, s1)"
    and same: "utc_offset br (t + (utc_offset br t - tzOffset i)) = utc_offset br t"
  shows "\<exists>d. new_Date n files br now dp [Num t, Text tz] s = Some (Inr (Some d), s1) \<and> wall_clock br d (t - tzOffset i)
    \<and> d_timezone d = Some tz \<and> \<not> d_useCache d"
proof -
  have "tz \<noteq> []" using tz by (auto simp: TZ_REGEXP_def)
  then have "new_Date n files br now dp [Num t, Text tz] s
      = Some (Inr (Some (setFromDateObjProxy br (t + (utc_offset br t - tzOffset i)) (blank_date (Some tz)))), s1)"
    using tz i by (simp add: new_Date_def tz_argument_def some_date_def run_then_def setFromTimeProxy_def named_def)
  moreover have "wall_clock br (setFromDateObjProxy br (t + (utc_offset br t - tzOffset i)) (blank_date (Some tz))) (t - tzOffset i)"
    using wall_clock_set [of br "t + (utc_offset br t - tzOffset i)"] same by (simp add: local_time_def algebra_simps)
  ultimately show ?thesis by (simp add: blank_date_def)
qed

lemma getTime_made:
  assumes "wall_clock br d l" "plain_year l" "d_timezone d = Some tz" "\<not> d_useCache d" "TZ_REGEXP tz"
    "tz \<noteq> ''Etc/UTC''" "tz \<noteq> ''Etc/GMT''" "getTzInfo n files l tz False s = Some (Inr i, s1)"
  shows "\<exists>d'. getTime n files br d s = Some (Inr (l + tzOffset i, d'), s1)"
proof -
  have "tz \<noteq> []" using assms(5) by (auto simp: TZ_REGEXP_def)
  then show ?thesis
    using assms by (simp add: getTime_def getTimezoneInfo_def named_def run_then_def wall_clock_def Let_def)
qed

text \<open>C18: a date made of a moment in a time zone shows the moment less the offset that \<open>getTzInfo\<close> finds for the
  moment, and gives as its time what it shows plus the offset found for that, provided the browser has the same
  offset of its own at the moment and at the one it stores.  The date gives back the moment exactly when the two
  offsets of the zone agree.\<close>

theorem time_of_new_date:
  assumes "TZ_REGEXP tz" "tz \<notin> {''Etc/UTC'', ''Etc/GMT''}" "getTzInfo n files t tz False s = Some (Inr i, s1)"
    "getTzInfo n files (t - tzOffset i) tz False s1 = Some (Inr j, s2)" "plain_year (t - tzOffset i)"
    "utc_offset br (t + (utc_offset br t - tzOffset i)) = utc_offset br t"
  shows "\<exists>d d'. new_Date n files br now date_parse [Num t, Text tz] s = Some (Inr (Some d), s1)
    \<and> wall_clock br d (t - tzOffset i)
    \<and> getTime n files br d s1 = Some (Inr (t - tzOffset i + tzOffset j, d'), s2)
    \<and> (t - tzOffset i + tzOffset j = t \<longleftrightarrow> tzOffset i = tzOffset j)"
proof -
  obtain d where d: "new_Date n files br now date_parse [Num t, Text tz] s = Some (Inr (Some d), s1)"
    "wall_clock br d (t - tzOffset i)" "d_timezone d = Some tz" "\<not> d_useCache d"
    using tz_date_made [OF assms(1,3,6)] by blast
  obtain d' where "getTime n files br d s1 = Some (Inr (t - tzOffset i + tzOffset j, d'), s2)"
    using getTime_made [OF d(2) assms(5) d(3,4) assms(1) _ _ assms(4)] assms(2) by blast
  with d(1,2) show ?thesis by auto
qed

section \<open>New York in 2024\<close>

definition march_switch :: int where "march_switch = 1710036000000"
definition november_switch :: int where "november_switch = 1730599200000"

definition us_2024 :: "(int \<times> rule) list" where
  "us_2024 = [(2023, us_march), (2023, us_november), (2024, us_march), (2024, us_november)]"

lemma us_dates:
  "ex (2023, us_march) = 1678586400000" "ex (2023, us_november) = 1699149600000"
  "ex (2024, us_march) = march_switch" "ex (2024, us_november) = november_switch"
  "rule_date 2023 us_march \<noteq> None" "rule_date 2023 us_november \<noteq> None"
  "rule_date 2024 us_march \<noteq> None" "rule_date 2024 us_november \<noteq> None"
  by code_simp+

lemma us_wall: "switch off False p (y, us_march) = ex (y, us_march)" "switch off False p (y, us_november) = ex (y, us_november)"
  by (simp_all add: switch_def us_march_def us_november_def to_utc_def)

lemma us_applies: "findApplicableRules y [us_march, us_november] = (if 2007 \<le> y then [(y, us_march), (y, us_november)] else [])"
  by (simp add: findApplicableRules_def rule_applies_def us_march_def us_november_def on_number_def is_digit_def)

lemma year_2024:
  assumes "1704067200000 \<le> t" "t < 1735689600000"
  shows "getFullYear t = 2024"
proof -
  have "DayFromYear 2024 = 19723" "DayFromYear (2024 + 1) = 20089" by code_simp+
  moreover have "19723 \<le> t div msPerDay" "t div msPerDay < 20089" using assms by simp_all
  ultimately show ?thesis by (simp add: getFullYear_def YearFromDay_unique)
qed

lemma us_considered:
  assumes "1704067200000 \<le> t" "t < november_switch"
  shows "considered [us_march, us_november] t = us_2024"
proof -
  have "t < 1735689600000" using assms(2) by (simp add: november_switch_def)
  then have y: "getFullYear t = 2024" using year_2024 assms(1) by blast
  have "count_before t [(2024, us_march), (2024, us_november)] < 2"
    using assms by (simp add: count_before_def us_dates)
  then have "considered [us_march, us_november] t
      = sort_key ex [(2024, us_march), (2024, us_november), (2023, us_march), (2023, us_november)]"
    by (simp add: considered_def y us_applies)
  also have "\<dots> = us_2024"
    by (simp add: us_2024_def sort_key_def us_dates march_switch_def november_switch_def)
  finally show ?thesis .
qed

lemma us_rule:
  assumes "1704067200000 \<le> t" "t < november_switch" "t \<noteq> march_switch" "cache_ok c"
  shows "map_option fst (getRule [(''US'', [us_march, us_november])] t ny_line False c)
    = Some (Some (if march_switch < t then us_march else us_november))"
proof -
  have rs: "ruleset_of [(''US'', [us_march, us_november])] ny_line = [us_march, us_november]"
    by (simp add: ruleset_of_def ny_line_def)
  note L = us_considered [OF assms(1,2)]
  have i: "{1..<length us_2024} = {1, 2, 3}" by (auto simp: us_2024_def)
  have "well_spaced (z_off ny_line) False 0 t us_2024"
    unfolding well_spaced_def i using assms
    by (simp add: us_2024_def us_dates us_wall march_switch_def november_switch_def numeral_2_eq_2 numeral_3_eq_3 del: not_None_eq)
  moreover have "rule_in_force (z_off ny_line) False t us_2024 = Some (if march_switch < t then us_march else us_november)"
    using assms by (simp add: rule_in_force_def us_2024_def has_begun_def us_dates us_wall march_switch_def november_switch_def
      upt_rec Let_def)
  ultimately show ?thesis using getRule_around [of ny_line False 0 t "[(''US'', [us_march, us_november])]" c] assms(4)
    by (simp add: rs L)
qed

definition ny_state :: "tz \<Rightarrow> bool" where
  "ny_state s \<longleftrightarrow> tz_scheme s = MANUAL_LOAD \<and> tz_zones s = [(''America/New_York'', Lines [ny_line])]
     \<and> tz_rules s = [(''US'', [us_march, us_november])] \<and> cache_ok (tz_exact s)"

lemma ny_tables_state: "ny_state ny_tables"
  by (simp add: ny_state_def ny_tables_def loadZoneDataFromObject_def new_tz_def)

definition ny_info :: "bool \<Rightarrow> tz_info" where
  "ny_info summer = (if summer then \<lparr>tzOffset = 14400000, tzAbbr = Some ''EDT''\<rparr> else \<lparr>tzOffset = 18000000, tzAbbr = Some ''EST''\<rparr>)"

lemma ny_info_of: "info_of ny_line (Some us_march) = Inr (ny_info True)" "info_of ny_line (Some us_november) = Inr (ny_info False)"
  by (simp_all add: info_of_def getAbbreviation_def ny_line_def us_march_def us_november_def ny_info_def getAdjustedOffset_def
      occurs_def replace_first_def undef_text_def)

lemma ny_found:
  assumes "ny_state s" "0 < n"
  shows "find_zone n files t ''America/New_York'' s = Some (Inr (Some ny_line), s)"
proof -
  obtain k where n: "n = Suc k" using assms(2) by (cases n) auto
  have "ended t ny_line = False" by (simp add: ended_def ny_line_def)
  then show ?thesis
    using assms(1) by (simp add: find_zone_def load_region_def ny_state_def MANUAL_LOAD_def LAZY_LOAD_def run_then_def n zone_line_at_def)
qed

lemma ny_moment:
  assumes "ny_state s" "0 < n" "1704067200000 \<le> t" "t < november_switch" "t \<noteq> march_switch"
  shows "\<exists>s'. ny_state s' \<and> getTzInfo n files t ''America/New_York'' False s = Some (Inr (ny_info (march_switch < t)), s')"
proof -
  have s: "tz_rules s = [(''US'', [us_march, us_november])]" "cache_ok (tz_exact s)" using assms(1) by (simp_all add: ny_state_def)
  obtain c where c: "getRule (tz_rules s) t ny_line False (tz_exact s) = Some (Some (if march_switch < t then us_march else us_november), c)"
    using us_rule [OF assms(3-5) s(2)] s(1) by auto
  then have "cache_ok c" using transparentD(2) [OF transparent_getRule s(2)] by blast
  then have "ny_state (s\<lparr>tz_exact := c\<rparr>)" using assms(1) by (simp add: ny_state_def)
  moreover have "getTzInfo n files t ''America/New_York'' False s = Some (Inr (ny_info (march_switch < t)), s\<lparr>tz_exact := c\<rparr>)"
    by (simp add: getTzInfo_find ny_found [OF assms(1,2)] c ny_info_of)
  ultimately show ?thesis by blast
qed

text \<open>C31: in the four hours after two o'clock universal time on the day when daylight saving time begins, a date in
  the time zone of New York shows a clock that is already set forward, though it is one to five hours before
  that, and its time is not the moment it was made of but one hour later; the browser's own clock is taken not to
  change between the moment and the one that the date stores.\<close>

theorem clock_forward_too_early:
  assumes "march_switch < t" "t < march_switch + 14400000" "0 < n"
    "utc_offset br (t + (utc_offset br t - 14400000)) = utc_offset br t"
  shows "\<exists>d d' s1 s2. new_Date n files br now date_parse [Num t, Text ''America/New_York''] ny_tables = Some (Inr (Some d), s1)
    \<and> wall_clock br d (t - 14400000) \<and> getTime n files br d s1 = Some (Inr (t + 3600000, d'), s2)"
proof -
  obtain s1 where s1: "ny_state s1" "getTzInfo n files t ''America/New_York'' False ny_tables = Some (Inr (ny_info True), s1)"
    using ny_moment [OF ny_tables_state assms(3), of t] assms(1,2) by (auto simp: march_switch_def november_switch_def)
  have l: "\<not> march_switch < t - 14400000" "t - 14400000 \<noteq> march_switch" using assms by auto
  obtain s2 where s2: "getTzInfo n files (t - 14400000) ''America/New_York'' False s1 = Some (Inr (ny_info False), s2)"
    using ny_moment [OF s1(1) assms(3), of "t - 14400000" files] l assms by (auto simp: march_switch_def november_switch_def)
  have tz: "TZ_REGEXP ''America/New_York''" by code_simp
  obtain d where d: "new_Date n files br now date_parse [Num t, Text ''America/New_York''] ny_tables = Some (Inr (Some d), s1)"
    "wall_clock br d (t - 14400000)" "d_timezone d = Some ''America/New_York''" "\<not> d_useCache d"
    using tz_date_made [OF tz s1(2), of br now date_parse] assms(4) by (auto simp: ny_info_def)
  have "getFullYear (t - 14400000) = 2024" using year_2024 assms by (simp add: march_switch_def)
  then have "plain_year (t - 14400000)" by (simp add: plain_year_def)
  then obtain d' where "getTime n files br d s1 = Some (Inr (t - 14400000 + 18000000, d'), s2)"
    using getTime_made [OF d(2) _ d(3,4) tz _ _ s2] by (auto simp: ny_info_def)
  with d(1,2) show ?thesis by (auto simp: algebra_simps)
qed

theorem clock_forward_too_early_witness:
  "\<exists>d d' s1 s2. new_Date 1 (\<lambda>_. None) (steady 0) 0 (\<lambda>_. None) [Num 1710040000000, Text ''America/New_York''] ny_tables = Some (Inr (Some d), s1)
    \<and> wall_clock (steady 0) d 1710025600000 \<and> getTime 1 (\<lambda>_. None) (steady 0) d s1 = Some (Inr (1710043600000, d'), s2)"
  using clock_forward_too_early [of 1710040000000 1 "steady 0" "\<lambda>_. None" 0 "\<lambda>_. None"] by (simp add: march_switch_def)

theorem time_of_new_date_witness:
  "\<exists>d d' s1 s2. new_Date 1 (\<lambda>_. None) (steady 0) 0 (\<lambda>_. None) [Num 1720000000000, Text ''America/New_York''] ny_tables = Some (Inr (Some d), s1)
    \<and> wall_clock (steady 0) d 1719985600000 \<and> getTime 1 (\<lambda>_. None) (steady 0) d s1 = Some (Inr (1720000000000, d'), s2)"
proof -
  have tz: "TZ_REGEXP ''America/New_York''" "''America/New_York'' \<notin> {''Etc/UTC'', ''Etc/GMT''}" by code_simp+
  obtain s1 where s1: "ny_state s1"
    "getTzInfo 1 (\<lambda>_. None) 1720000000000 ''America/New_York'' False ny_tables = Some (Inr (ny_info True), s1)"
    using ny_moment [OF ny_tables_state, of 1 1720000000000 "\<lambda>_. None"] by (auto simp: march_switch_def november_switch_def)
  obtain s2 where s2: "getTzInfo 1 (\<lambda>_. None) 1719985600000 ''America/New_York'' False s1 = Some (Inr (ny_info True), s2)"
    using ny_moment [OF s1(1), of 1 1719985600000 "\<lambda>_. None"] by (auto simp: march_switch_def november_switch_def)
  have "getFullYear 1719985600000 = 2024" using year_2024 by simp
  then show ?thesis using time_of_new_date [OF tz s1(2), where j = "ny_info True" and br = "steady 0" and now = 0 and date_parse = "\<lambda>_. None"] s2
    by (auto simp: ny_info_def plain_year_def)
qed

section \<open>The clock of the server\<close>

lemma replace_runs_skip:
  "\<forall>c \<in> set v. \<not> p c \<Longrightarrow> replace_runs p f (v @ s) st = (v @ fst (replace_runs p f s st), snd (replace_runs p f s st))"
  by (induction v) (simp_all add: split_def Let_def)

lemma replace_runs_none: "\<forall>c \<in> set v. \<not> p c \<Longrightarrow> replace_runs p f v st = (v, st)"
  using replace_runs_skip [of v p f "[]" st] by simp

lemma replace_letter_skip: "c \<notin> set v \<Longrightarrow> replace_letter c f (v @ s) = v @ replace_letter c f s"
  unfolding replace_letter_def by (subst replace_runs_skip) auto

lemma replace_letter_simps:
  "replace_letter c f [] = []"
  "x \<noteq> c \<Longrightarrow> replace_letter c f (x # s) = x # replace_letter c f s"
  "replace_letter c f (c # s) = f (length (takeWhile (\<lambda>x. x = c) (c # s))) @ replace_letter c f (dropWhile (\<lambda>x. x = c) s)"
  by (simp_all add: replace_letter_def split_def Let_def)

lemma set_fixWidth: "\<not> is_digit c \<Longrightarrow> c \<noteq> CHR ''-'' \<Longrightarrow> c \<notin> set (fixWidth n k)"
  using nat_str_no_sep [of c] by (auto simp: fixWidth_def int_str_def Let_def is_digit_def)

lemma letters_not_in_fixWidth:
  "c \<in> set ''aydmsSMkHEZz'' \<Longrightarrow> c \<notin> set (fixWidth n k)"
  by (rule set_fixWidth) (auto simp: is_digit_def)

text \<open>The text of a moment of the wall clock.\<close>

definition clock_text :: "int \<Rightarrow> string" where
  "clock_text l = fixWidth (getFullYear l) 4 @ ''-'' @ fixWidth (getMonth l + 1) 2 @ ''-'' @ fixWidth (getDate l) 2 @ '' ''
     @ fixWidth (getHours l) 2 @ '':'' @ fixWidth (getMinutes l) 2 @ '':'' @ fixWidth (getSeconds l) 2"

lemma fixWidth_skips:
  "c \<in> set ''aydmsSMkHEZz'' \<Longrightarrow> replace_letter c f (fixWidth n k @ s) = fixWidth n k @ replace_letter c f s"
  "c \<in> set ''aydmsSMkHEZz'' \<Longrightarrow> replace_letter c f (fixWidth n k) = fixWidth n k"
  using replace_letter_skip [OF letters_not_in_fixWidth, of c f n k] replace_letter_skip [OF letters_not_in_fixWidth, of c f n k "[]"]
  by (simp_all add: replace_letter_simps)

lemma default_text:
  assumes "wall_clock br d l"
  shows "format_fields ''yyyy-MM-dd HH:mm:ss'' i d = clock_text l"
proof -
  note step = replace_letter_simps fixWidth_skips
  let ?y = "fixWidth (d_year d) 4" and ?d = "fixWidth (d_date d) 2" and ?m = "fixWidth (d_minutes d) 2"
    and ?s = "fixWidth (d_seconds d) 2" and ?M = "fixWidth (d_month d + 1) 2" and ?H = "fixWidth (d_hours d) 2"
  have r7: "replace_letter (CHR ''M'') (month_token (d_month d)) (replace_letter (CHR ''S'') (fixWidth (d_milliseconds d))
      (replace_letter (CHR ''s'') (fixWidth (d_seconds d)) (replace_letter (CHR ''m'') (fixWidth (d_minutes d))
      (replace_letter (CHR ''d'') (fixWidth (d_date d)) (replace_letter (CHR ''y'') (fixWidth (d_year d))
      (replace_letter (CHR ''a'') (\<lambda>_. ''k'') ''yyyy-MM-dd HH:mm:ss''))))))
    = ?y @ ''-'' @ ?M @ ''-'' @ ?d @ '' HH:'' @ ?m @ '':'' @ ?s"
    by (simp add: step month_token_def numeral_eq_Suc)
  have free: "\<forall>c \<in> set (fixWidth n k). c \<noteq> x" if "x \<in> set ''aydmsSMkHEZz''" for x n k
    using letters_not_in_fixWidth [OF that] by blast
  have r8: "replace_runs (\<lambda>c. c = CHR ''k'') half_day (?y @ ''-'' @ ?M @ ''-'' @ ?d @ '' HH:'' @ ?m @ '':'' @ ?s) (d_hours d)
    = (?y @ ''-'' @ ?M @ ''-'' @ ?d @ '' HH:'' @ ?m @ '':'' @ ?s, d_hours d)"
    by (rule replace_runs_none) (use free [of "CHR ''k''"] in auto)
  have r9: "replace_letter (CHR ''H'') (fixWidth (d_hours d)) (?y @ ''-'' @ ?M @ ''-'' @ ?d @ '' HH:'' @ ?m @ '':'' @ ?s)
    = ?y @ ''-'' @ ?M @ ''-'' @ ?d @ '' '' @ ?H @ '':'' @ ?m @ '':'' @ ?s" by (simp add: step numeral_eq_Suc)
  let ?r = "?y @ ''-'' @ ?M @ ''-'' @ ?d @ '' '' @ ?H @ '':'' @ ?m @ '':'' @ ?s"
  have r10: "replace_letter (CHR ''E'') g ?r = ?r" for g by (simp add: step)
  have rz: "fst (replace_runs (\<lambda>c. c = CHR ''Z'' \<or> c = CHR ''z'') g ?r ()) = ?r" for g
    by (subst replace_runs_none) (use letters_not_in_fixWidth [of "CHR ''Z''"] letters_not_in_fixWidth [of "CHR ''z''"] in auto)
  have "format_fields ''yyyy-MM-dd HH:mm:ss'' i d = ?r"
    unfolding format_fields_def Let_def r7 r8 prod.case r9 r10 rz ..
  then show ?thesis using assms by (simp add: clock_text_def wall_clock_def)
qed

text \<open>The clock of \<open>ServerHour24HourFormatJs.ftl\<close> sets the seconds of its date on by one, every second, and shows the
  text of the date.\<close>

definition tick :: "browser_clock \<Rightarrow> tz_date \<Rightarrow> tz_date result" where
  "tick br d = setAttribute br Seconds (Some (d_seconds d + 1)) d"

fun ticks :: "nat \<Rightarrow> browser_clock \<Rightarrow> tz_date \<Rightarrow> tz_date result" where
  "ticks 0 br d = Inr d"
| "ticks (Suc k) br d = and_then (tick br d) (ticks k br)"

text \<open>The clock of the browser shows a local time, instead of skipping it.\<close>

definition has_local :: "browser_clock \<Rightarrow> int \<Rightarrow> bool" where
  "has_local br l \<longleftrightarrow> local_time br (from_local br l) = l"

lemma set_seconds: "set_unit Seconds (getSeconds l + 1) l = l + 1000"
proof -
  have "l div 60000 * 60000 + l mod 60000 = l" by simp
  moreover have "l mod 60000 div 1000 * 1000 + l mod 60000 mod 1000 = l mod 60000" by simp
  moreover have "l mod 60000 mod 1000 = l mod 1000" by (simp add: mod_mod_cancel)
  ultimately show ?thesis by (simp add: set_unit_def getSeconds_def)
qed

lemma tick_wall:
  assumes "wall_clock br d l"
  shows "\<exists>d'. tick br d = Inr d' \<and> wall_clock br d' (local_time br (from_local br (l + 1000)))"
proof -
  have "set_unit Seconds (d_seconds d + 1) (local_time br (d_dateProxy d)) = l + 1000"
    using assms set_seconds [of l] by (simp add: wall_clock_def)
  then show ?thesis using wall_clock_set [of br "from_local br (l + 1000)" d] by (simp add: tick_def setAttribute_def)
qed

lemma ticks_wall:
  "wall_clock br d l \<Longrightarrow> \<forall>j \<in> {1..k}. has_local br (l + 1000 * int j) \<Longrightarrow>
    \<exists>d'. ticks k br d = Inr d' \<and> wall_clock br d' (l + 1000 * int k)"
proof (induction k arbitrary: d l)
  case (Suc k)
  have "has_local br (l + 1000)" using Suc.prems(2) by force
  then obtain d1 where d1: "tick br d = Inr d1" "wall_clock br d1 (l + 1000)"
    using tick_wall [OF Suc.prems(1)] by (auto simp: has_local_def)
  have "has_local br (l + 1000 + 1000 * int j)" if "j \<in> {1..k}" for j
    using Suc.prems(2) that by (auto dest!: bspec [of _ _ "Suc j"] simp: algebra_simps)
  then show ?case using Suc.IH [OF d1(2)] d1(1) by (auto simp: algebra_simps)
qed simp

lemma toString_default:
  assumes "wall_clock br d l" "getTimezoneInfo n files br d s = Some (Inr (i, d1), s1)"
  shows "toString n files br now date_parse [] None d s = Some (Inr (Some (clock_text l), d1), s1)"
proof -
  have "wall_clock br d1 l"
    using assms by (auto simp: getTimezoneInfo_def run_then_def Let_def wall_clock_def
        split: if_splits option.splits sum.splits prod.splits)
  then show ?thesis using assms(2) default_text by (simp add: toString_def named_def run_then_def)
qed

text \<open>C19: when the clock of the server has ticked any number of times, the text of its date is that many seconds
  later than the wall clock it was started with: seconds, minutes, hours and days carry over.  This needs that the
  time zone of the date is in the tables, and that the browser, in whose own local time the code counts, skips
  none of the local times on the way.\<close>

theorem server_clock:
  assumes "wall_clock br d l" "\<forall>j \<in> {1..k}. has_local br (l + 1000 * int j)"
  shows "\<exists>d'. ticks k br d = Inr d'
    \<and> (\<forall>s i d1 s1. getTimezoneInfo n files br d' s = Some (Inr (i, d1), s1) \<longrightarrow>
         toString n files br now date_parse [] None d' s = Some (Inr (Some (clock_text (l + 1000 * int k)), d1), s1))"
  using ticks_wall [OF assms] toString_default by blast

text \<open>A browser in Berlin, whose clock goes from two to three in the night of 31 March 2024.\<close>

definition berlin :: browser_clock where
  "berlin = \<lparr>utc_offset = (\<lambda>t. if t < 1711846800000 then - 3600000 else - 7200000),
     from_local = (\<lambda>l. if l < 1711854000000 then l - 3600000 else l - 7200000)\<rparr>"

theorem server_clock_witness:
  "\<exists>d'. ticks 90 berlin (setFromDateObjProxy berlin 1709251170000 (blank_date None)) = Inr d'
    \<and> (\<forall>s i d1 s1. getTimezoneInfo 1 (\<lambda>_. None) berlin d' s = Some (Inr (i, d1), s1) \<longrightarrow>
         toString 1 (\<lambda>_. None) berlin 0 (\<lambda>_. None) [] None d' s = Some (Inr (Some ''2024-03-01 01:01:00'', d1), s1))"
proof -
  have "clock_text 1709254860000 = ''2024-03-01 01:01:00''" by code_simp
  moreover have "wall_clock berlin (setFromDateObjProxy berlin 1709251170000 (blank_date None)) 1709254770000"
    using wall_clock_set [of berlin 1709251170000 "blank_date None"] by (simp add: berlin_def local_time_def)
  moreover have "\<forall>j \<in> {1..90}. has_local berlin (1709254770000 + 1000 * int j)"
    by (simp add: has_local_def berlin_def local_time_def)
  ultimately show ?thesis
    using server_clock [of berlin "setFromDateObjProxy berlin 1709251170000 (blank_date None)" 1709254770000 90 1 "\<lambda>_. None" 0 "\<lambda>_. None"]
    by simp
qed

text \<open>When the browser skips an hour, so does the clock of the server, in whatever time zone it is.\<close>

lemma clock_skips_with_browser:
  assumes "wall_clock berlin d 1711850399000"
  shows "\<exists>d'. tick berlin d = Inr d' \<and> wall_clock berlin d' 1711854000000"
  using tick_wall [OF assms] by (simp add: berlin_def local_time_def)

section \<open>Moving a date to another time zone\<close>

lemma whole_minutes: "60000 dvd off \<Longrightarrow> add_to_minutes off t = t + off"
proof -
  assume "60000 dvd off"
  then obtain m where off: "off = m * 60000" by (auto simp: mult.commute)
  have e: "getMinutes t * 60000 + off = (getMinutes t + m) * 60000" by (simp add: off distrib_right)
  have c: "cut_off (k * 60000) 60000 = k" for k
    using nonzero_mult_div_cancel_right [of "60000 :: int" "- k"] by (simp add: cut_off_def)
  have "t div 3600000 * 3600000 + t mod 3600000 = t" by simp
  moreover have "t mod 3600000 div 60000 * 60000 + t mod 3600000 mod 60000 = t mod 3600000" by simp
  moreover have "t mod 3600000 mod 60000 = t mod 60000" by (simp add: mod_mod_cancel)
  ultimately show ?thesis unfolding add_to_minutes_def e c by (simp add: setMinutes_def getMinutes_def off distrib_right)
qed

lemma set_minutes_cut: "60000 dvd off \<Longrightarrow> set_unit Minutes (cut_off (getMinutes t * 60000 + off) 60000) t = t + off"
  using whole_minutes [of off t] by (simp add: set_unit_def add_to_minutes_def)

lemma info_cached: "d_useCache d \<Longrightarrow> getTimezoneInfo n files br d s = Some (Inr (d_tzInfo d, d), s)"
  by (simp add: getTimezoneInfo_def Let_def)

text \<open>With offsets in whole minutes, setting the time zone is setting the time again in the new zone.\<close>

lemma setTimezone_sets_time:
  assumes "getTime n files br d s = Some (Inr (t, d1), s1)"
    and "getTimezoneInfo n files br (d1\<lparr>d_timezone := tz, d_useCache := False\<rparr>) s1 = Some (Inr (j, d2), s2)"
    and "60000 dvd tzOffset j" "60000 dvd t - d_timeProxy d"
  shows "setTimezone n files br tz d s = setFromTimeProxy n files br t tz d2 s2"
proof -
  obtain i where i: "getTimezoneInfo n files br d s = Some (Inr (i, d1), s1)" "t = d_timeProxy d1 + tzOffset i"
    using assms(1) by (auto simp: getTime_def run_then_def split: option.splits sum.splits prod.splits)
  have d1: "d_timeProxy d1 = d_timeProxy d"
    using i(1) by (auto simp: getTimezoneInfo_def run_then_def Let_def split: if_splits option.splits sum.splits prod.splits)
  have d2: "d_useCache d2" "d_tzInfo d2 = j" "d_timeProxy d2 = d_timeProxy d" "d_timezone d2 = tz"
    using assms(2) d1 by (auto simp: getTimezoneInfo_def run_then_def Let_def split: if_splits option.splits sum.splits prod.splits)
  note c = info_cached [OF d2(1)]
  let ?l = "d_timeProxy d"
  have off: "60000 dvd tzOffset i - tzOffset j" "60000 dvd - tzOffset j"
    using assms(3,4) i(2) d1 by (auto intro: dvd_diff)
  have n: "getMinutes (?l + tzOffset j) * 60000 - tzOffset j + tzOffset i
      = getMinutes (?l + tzOffset j) * 60000 + (tzOffset i - tzOffset j)" by simp
  have "set_unit Minutes (cut_off (getMinutes (?l + tzOffset j) * 60000 - tzOffset j + tzOffset i) 60000) (?l + tzOffset j)
      = ?l + tzOffset i"
    unfolding n using set_minutes_cut [OF off(1), of "?l + tzOffset j"] by simp
  then show ?thesis
    using whole_minutes [OF assms(3), of ?l] whole_minutes [OF off(2), of "?l + tzOffset i"] i assms(2) d1 d2
    by (simp add: setTimezone_def getUTCDateProxy_def setUTCAttribute_def run_then_def c Let_def)
qed

lemma set_time_in_zone:
  assumes "named tz" "getTzInfo n files t (the tz) False s = Some (Inr i, s1)"
    "utc_offset br (t + (utc_offset br t - tzOffset i)) = utc_offset br t"
  shows "\<exists>d'. setFromTimeProxy n files br t tz d s = Some (Inr d', s1) \<and> wall_clock br d' (t - tzOffset i)
    \<and> d_timezone d' = d_timezone d \<and> \<not> d_useCache d'"
proof -
  have "setFromTimeProxy n files br t tz d s
      = Some (Inr (setFromDateObjProxy br (t + (utc_offset br t - tzOffset i)) d), s1)"
    using assms(1,2) by (simp add: setFromTimeProxy_def run_then_def)
  moreover have "wall_clock br (setFromDateObjProxy br (t + (utc_offset br t - tzOffset i)) d) (t - tzOffset i)"
    using wall_clock_set [of br "t + (utc_offset br t - tzOffset i)" d] assms(3) by (simp add: local_time_def algebra_simps)
  ultimately show ?thesis by simp
qed

text \<open>C30: when the time zone of a date is set, the date shows the time it had before less the offset that the new zone
  has for that time, and its time afterwards is what it shows plus the offset of the zone for that.  So the time is
  kept exactly when these two offsets agree.  The offsets are whole minutes, and the browser's own offset does not
  change between the time and the moment that the date stores.\<close>

theorem setTimezone_keeps_time:
  assumes "getTime n files br d s = Some (Inr (t, d1), s1)"
    and "getTimezoneInfo n files br (d1\<lparr>d_timezone := Some tz, d_useCache := False\<rparr>) s1 = Some (Inr (h, d2), s2)"
    and "60000 dvd tzOffset h" "60000 dvd t - d_timeProxy d"
    and "TZ_REGEXP tz" "tz \<notin> {''Etc/UTC'', ''Etc/GMT''}" "getTzInfo n files t tz False s2 = Some (Inr i, s3)"
    and "getTzInfo n files (t - tzOffset i) tz False s3 = Some (Inr j, s4)" "plain_year (t - tzOffset i)"
    and "utc_offset br (t + (utc_offset br t - tzOffset i)) = utc_offset br t"
  shows "\<exists>e e'. setTimezone n files br (Some tz) d s = Some (Inr e, s3) \<and> wall_clock br e (t - tzOffset i)
    \<and> getTime n files br e s3 = Some (Inr (t - tzOffset i + tzOffset j, e'), s4)
    \<and> (t - tzOffset i + tzOffset j = t \<longleftrightarrow> tzOffset i = tzOffset j)"
proof -
  have "named (Some tz)" using assms(5) by (auto simp: named_def TZ_REGEXP_def)
  moreover have "d_timezone d2 = Some tz"
    using assms(2) by (auto simp: getTimezoneInfo_def run_then_def Let_def split: if_splits option.splits sum.splits prod.splits)
  ultimately obtain e where e: "setFromTimeProxy n files br t (Some tz) d2 s2 = Some (Inr e, s3)"
    "wall_clock br e (t - tzOffset i)" "d_timezone e = Some tz" "\<not> d_useCache e"
    using set_time_in_zone [of "Some tz" n files t s2 i s3 br d2] assms(7,10) by auto
  then obtain e' where "getTime n files br e s3 = Some (Inr (t - tzOffset i + tzOffset j, e'), s4)"
    using getTime_made [OF e(2) assms(9) e(3,4) assms(5) _ _ assms(8)] assms(6) by blast
  then show ?thesis using e(1,2) setTimezone_sets_time [OF assms(1-4)] by auto
qed

theorem setTimezone_keeps_time_witness:
  "\<exists>e e' s3 s4. setTimezone 1 (\<lambda>_. None) (steady 0) (Some ''America/New_York'')
      (setFromDateObjProxy (steady 0) 1720000000000 (blank_date None)) ny_tables = Some (Inr e, s3)
    \<and> wall_clock (steady 0) e 1719985600000 \<and> getTime 1 (\<lambda>_. None) (steady 0) e s3 = Some (Inr (1720000000000, e'), s4)"
proof -
  let ?d = "setFromDateObjProxy (steady 0) 1720000000000 (blank_date None)" and ?files = "\<lambda>_. None"
  let ?d1 = "?d\<lparr>d_tzInfo := \<lparr>tzOffset = 0, tzAbbr = None\<rparr>, d_useCache := True\<rparr>"
  have year: "getFullYear 1720000000000 = 2024" "getFullYear 1719985600000 = 2024" using year_2024 by simp_all
  then have plain: "plain_year 1720000000000" "plain_year 1719985600000" by (simp_all add: plain_year_def)
  have l: "d_timeProxy ?d = 1720000000000"
    using wall_clock_set [of "steady 0" 1720000000000 "blank_date None"] plain(1) by (simp add: wall_clock_def)
  have t: "getTime 1 ?files (steady 0) ?d ny_tables = Some (Inr (1720000000000, ?d1), ny_tables)"
    by (simp add: getTime_def getTimezoneInfo_def run_then_def named_def l Let_def) (simp add: blank_date_def)
  note ny = ny_moment [of _ 1 _ ?files]
  have at: "\<exists>s'. ny_state s' \<and> getTzInfo 1 ?files u ''America/New_York'' False s = Some (Inr (ny_info True), s')"
    if "ny_state s" "u \<in> {1719985600000, 1720000000000}" for s u
    using ny [of s u] that by (auto simp: march_switch_def november_switch_def)
  obtain s2 where s2: "ny_state s2" "getTzInfo 1 ?files 1720000000000 ''America/New_York'' False ny_tables = Some (Inr (ny_info True), s2)"
    using at [OF ny_tables_state] by blast
  obtain s3 where s3: "ny_state s3" "getTzInfo 1 ?files 1720000000000 ''America/New_York'' False s2 = Some (Inr (ny_info True), s3)"
    using at [OF s2(1)] by blast
  obtain s4 where s4: "getTzInfo 1 ?files 1719985600000 ''America/New_York'' False s3 = Some (Inr (ny_info True), s4)"
    using at [OF s3(1)] by blast
  have info: "getTimezoneInfo 1 ?files (steady 0) (?d1\<lparr>d_timezone := Some ''America/New_York'', d_useCache := False\<rparr>) ny_tables
      = Some (Inr (ny_info True, ?d1\<lparr>d_timezone := Some ''America/New_York'', d_tzInfo := ny_info True, d_useCache := True\<rparr>), s2)"
    using s2(2) l by (simp add: getTimezoneInfo_def named_def run_then_def Let_def)
  have tz: "TZ_REGEXP ''America/New_York''" "''America/New_York'' \<notin> {''Etc/UTC'', ''Etc/GMT''}" by code_simp+
  have off: "tzOffset (ny_info True) = 14400000" by (simp add: ny_info_def)
  have late: "1720000000000 - tzOffset (ny_info True) = 1719985600000" by (simp add: off)
  show ?thesis
    using setTimezone_keeps_time [OF t info _ _ tz s3(2), unfolded late, OF _ _ s4 plain(2)] l by (auto simp: off)
qed

section \<open>Surprises\<close>

text \<open>Without a day the constructor takes day zero: the last of the month before.\<close>

lemma missing_day_is_zero: "fields_date (steady 0) [Num 2024, Num 0] = Some (Date_UTC_ms 2023 11 31 0 0 0 0)"
  by code_simp

text \<open>\<open>setHours\<close> with zero minutes leaves the minutes as they are.\<close>

lemma setHours_skips_zero: "setHours_tz br (Some h) (Some (Some 0)) None None d = setAttribute br Hours (Some h) d"
  by (simp add: setHours_tz_def set_truthy_def setAttribute_def)

text \<open>A number with more digits than the width keeps them.\<close>

lemma fixWidth_keeps_digits: "fixWidth 1998 2 = ''1998''"
  by code_simp

text \<open>A format of two alternatives cannot be chosen from without a rule.\<close>

lemma alternatives_need_rule:
  "occurs ''/'' (z_format z) \<Longrightarrow> \<not> occurs ''%s'' (z_format z) \<Longrightarrow> getAbbreviation z None = Inl TypeError"
  by (simp add: getAbbreviation_def Let_def)

text \<open>A zone line whose end is given by its year alone ends with that year, not before it.\<close>

lemma until_year_alone:
  "word_year = int_str y \<Longrightarrow> and_then (processZone [a, b, c, word_year]) (\<lambda>p. Inr (until_of p)) = Inr (Some (Date_UTC y 11 31 0 0 0))"
proof -
  have t: "parseTimeString ''00:00:00'' = Inr \<lparr>hms_h = 0, hms_m = 0, hms_s = 0, hms_type = None\<rparr>" by code_simp
  have "int_str y \<noteq> []" by (simp add: int_str_def)
  then show "word_year = int_str y \<Longrightarrow> ?thesis"
    by (simp add: processZone_def line_field_def t parseInt_int_str until_of_def Let_def)
qed

end
