(* ===== verification/Timezone_Loading.thy ===== *)
theory Timezone_Loading
  imports Timezone_Date
begin

text \<open>
  What is loaded when: the callback of \<open>init\<close>, the first reading after \<open>initTimeZone\<close>, the line of a zone that
  is in force, and the reader of zone files against a printer of its tables.
\<close>

section \<open>What reading a file changes\<close>

definition tables_only :: "tz \<Rightarrow> tz \<Rightarrow> bool" where
  "tables_only s s' \<longleftrightarrow> (\<exists>zs rs. s' = s\<lparr>tz_zones := zs, tz_rules := rs\<rparr>)"

lemma tables_only_refl [simp]: "tables_only s s"
  unfolding tables_only_def by (intro exI [of _ "tz_zones s"] exI [of _ "tz_rules s"]) simp

lemma tables_only_trans: "tables_only s s1 \<Longrightarrow> tables_only s1 s2 \<Longrightarrow> tables_only s s2"
  unfolding tables_only_def by fastforce

lemma tables_only_set [simp]: "tables_only s (set_zone n e s)" "tables_only s (s\<lparr>tz_rules := r\<rparr>)"
  unfolding tables_only_def set_zone_def by (metis tz.surjective tz.update_convs(1,2))+

lemma tables_only_fields:
  assumes "tables_only s s'"
  shows "tz_loaded s' = tz_loaded s" "tz_scheme s' = tz_scheme s" "tz_path s' = tz_path s" "tz_exact s' = tz_exact s"
    "tz_requests s' = tz_requests s" "tz_groups s' = tz_groups s" "tz_calls s' = tz_calls s"
  using assms by (auto simp: tables_only_def)

lemma parse_zone_tables: "tables_only s (snd (parse_zone n arr s))"
proof -
  let ?s1 = "if truthy_entry (map_of (tz_zones s) n) then s else set_zone n (Lines []) s"
  have 1: "tables_only s ?s1" by simp
  have "tables_only ?s1 (snd (parse_zone n arr s))"
    by (simp add: parse_zone_def Let_def split: sum.split option.split zone_entry.split)
  with 1 show ?thesis by (rule tables_only_trans)
qed

lemma parse_rule_tables: "tables_only s (snd (parse_rule n arr s))"
  by (simp add: parse_rule_def Let_def split: sum.split)

lemma parse_link_tables: "tables_only s (snd (parse_link arr s))"
  by (simp add: parse_link_def Let_def split: list.split)

lemma parse_line_tables: "tables_only s (snd (parse_line l z s))"
  using parse_zone_tables parse_rule_tables parse_link_tables by (simp add: parse_line_def Let_def split_def)

lemma parse_lines_tables: "tables_only s (snd (parse_lines ls z s))"
proof (induction ls arbitrary: z s)
  case (Cons l ls)
  obtain z' r s' where p: "parse_line l z s = ((z', r), s')" by (metis surj_pair)
  then have "tables_only s s'" using parse_line_tables by (metis snd_conv)
  then show ?case using tables_only_trans [OF _ Cons.IH [where z = z' and s = s']] p by (cases r) auto
qed simp

lemma parseZones_tables: "tables_only s (snd (parseZones str s))"
  by (simp add: parseZones_def parse_lines_tables)

section \<open>The callback of a preload\<close>

text \<open>Answers in any order: the place of the request among those still open, and the text of the file.  Counted are
  those whose text can be read.\<close>

fun answers :: "(nat \<times> string) list \<Rightarrow> tz \<Rightarrow> tz" where
  "answers [] s = s"
| "answers ((i, str) # as) s = answers as (zone_file_answer i str s)"

definition without :: "nat \<Rightarrow> 'a list \<Rightarrow> 'a list" where
  "without i l = take i l @ drop (i + 1) l"

fun readable :: "(nat \<times> string) list \<Rightarrow> tz \<Rightarrow> nat" where
  "readable [] s = 0"
| "readable ((i, str) # as) s =
     (if fst (parseZones str (s\<lparr>tz_requests := without i (tz_requests s)\<rparr>)) = Inr () then 1 else 0)
     + readable as (zone_file_answer i str s)"

fun open_answers :: "(nat \<times> string) list \<Rightarrow> tz \<Rightarrow> bool" where
  "open_answers [] s \<longleftrightarrow> True"
| "open_answers ((i, str) # as) s \<longleftrightarrow> i < length (tz_requests s) \<and> open_answers as (zone_file_answer i str s)"

lemma length_without: "i < length l \<Longrightarrow> length (without i l) + 1 = length l"
  by (simp add: without_def)

lemma set_without: "set (without i l) \<subseteq> set l"
  using set_take_subset [of i l] set_drop_subset [of "i + 1" l] by (auto simp: without_def)

definition counting :: "nat \<Rightarrow> nat \<Rightarrow> tz \<Rightarrow> bool" where
  "counting due k s \<longleftrightarrow> tz_groups s = [(k, due)] \<and> tz_calls s = (if k = due then 1 else 0)
     \<and> (\<forall>r \<in> set (tz_requests s). snd r = Counted 0)"

lemma answer_counts:
  assumes "counting due k s" "i < length (tz_requests s)" "k + length (tz_requests s) \<le> due"
  shows "counting due
      (k + (if fst (parseZones str (s\<lparr>tz_requests := without i (tz_requests s)\<rparr>)) = Inr () then 1 else 0))
      (zone_file_answer i str s)
    \<and> length (tz_requests (zone_file_answer i str s)) + 1 = length (tz_requests s)"
proof -
  define s1 where "s1 = s\<lparr>tz_requests := without i (tz_requests s)\<rparr>"
  obtain r s2 where p: "parseZones str s1 = (r, s2)" by fastforce
  have f: "tz_requests s2 = without i (tz_requests s)" "tz_groups s2 = [(k, due)]" "tz_calls s2 = 0"
  proof -
    have "tables_only s1 s2" using parseZones_tables [of s1 str] by (simp add: p)
    note t = tables_only_fields [OF this]
    have "k \<noteq> due" using assms(2,3) by linarith
    then show "tz_requests s2 = without i (tz_requests s)" "tz_groups s2 = [(k, due)]" "tz_calls s2 = 0"
      using t assms(1) by (simp_all add: s1_def counting_def)
  qed
  obtain url where url: "tz_requests s ! i = (url, Counted 0)"
    using assms(1,2) by (auto simp: counting_def dest!: bspec [OF _ nth_mem] intro: prod.expand)
      (metis prod.collapse)
  have all: "\<forall>r \<in> set (without i (tz_requests s)). snd r = Counted 0"
    using assms(1) set_without [of i "tz_requests s"] by (auto simp: counting_def)
  have a: "zone_file_answer i str s = (case r of Inl _ \<Rightarrow> s2 | Inr _ \<Rightarrow> run_callback (Counted 0) s2)"
    using p unfolding zone_file_answer_def Let_def url without_def [symmetric] s1_def [symmetric] by simp
  have "k < due" using assms(2,3) by linarith
  then show ?thesis using f all length_without [OF assms(2)] p unfolding a s1_def [symmetric]
    by (cases r) (simp_all add: counting_def run_callback_def)
qed

lemma answers_count:
  "counting due k s \<Longrightarrow> open_answers as s \<Longrightarrow> k + length (tz_requests s) \<le> due \<Longrightarrow>
   counting due (k + readable as s) (answers as s)"
proof (induction as arbitrary: k s)
  case (Cons a as)
  obtain i str where a: "a = (i, str)" by fastforce
  have i: "i < length (tz_requests s)" "open_answers as (zone_file_answer i str s)" using Cons.prems(2) by (simp_all add: a)
  note c = answer_counts [OF Cons.prems(1) i(1) Cons.prems(3), of str]
  show ?case using Cons.IH [OF conjunct1 [OF c] i(2)] conjunct2 [OF c] Cons.prems(3) by (simp add: a add.assoc)
qed simp

lemma load_each_async:
  "distinct fs \<Longrightarrow> \<forall>f \<in> set fs. \<not> tz_loaded s f \<Longrightarrow> tz_path s = Some p \<Longrightarrow>
   \<exists>l. load_each files fs (Some cb) s
     = Some (Inr (), s\<lparr>tz_loaded := l, tz_requests := tz_requests s @ map (\<lambda>f. (p @ ''/'' @ f, cb)) fs\<rparr>)"
proof (induction fs arbitrary: s)
  case (Cons f fs)
  define s1 where "s1 = s\<lparr>tz_loaded := (tz_loaded s)(f := True), tz_requests := tz_requests s @ [(p @ ''/'' @ f, cb)]\<rparr>"
  have "loadZoneFile files f (Some cb) s = Some (Inr (), s1)"
    using Cons.prems by (simp add: loadZoneFile_def builtInLoadZoneFile_def s1_def undef_text_def)
  moreover obtain l where "load_each files fs (Some cb) s1
      = Some (Inr (), s1\<lparr>tz_loaded := l, tz_requests := tz_requests s1 @ map (\<lambda>f. (p @ ''/'' @ f, cb)) fs\<rparr>)"
  proof -
    have "\<forall>f' \<in> set fs. \<not> tz_loaded s1 f'" "tz_path s1 = Some p" using Cons.prems by (auto simp: s1_def)
    then show thesis using Cons.IH [of s1] Cons.prems(1) that by auto
  qed
  ultimately show ?case by (intro exI [of _ l]) (simp add: run_then_def s1_def)
next
  case Nil
  then show ?case by (intro exI [of _ "tz_loaded s"]) simp
qed

text \<open>C17: when all files are loaded in advance, asynchronously and with a callback, the callback runs exactly once,
  when the last of the ten files has arrived, in whatever order they do; as long as one is missing, or when one
  cannot be read, it never runs.\<close>

theorem preload_calls_back_once:
  assumes "tz_scheme s = PRELOAD_ALL" "tz_path s = Some p" "\<forall>f \<in> set zoneFiles. \<not> tz_loaded s f"
    "tz_requests s = []" "tz_groups s = []" "tz_calls s = 0"
  shows "\<exists>s1. init files True True s = Some (Inr (), s1)
    \<and> (\<forall>as. open_answers as s1 \<longrightarrow> tz_calls (answers as s1) = (if readable as s1 = 10 then 1 else 0))"
proof -
  have "distinct zoneFiles" by code_simp
  moreover define s0 where "s0 = s\<lparr>tz_groups := [(0, length zoneFiles)]\<rparr>"
  moreover have s0: "\<forall>f \<in> set zoneFiles. \<not> tz_loaded s0 f" "tz_path s0 = Some p" "tz_requests s0 = []"
    using assms by (simp_all add: s0_def)
  ultimately obtain l where l: "load_each files zoneFiles (Some (Counted 0)) s0
      = Some (Inr (), s0\<lparr>tz_loaded := l, tz_requests := map (\<lambda>f. (p @ ''/'' @ f, Counted 0)) zoneFiles\<rparr>)"
    using load_each_async [of zoneFiles s0 p files "Counted 0"] by auto
  define s1 where "s1 = s0\<lparr>tz_loaded := l, tz_requests := map (\<lambda>f. (p @ ''/'' @ f, Counted 0)) zoneFiles\<rparr>"
  have "length zoneFiles = 10" by (simp add: zoneFiles_def)
  then have "counting 10 0 s1" "length (tz_requests s1) \<le> 10"
    using assms(6) by (auto simp: s1_def s0_def counting_def)
  then have "tz_calls (answers as s1) = (if readable as s1 = 10 then 1 else 0)" if "open_answers as s1" for as
    using answers_count [of 10 0 s1 as] that by (simp add: counting_def)
  moreover have "init files True True s = Some (Inr (), s1)"
    using l assms(1,5) by (simp add: init_def s0_def [symmetric] s1_def Let_def del: load_each.simps)
  ultimately show ?thesis by blast
qed

theorem preload_calls_back_once_witness:
  "\<exists>s1. init (\<lambda>_. None) True True (new_tz\<lparr>tz_scheme := PRELOAD_ALL, tz_path := Some ''/tz''\<rparr>) = Some (Inr (), s1)
    \<and> tz_calls (answers (replicate 10 (0, [])) s1) = 1"
proof -
  let ?s = "new_tz\<lparr>tz_scheme := PRELOAD_ALL, tz_path := Some ''/tz''\<rparr>" and ?as = "replicate 10 (0, []) :: (nat \<times> string) list"
  have "open_answers ?as (snd (the (init (\<lambda>_. None) True True ?s)))"
    "readable ?as (snd (the (init (\<lambda>_. None) True True ?s))) = 10" by code_simp+
  then show ?thesis
    using preload_calls_back_once [of ?s "''/tz''" "\<lambda>_. None"] by (auto simp: new_tz_def)
qed

section \<open>The first reading\<close>

text \<open>C32: \<open>initTimeZone\<close> does not wait for the American zones, and they count as loaded from then on: making a date of a
  moment in a zone that begins with \<open>America\<close> throws right after it, whatever is in the file that is on its way,
  unless the zone is listed as an exception, whose region is loaded at once, or the file of links knows it.\<close>

theorem first_reading_fails:
  assumes "map_of regionExceptions tz = None" "hd (split tz ''/'') = ''America''" "TZ_REGEXP tz"
    "files ''/common/js/plugins/date/timezones/min/backward'' = Some links"
    "\<And>s. tz_zones s = [] \<Longrightarrow> tz_rules s = [] \<Longrightarrow>
       fst (parseZones links s) = Inr () \<and> map_of (tz_zones (snd (parseZones links s))) tz = None"
  shows "\<exists>s1 s2. initTimeZone files new_tz = Some (Inr (), s1) \<and> length (tz_requests s1) = 1
    \<and> new_Date (n + 2) files br now date_parse [Num t, Text tz] s1 = Some (Inl Thrown, s2) \<and> tz_requests s2 = tz_requests s1"
proof -
  let ?url = "''/common/js/plugins/date/timezones/min/northamerica''"
  define s1 where "s1 = new_tz\<lparr>tz_path := Some ''/common/js/plugins/date/timezones/min'',
    tz_loaded := (\<lambda>_. False)(''northamerica'' := True), tz_requests := [(?url, No_Callback)]\<rparr>"
  have 1: "initTimeZone files new_tz = Some (Inr (), s1)"
    by (simp add: initTimeZone_def init_def new_tz_def loadZoneFile_def builtInLoadZoneFile_def s1_def LAZY_LOAD_def
        PRELOAD_ALL_def undef_text_def)
  define s2 where "s2 = s1\<lparr>tz_loaded := (tz_loaded s1)(''backward'' := True)\<rparr>"
  have empty: "tz_zones s2 = []" "tz_rules s2 = []" by (simp_all add: s2_def s1_def new_tz_def)
  obtain s3 where s3: "parseZones links s2 = (Inr (), s3)" "map_of (tz_zones s3) tz = None"
    using assms(5) [OF empty] by (cases "parseZones links s2") auto
  have t: "tables_only s2 s3" using parseZones_tables [of s2 links] by (simp add: s3)
  have load: "loadZoneFile files ''backward'' None s1 = Some (Inr (), s3)"
  proof -
    have "tz_path s1 \<noteq> None" "tz_path s2 = Some ''/common/js/plugins/date/timezones/min''" "\<not> tz_loaded s1 ''backward''"
      by (simp_all add: s1_def s2_def)
    then show ?thesis using assms(4) s3(1)
      by (simp add: loadZoneFile_def builtInLoadZoneFile_def load_sync_def undef_text_def s2_def [symmetric] del: not_None_eq)
  qed
  have "map_of regionMap ''America'' = Some ''northamerica''" by code_simp
  then have region: "load_region (n + 2) files tz s1 = Some (Inr (), s1)"
    using assms(1,2) by (simp add: load_region_def run_then_def s1_def new_tz_def)
  have zone: "getZone (n + 2) files t tz s1 = Some (Inl Thrown, s3)"
    using load tables_only_fields(1) [OF t] s3(2)
    by (simp add: numeral_2_eq_2 run_then_def s1_def new_tz_def s2_def)
  have info: "getTzInfo (n + 2) files t tz False s1 = Some (Inl Thrown, s3)"
    unfolding getTzInfo_find find_zone_def run_then_def region by (simp only: option.case prod.case sum.case zone)
  have "tz \<noteq> []" using assms(3) by (auto simp: TZ_REGEXP_def)
  then have "new_Date (n + 2) files br now date_parse [Num t, Text tz] s1 = Some (Inl Thrown, s3)"
    using info assms(3)
    by (simp add: new_Date_def tz_argument_def some_date_def setFromTimeProxy_def named_def run_then_def)
  moreover have "tz_requests s3 = tz_requests s1" using tables_only_fields(5) [OF t] by (simp add: s2_def)
  moreover have "length (tz_requests s1) = 1" by (simp add: s1_def)
  ultimately show ?thesis using 1 by blast
qed

theorem first_reading_fails_witness:
  "\<exists>s1 s2. initTimeZone (\<lambda>_. Some ''Link America/Denver Navajo'') new_tz = Some (Inr (), s1)
    \<and> new_Date 2 (\<lambda>_. Some ''Link America/Denver Navajo'') (steady 0) 0 (\<lambda>_. None) [Num 0, Text ''America/New_York''] s1
        = Some (Inl Thrown, s2)"
proof -
  have m: "map_of regionExceptions ''America/New_York'' = None" "hd (split ''America/New_York'' ''/'') = ''America''"
    "TZ_REGEXP ''America/New_York''" by code_simp+
  have line: "split ''Link America/Denver Navajo'' [CHR 0x0A] = [''Link America/Denver Navajo'']"
    "hd (split ''Link America/Denver Navajo'' ''#'') = ''Link America/Denver Navajo''"
    "split_space ''Link America/Denver Navajo'' = [''Link'', ''America/Denver'', ''Navajo'']" by code_simp+
  have "fst (parseZones ''Link America/Denver Navajo'' s) = Inr ()
      \<and> map_of (tz_zones (snd (parseZones ''Link America/Denver Navajo'' s))) ''America/New_York'' = None"
    if "tz_zones s = []" for s
    using that by (simp add: parseZones_def line parse_line_def parse_link_def is_space_def truthy_entry_def undef_text_def
        set_zone_def Let_def)
  from first_reading_fails [OF m _ this, of "\<lambda>_. Some ''Link America/Denver Navajo''" 0 "steady 0" 0 "\<lambda>_. None" 0] show ?thesis
    by (simp only: add_0) blast
qed

section \<open>The line of a zone\<close>

text \<open>With ends that ascend, the line that is found is the first one whose end has not passed.\<close>

definition ascending :: "zone_line list \<Rightarrow> bool" where
  "ascending ls \<longleftrightarrow> ls \<noteq> [] \<and> z_until (last ls) = None
     \<and> (\<forall>i < length ls - 1. z_until (ls ! i) \<noteq> None \<and> z_until (ls ! i) \<noteq> Some 0)
     \<and> sorted_wrt (\<lambda>a b. the (z_until a) < the (z_until b)) (butlast ls)"

lemma line_index_bounds:
  "line_index t ls n \<le> n" "0 < line_index t ls n \<Longrightarrow> ended t (ls ! (line_index t ls n - 1))"
  by (induction n) (auto simp: less_Suc_eq)

lemma line_index_above: "line_index t ls n \<le> j \<Longrightarrow> j < n \<Longrightarrow> \<not> ended t (ls ! j)"
proof (induction n)
  case (Suc n)
  then show ?case by (cases "ended t (ls ! n)") (auto simp: less_Suc_eq)
qed simp

lemma zone_line_in_force:
  assumes "ascending ls"
  shows "\<exists>i < length ls. zone_line_at t ls = Some (ls ! i) \<and> (\<forall>j < i. the (z_until (ls ! j)) < t)
    \<and> (i < length ls - 1 \<longrightarrow> t \<le> the (z_until (ls ! i)))"
proof -
  let ?i = "line_index t ls (length ls)"
  have ne: "ls \<noteq> []" and last: "z_until (ls ! (length ls - 1)) = None"
    and ends: "\<And>i. i < length ls - 1 \<Longrightarrow> \<exists>u. z_until (ls ! i) = Some u \<and> u \<noteq> 0"
    and up: "\<And>i j. i < j \<Longrightarrow> j < length ls - 1 \<Longrightarrow> the (z_until (ls ! i)) < the (z_until (ls ! j))"
    using assms by (auto simp: ascending_def last_conv_nth sorted_wrt_iff_nth_less nth_butlast)
  note b = line_index_bounds [where t = t and ls = ls and n = "length ls"]
  have i: "?i < length ls"
  proof (rule ccontr)
    assume "\<not> ?i < length ls"
    then have "?i = length ls" "0 < ?i" using b(1) ne by auto
    then have "ended t (ls ! (length ls - 1))" using b(2) by simp
    then show False using last by (simp add: ended_def)
  qed
  have "the (z_until (ls ! j)) < t" if "j < ?i" for j
  proof -
    have "0 < ?i" using that by simp
    then have e: "the (z_until (ls ! (?i - 1))) < t" using b(2) by (auto simp: ended_def split: option.splits)
    show ?thesis
    proof (cases "j = ?i - 1")
      case False
      then have "j < ?i - 1" "?i - 1 < length ls - 1" using that i by auto
      from up [OF this] e show ?thesis by simp
    qed (use e in simp)
  qed
  moreover have "t \<le> the (z_until (ls ! ?i))" if "?i < length ls - 1"
    using line_index_above [of t ls "length ls" ?i] ends [OF that] i by (auto simp: ended_def)
  ultimately show ?thesis using i by (auto simp: zone_line_at_def)
qed

text \<open>Naming a scheme does not set it.\<close>

lemma init_time_zone_scheme: "initTimeZone files s = Some (r, s1) \<Longrightarrow> tz_scheme s1 = tz_scheme s"
proof -
  have load: "tz_scheme s2 = tz_scheme s1" if "loadZoneFile files f (Some cb) s1 = Some (r, s2)" for f cb s1 s2 r
    using that by (auto simp: loadZoneFile_def builtInLoadZoneFile_def split: if_splits)
  have each: "tz_scheme s2 = tz_scheme s1" if "load_each files fs (Some cb) s1 = Some (r, s2)" for fs cb s1 s2 r
    using that
  proof (induction fs arbitrary: s1)
    case (Cons f fs)
    then show ?case using load by (fastforce simp: run_then_def split: option.splits sum.splits prod.splits)
  qed simp
  show "initTimeZone files s = Some (r, s1) \<Longrightarrow> tz_scheme s1 = tz_scheme s"
    using load each by (fastforce simp: initTimeZone_def init_def Let_def split: if_splits)
qed

end
