(* ===== verification/Timezone_Text.thy ===== *)
theory Timezone_Text
  imports Timezone_Date
begin

text \<open>
  The reader of zone files, \<open>parseZones\<close>, against a printer: what is printed of zones, rules and links is read
  back as it was.
\<close>

section \<open>Words and lines\<close>

definition word :: "string \<Rightarrow> bool" where
  "word w \<longleftrightarrow> w \<noteq> [] \<and> (\<forall>c \<in> set w. \<not> is_space c \<and> c \<noteq> CHR ''#'')"

abbreviation tab :: char where "tab \<equiv> CHR 0x09"

definition tabbed :: "string list \<Rightarrow> string" where
  "tabbed ws = join [tab] ws"

lemma tab_space [simp]: "is_space tab"
  by (simp add: is_space_def)

lemma word_digits: "c \<in> set (int_str n) \<Longrightarrow> \<not> is_space c \<and> c \<noteq> CHR ''#'' \<and> c \<noteq> CHR '':''"
  using nat_str_digits is_digit_not by (fastforce simp: int_str_def is_digit_def is_space_def split: if_splits)

lemma int_str_ne [simp]: "int_str n \<noteq> []"
  by (simp add: int_str_def)

lemma word_int_str [simp]: "word (int_str n)"
  using word_digits by (simp add: word_def)

lemma word_append [simp]: "word a \<Longrightarrow> word b \<Longrightarrow> word (a @ b)"
  by (auto simp: word_def)

lemma split_space_last: "word w \<Longrightarrow> split_space w = [w]"
  by (subst split_space.simps) (auto simp: word_def Let_def dropWhile_eq_Nil_conv takeWhile_eq_all_conv)

lemma split_space_step:
  assumes "word w" "r \<noteq> []" "\<not> is_space (hd r)"
  shows "split_space (w @ tab # r) = w # split_space r"
proof -
  have nsp: "\<forall>c \<in> set w. \<not> is_space c" using assms(1) by (simp add: word_def)
  have "takeWhile (\<lambda>c. \<not> is_space c) (w @ tab # r) = w" "dropWhile (\<lambda>c. \<not> is_space c) (w @ tab # r) = tab # r"
    using nsp by (simp_all add: takeWhile_append2 dropWhile_append2)
  moreover have "dropWhile is_space (tab # r) = r" using assms(2,3) by (cases r) simp_all
  ultimately show ?thesis by (subst split_space.simps) (simp add: Let_def)
qed

lemma tabbed_head: "ws \<noteq> [] \<Longrightarrow> word (hd ws) \<Longrightarrow> tabbed ws \<noteq> [] \<and> \<not> is_space (hd (tabbed ws))"
  by (cases ws rule: list.exhaust; cases "tl ws") (auto simp: tabbed_def word_def join_Cons hd_append)

lemma split_tabbed: "ws \<noteq> [] \<Longrightarrow> \<forall>w \<in> set ws. word w \<Longrightarrow> split_space (tabbed ws) = ws"
proof (induction ws)
  case (Cons w ws)
  show ?case
  proof (cases "ws = []")
    case True
    then show ?thesis using Cons.prems split_space_last by (simp add: tabbed_def)
  next
    case False
    then have "tabbed (w # ws) = w @ tab # tabbed ws" by (simp add: tabbed_def join_Cons)
    moreover have "word (hd ws)" using False Cons.prems(2) by (cases ws) simp_all
    ultimately show ?thesis using split_space_step [of w "tabbed ws"] tabbed_head [OF False] Cons False by simp
  qed
qed simp

lemma chars_tabbed: "\<forall>w \<in> set ws. word w \<Longrightarrow> c \<in> set (tabbed ws) \<Longrightarrow> c = tab \<or> \<not> is_space c \<and> c \<noteq> CHR ''#''"
  using set_join [of "[tab]" ws] by (auto simp: tabbed_def word_def)

lemma tabbed_no_hash: "\<forall>w \<in> set ws. word w \<Longrightarrow> CHR ''#'' \<notin> set (tabbed ws)"
  using chars_tabbed [of ws "CHR ''#''"] by auto

lemma tabbed_no_newline: "\<forall>w \<in> set ws. word w \<Longrightarrow> CHR 0x0A \<notin> set (tabbed ws)"
  using chars_tabbed [of ws "CHR 0x0A"] by (auto simp: is_space_def)

section \<open>Times and offsets\<close>

definition hms_ok :: "hms \<Rightarrow> bool" where
  "hms_ok t \<longleftrightarrow> 0 \<le> hms_h t \<and> 0 \<le> hms_m t \<and> 0 \<le> hms_s t
     \<and> (case hms_type t of None \<Rightarrow> True | Some c \<Rightarrow> c \<in> set ''wsugz'')"

definition print_time :: "hms \<Rightarrow> string" where
  "print_time t = int_str (hms_h t) @ '':'' @ int_str (hms_m t) @ '':'' @ int_str (hms_s t)
     @ (case hms_type t of None \<Rightarrow> [] | Some c \<Rightarrow> [c])"

lemma take_digits:
  assumes "0 \<le> n" "r = [] \<or> \<not> is_digit (hd r)"
  shows "takeWhile is_digit (int_str n @ r) = int_str n" "dropWhile is_digit (int_str n @ r) = r"
    "int (digits_val 0 (int_str n)) = n"
proof -
  have d: "int_str n = nat_str (nat n)" using assms(1) by (simp add: int_str_def)
  have all: "\<forall>c \<in> set (int_str n). is_digit c" using nat_str_digits by (simp add: d)
  have "takeWhile is_digit r = []" "dropWhile is_digit r = r" using assms(2) by (cases r; simp)+
  then show "takeWhile is_digit (int_str n @ r) = int_str n" "dropWhile is_digit (int_str n @ r) = r"
    using all by (simp_all add: takeWhile_append2 dropWhile_append2)
  show "int (digits_val 0 (int_str n)) = n" using assms(1) by (simp add: d)
qed

lemma time_here_print:
  assumes "hms_ok t"
  shows "time_here (print_time t) = Some t"
proof -
  have colon: "\<not> is_digit (CHR '':'')" by (simp add: is_digit_def)
  let ?ty = "case hms_type t of None \<Rightarrow> [] | Some c \<Rightarrow> [c]"
  have ty: "?ty = [] \<or> \<not> is_digit (hd ?ty)" "time_type ?ty = Some (hms_type t)"
    using assms by (auto simp: hms_ok_def time_type_def is_digit_def split: option.splits)
  have n: "0 \<le> hms_h t" "0 \<le> hms_m t" "0 \<le> hms_s t" using assms by (simp_all add: hms_ok_def)
  note s = take_digits [OF n(3) ty(1)]
  have m: "takeWhile is_digit (int_str (hms_m t) @ '':'' @ int_str (hms_s t) @ ?ty) = int_str (hms_m t)"
    "dropWhile is_digit (int_str (hms_m t) @ '':'' @ int_str (hms_s t) @ ?ty) = '':'' @ int_str (hms_s t) @ ?ty"
    using take_digits(1,2) [OF n(2), of "'':'' @ int_str (hms_s t) @ ?ty"] colon by simp_all
  have h: "takeWhile is_digit (print_time t) = int_str (hms_h t)"
    "dropWhile is_digit (print_time t) = '':'' @ int_str (hms_m t) @ '':'' @ int_str (hms_s t) @ ?ty"
    using take_digits(1,2) [OF n(1), of "'':'' @ int_str (hms_m t) @ '':'' @ int_str (hms_s t) @ ?ty"] colon
    by (simp_all add: print_time_def)
  have "time_group ('':'' @ int_str (hms_m t) @ '':'' @ int_str (hms_s t) @ ?ty) = (hms_m t, '':'' @ int_str (hms_s t) @ ?ty)"
    using m take_digits(3) [OF n(2), of "[]"] by (simp add: time_group_def)
  moreover have "time_group ('':'' @ int_str (hms_s t) @ ?ty) = (hms_s t, ?ty)"
    using s by (simp add: time_group_def)
  ultimately show ?thesis
    using ty(2) take_digits(3) [OF n(1), of "[]"] by (simp add: time_here_def h Let_def)
qed

lemma parse_print_time: "hms_ok t \<Longrightarrow> parseTimeString (print_time t) = Inr t"
  using time_here_print [of t] by (cases "print_time t") (auto simp: parseTimeString_def print_time_def)

lemma word_print_time: "hms_ok t \<Longrightarrow> word (print_time t)"
  using word_digits by (fastforce simp: word_def print_time_def hms_ok_def is_space_def split: option.splits)

definition print_offset :: "int \<Rightarrow> string" where
  "print_offset ms =
     (if ms < 0 then ''-'' else [])
     @ print_time \<lparr>hms_h = \<bar>ms\<bar> div 3600000, hms_m = \<bar>ms\<bar> div 60000 mod 60, hms_s = \<bar>ms\<bar> div 1000 mod 60, hms_type = None\<rparr>"

lemma word_print_offset [simp]: "word (print_offset ms)"
proof -
  have "word (print_time \<lparr>hms_h = \<bar>ms\<bar> div 3600000, hms_m = \<bar>ms\<bar> div 60000 mod 60, hms_s = \<bar>ms\<bar> div 1000 mod 60, hms_type = None\<rparr>)"
    by (rule word_print_time) (simp add: hms_ok_def)
  moreover have "word ''-''" by (simp add: word_def is_space_def)
  ultimately show ?thesis
    unfolding print_offset_def by (cases "ms < 0") (simp_all only: if_True if_False append_Nil word_append)
qed

lemma whole_seconds: "0 \<le> a \<Longrightarrow> ((a div 3600 * 60 + a div 60 mod 60) * 60 + a mod 60) = (a :: int)"
proof -
  have "a div 3600 = a div 60 div 60" using zdiv_zmult2_eq [of 60 a 60] by simp
  then show ?thesis by simp
qed

lemma parse_print_offset:
  assumes "ms mod 1000 = 0"
  shows "getBasicOffset (print_offset ms) = Inr ms"
proof -
  let ?t = "\<lparr>hms_h = \<bar>ms\<bar> div 3600000, hms_m = \<bar>ms\<bar> div 60000 mod 60, hms_s = \<bar>ms\<bar> div 1000 mod 60, hms_type = None\<rparr>"
  have ok: "hms_ok ?t" by (simp add: hms_ok_def)
  define a where "a = \<bar>ms\<bar> div 1000"
  have m: "\<bar>ms\<bar> = a * 1000" "0 \<le> a" using assms by (auto simp: a_def abs_if mod_minus_eq)
  have "\<bar>ms\<bar> div 3600000 = a div 3600" "\<bar>ms\<bar> div 60000 = a div 60"
    using zdiv_zmult2_eq [of 3600 "\<bar>ms\<bar>" 1000] zdiv_zmult2_eq [of 60 "\<bar>ms\<bar>" 1000] by (simp_all add: a_def)
  then have v: "((hms_h ?t * 60 + hms_m ?t) * 60 + hms_s ?t) * 1000 = \<bar>ms\<bar>"
    using whole_seconds [OF m(2)] m by (simp add: a_def [symmetric])
  obtain c cs where c: "print_time ?t = c # cs" by (cases "print_time ?t") (auto simp: print_time_def)
  have dig: "is_digit c"
  proof -
    have "int_str (\<bar>ms\<bar> div 3600000) = nat_str (nat (\<bar>ms\<bar> div 3600000))" by (simp add: int_str_def)
    then show ?thesis using c nat_str_digits [of "nat (\<bar>ms\<bar> div 3600000)"]
      by (cases "nat_str (nat (\<bar>ms\<bar> div 3600000))") (auto simp: print_time_def)
  qed
  show ?thesis
  proof (cases "ms < 0")
    case True
    have "time_here (CHR ''-'' # print_time ?t) = None" by (simp add: time_here_def Let_def split_def is_digit_def)
    then have "parseTimeString (CHR ''-'' # print_time ?t) = Inr ?t"
      using parse_print_time [OF ok] by (simp add: parseTimeString_def)
    moreover have "indexOf (CHR ''-'' # print_time ?t) ''-'' = 0" by (simp add: indexOf_def)
    ultimately show ?thesis using True v by (simp add: getBasicOffset_def print_offset_def)
  next
    case False
    have "indexOf (print_time ?t) ''-'' \<noteq> 0"
      using dig by (auto simp: indexOf_def c is_digit_def split: option.splits)
    then show ?thesis using False v parse_print_time [OF ok] by (simp add: getBasicOffset_def print_offset_def)
  qed
qed

section \<open>Rules\<close>

definition rule_ok :: "rule \<Rightarrow> bool" where
  "rule_ok r \<longleftrightarrow> r_from r \<noteq> None
     \<and> (case r_to r of To_Year y \<Rightarrow> y \<noteq> 0 | To_Text t \<Rightarrow> word t \<and> parseInt t = None)
     \<and> word (r_type r) \<and> word (r_in r) \<and> word (r_on r) \<and> hms_ok (r_at r) \<and> r_save r mod 1000 = 0
     \<and> (case r_letter r of None \<Rightarrow> False | Some l \<Rightarrow> word l)"

definition rule_fields :: "rule \<Rightarrow> string list" where
  "rule_fields r =
     [int_str (the (r_from r)), (case r_to r of To_Year y \<Rightarrow> int_str y | To_Text t \<Rightarrow> t), r_type r, r_in r, r_on r,
      print_time (r_at r), print_offset (r_save r), the (r_letter r)]"

definition print_rule :: "string \<Rightarrow> rule \<Rightarrow> string" where
  "print_rule name r = tabbed (''Rule'' # name # rule_fields r)"

lemma rule_fields_words: "rule_ok r \<Longrightarrow> \<forall>w \<in> set (rule_fields r). word w"
  by (auto simp: rule_ok_def rule_fields_def word_print_time split: year_end.splits option.splits)

lemma rule_fields_read: "rule_ok r \<Longrightarrow> rule_of (rule_fields r) = Inr r"
  by (cases r) (auto simp: rule_ok_def rule_of_def rule_fields_def line_field_def parse_print_time parse_print_offset parseInt_int_str
      year_end_of_def split: year_end.splits option.splits)

definition add_rule :: "string \<Rightarrow> rule \<Rightarrow> tz \<Rightarrow> tz" where
  "add_rule name r s =
     s\<lparr>tz_rules := obj_set name ((case map_of (tz_rules s) name of None \<Rightarrow> [] | Some rs \<Rightarrow> rs) @ [r]) (tz_rules s)\<rparr>"

lemma obj_set_twice [simp]: "obj_set k v (obj_set k w ob) = obj_set k v ob"
  by (induction k w ob rule: obj_set.induct) auto

lemma word_keys: "word ''Rule''" "word ''Zone''" "word ''Link''"
  by (simp_all add: word_def is_space_def)

text \<open>A line of words is taken apart into them.\<close>

lemma line_of_words:
  assumes "\<forall>w \<in> set ws. word w" "4 \<le> length (hd ws)" "ws \<noteq> []"
  shows "hd (split (tabbed ws) ''#'') = tabbed ws" "length (tabbed ws) > 3" "split_space (tabbed ws) = ws"
    "\<exists>c cs. tabbed ws = c # cs \<and> \<not> is_space c"
proof -
  show "hd (split (tabbed ws) ''#'') = tabbed ws" using tabbed_no_hash [OF assms(1)] by (simp add: split_no_sep)
  show "length (tabbed ws) > 3" using assms(2,3) by (cases ws; cases "tl ws") (auto simp: tabbed_def join_Cons)
  show "split_space (tabbed ws) = ws" using assms split_tabbed by blast
  have "word (hd ws)" using assms(1,3) by simp
  from tabbed_head [OF assms(3) this] show "\<exists>c cs. tabbed ws = c # cs \<and> \<not> is_space c" by (cases "tabbed ws") auto
qed

lemma parse_words:
  assumes "\<forall>w \<in> set ws. word w" "4 \<le> length (hd ws)" "ws \<noteq> []"
  shows "parse_line (tabbed ws) zone s =
    (if hd ws = ''Zone'' then let (r, s') = parse_zone (first_field (tl ws)) (tl (tl ws)) s in ((first_field (tl ws), r), s')
     else if hd ws = ''Rule'' then let (r, s') = parse_rule (first_field (tl ws)) (tl (tl ws)) s in ((zone, r), s')
     else if hd ws = ''Link'' then let (r, s') = parse_link (tl ws) s in ((zone, r), s')
     else ((zone, Inr ()), s))"
proof -
  obtain c cs where c: "tabbed ws = c # cs" "\<not> is_space c" using line_of_words(4) [OF assms] by blast
  have "(case tabbed ws of c # _ \<Rightarrow> if is_space c then ''Zone '' @ zone @ tabbed ws else tabbed ws | [] \<Rightarrow> tabbed ws) = tabbed ws"
    using c by simp
  then show ?thesis
    unfolding parse_line_def Let_def by (simp only: line_of_words [OF assms] if_True)
qed

lemma parse_print_rule:
  assumes "word name" "rule_ok r"
  shows "parse_line (print_rule name r) zone s = ((zone, Inr ()), add_rule name r s)"
proof -
  have "\<forall>w \<in> set (''Rule'' # name # rule_fields r). word w" using assms rule_fields_words word_keys by simp
  from parse_words [OF this] show ?thesis
    using rule_fields_read [OF assms(2)]
    by (simp add: print_rule_def first_field_def undef_text_def parse_rule_def add_rule_def)
qed

section \<open>Zones\<close>

text \<open>The moment at which a line ends is printed by its fields; it is a whole second, not in the first hundred years.\<close>

definition until_ok :: "date \<Rightarrow> bool" where
  "until_ok d \<longleftrightarrow> (case d of None \<Rightarrow> True | Some u \<Rightarrow> plain_year u \<and> u mod 1000 = 0)"

definition zone_line_ok :: "zone_line \<Rightarrow> bool" where
  "zone_line_ok z \<longleftrightarrow> z_off z mod 1000 = 0 \<and> word (z_rules z) \<and> word (z_format z) \<and> until_ok (z_until z)"

definition until_fields :: "date \<Rightarrow> string list" where
  "until_fields d =
     (case d of
        None \<Rightarrow> []
      | Some u \<Rightarrow>
          [int_str (getFullYear u), take 3 (MONTHS ! nat (getMonth u)), int_str (getDate u),
           print_time \<lparr>hms_h = getHours u, hms_m = getMinutes u, hms_s = getSeconds u, hms_type = None\<rparr>])"

definition zone_fields :: "zone_line \<Rightarrow> string list" where
  "zone_fields z = [print_offset (- z_off z), z_rules z, z_format z] @ until_fields (z_until z)"

lemma month_names:
  assumes "0 \<le> m" "m < 12"
  shows "word (take 3 (MONTHS ! nat m))" "SHORT_MONTHS (take 3 (MONTHS ! nat m)) = Some m" "take 3 (MONTHS ! nat m) \<noteq> []"
proof -
  have "\<forall>m \<in> set [0..<12]. word (take 3 (MONTHS ! m)) \<and> SHORT_MONTHS (take 3 (MONTHS ! m)) = Some (int m)
      \<and> take 3 (MONTHS ! m) \<noteq> []" by code_simp
  then have "word (take 3 (MONTHS ! nat m)) \<and> SHORT_MONTHS (take 3 (MONTHS ! nat m)) = Some (int (nat m))
      \<and> take 3 (MONTHS ! nat m) \<noteq> []" using assms by auto
  then show "word (take 3 (MONTHS ! nat m))" "SHORT_MONTHS (take 3 (MONTHS ! nat m)) = Some m" "take 3 (MONTHS ! nat m) \<noteq> []"
    using assms by simp_all
qed

lemma clock_ok: "hms_ok \<lparr>hms_h = getHours u, hms_m = getMinutes u, hms_s = getSeconds u, hms_type = None\<rparr>"
  by (simp add: hms_ok_def getHours_def getMinutes_def getSeconds_def pos_imp_zdiv_nonneg_iff)

lemma month_field: "0 \<le> getMonth u" "getMonth u < 12"
  by (simp_all add: getMonth_def MonthFromDay_range)

lemma zone_fields_words: "zone_line_ok z \<Longrightarrow> \<forall>w \<in> set (zone_fields z). word w"
  using month_names(1) [OF month_field] word_print_time [OF clock_ok]
  by (auto simp: zone_line_ok_def zone_fields_def until_fields_def split: option.splits)

lemma until_read:
  assumes "until_ok d"
  shows "processZone (a # b # c # until_fields d)
    = Inr (map_option (\<lambda>u. (Some (getFullYear u), Some (getMonth u), getDate u,
        \<lparr>hms_h = getHours u, hms_m = getMinutes u, hms_s = getSeconds u, hms_type = None\<rparr>)) d)"
proof (cases d)
  case None
  then show ?thesis by (simp add: processZone_def until_fields_def line_field_def)
next
  case (Some u)
  have "getDate u \<noteq> 0" using getDate_range [of u] by simp
  moreover have "take 3 (take 3 (MONTHS ! nat (getMonth u))) = take 3 (MONTHS ! nat (getMonth u))" by simp
  moreover have "print_time t \<noteq> []" for t by (simp add: print_time_def)
  ultimately show ?thesis using month_names(2,3) [OF month_field] parse_print_time [OF clock_ok]
    by (simp add: Some processZone_def until_fields_def line_field_def parseInt_int_str Let_def)
qed

lemma until_again:
  assumes "until_ok d"
  shows "until_of (map_option (\<lambda>u. (Some (getFullYear u), Some (getMonth u), getDate u,
      \<lparr>hms_h = getHours u, hms_m = getMinutes u, hms_s = getSeconds u, hms_type = None\<rparr>)) d) = d"
proof (cases d)
  case (Some u)
  then have u: "plain_year u" "u mod 1000 = 0" using assms by (simp_all add: until_ok_def)
  then have "Date_UTC (getFullYear u) (getMonth u) (getDate u) (getHours u) (getMinutes u) (getSeconds u) = u"
    using UTC_fields [OF u(1)] by (simp add: Date_UTC_ms_def getMilliseconds_def)
  then show ?thesis by (simp add: Some until_of_def)
qed (simp add: until_of_def)

definition zone_lines :: "tz \<Rightarrow> string \<Rightarrow> zone_line list" where
  "zone_lines s name = (case map_of (tz_zones s) name of Some (Lines ls) \<Rightarrow> ls | _ \<Rightarrow> [])"

lemma parse_zone_fields:
  assumes "zone_line_ok z" "\<nexists>l. map_of (tz_zones s) name = Some (Link_To l)"
  shows "parse_zone name (zone_fields z) s = (Inr (), set_zone name (Lines (zone_lines s name @ [z])) s)"
proof -
  have z: "z_off z mod 1000 = 0" "until_ok (z_until z)" using assms(1) by (simp_all add: zone_line_ok_def)
  have "- z_off z mod 1000 = 0" using z(1) by (simp add: mod_minus_eq mod_eq_0_iff_dvd)
  note off = parse_print_offset [OF this]
  have p: "and_then (processZone (zone_fields z)) (\<lambda>p. and_then (getBasicOffset (zone_fields z ! 0)) (\<lambda>off. Inr (until_of p, off)))
      = Inr (z_until z, - z_off z)"
    using until_read [OF z(2)] until_again [OF z(2)] off by (simp add: zone_fields_def)
  have f: "\<not> length (zone_fields z) < 3" "zone_fields z ! 1 = z_rules z" "zone_fields z ! 2 = z_format z"
    by (simp_all add: zone_fields_def)
  have line: "\<lparr>z_off = z_off z, z_rules = z_rules z, z_format = z_format z, z_until = z_until z\<rparr> = z" by (cases z) simp
  show ?thesis
  proof (cases "map_of (tz_zones s) name")
    case None
    then show ?thesis unfolding parse_zone_def Let_def p
      using f by (simp add: truthy_entry_def set_zone_def zone_lines_def line)
  next
    case (Some e)
    then obtain ls where "e = Lines ls" using assms(2) by (cases e) auto
    then show ?thesis using Some unfolding parse_zone_def Let_def p
      using f by (simp add: truthy_entry_def set_zone_def zone_lines_def line)
  qed
qed

definition print_zone :: "string \<Rightarrow> zone_line list \<Rightarrow> string list" where
  "print_zone name ls =
     (case ls of [] \<Rightarrow> [] | z # zs \<Rightarrow> tabbed (''Zone'' # name # zone_fields z) # map (\<lambda>z. tab # tabbed (zone_fields z)) zs)"

lemma parse_print_zone_line:
  assumes "word name" "zone_line_ok z" "\<nexists>l. map_of (tz_zones s) name = Some (Link_To l)"
  shows "parse_line (tabbed (''Zone'' # name # zone_fields z)) zone s
      = ((name, Inr ()), set_zone name (Lines (zone_lines s name @ [z])) s)"
    "parse_line (tab # tabbed (zone_fields z)) name s
      = ((name, Inr ()), set_zone name (Lines (zone_lines s name @ [z])) s)"
proof -
  have ws: "\<forall>w \<in> set (''Zone'' # name # zone_fields z). word w" using assms zone_fields_words word_keys by simp
  show "parse_line (tabbed (''Zone'' # name # zone_fields z)) zone s
      = ((name, Inr ()), set_zone name (Lines (zone_lines s name @ [z])) s)"
    using parse_words [OF ws] by (simp add: first_field_def undef_text_def parse_zone_fields [OF assms(2,3)])
  let ?ws = "''Zone'' # name # zone_fields z"
  define x where "x = ''Zone '' @ tabbed (name # zone_fields z)"
  have t: "''Zone '' @ name @ tab # tabbed (zone_fields z) = x"
    by (simp add: x_def tabbed_def join_Cons zone_fields_def)
  have "CHR ''#'' \<notin> set x" using tabbed_no_hash [of "name # zone_fields z"] ws by (simp add: x_def)
  then have h: "hd (split x ''#'') = x" by (simp add: split_no_sep)
  have "name \<noteq> [] \<and> \<not> is_space (hd name)" using assms(1) by (cases name) (simp_all add: word_def)
  then have "tabbed (name # zone_fields z) \<noteq> [] \<and> \<not> is_space (hd (tabbed (name # zone_fields z)))"
    using tabbed_head [of "name # zone_fields z"] assms(1) by simp
  then have "dropWhile is_space (CHR '' '' # tabbed (name # zone_fields z)) = tabbed (name # zone_fields z)"
    by (cases "tabbed (name # zone_fields z)") (simp_all add: is_space_def)
  moreover have "takeWhile (\<lambda>c. \<not> is_space c) (''Zone '' @ tabbed (name # zone_fields z)) = ''Zone''"
    "dropWhile (\<lambda>c. \<not> is_space c) (''Zone '' @ tabbed (name # zone_fields z)) = CHR '' '' # tabbed (name # zone_fields z)"
    by (simp_all add: is_space_def)
  ultimately have sp: "split_space x = ?ws"
    unfolding x_def using split_tabbed [of "name # zone_fields z"] ws by (subst split_space.simps) (simp add: Let_def)
  have len: "length x > 3" by (simp add: x_def)
  show "parse_line (tab # tabbed (zone_fields z)) name s
      = ((name, Inr ()), set_zone name (Lines (zone_lines s name @ [z])) s)"
    unfolding parse_line_def Let_def list.case if_P [OF tab_space] t h if_P [OF len] sp
    by (simp add: first_field_def undef_text_def parse_zone_fields [OF assms(2,3)])
qed

section \<open>Files\<close>

datatype item = Rule_Item string rule | Zone_Item string "zone_line list" | Link_Item string string

definition print_item :: "item \<Rightarrow> string list" where
  "print_item x =
     (case x of
        Rule_Item name r \<Rightarrow> [print_rule name r]
      | Zone_Item name ls \<Rightarrow> print_zone name ls
      | Link_Item target name \<Rightarrow> [tabbed [''Link'', target, name]])"

definition print_file :: "item list \<Rightarrow> string" where
  "print_file xs = join [CHR 0x0A] (concat (map print_item xs))"

text \<open>What a file says: a rule is added to its set, the lines of a zone become those of its name, and so does the
  name that a link leads to.\<close>

definition add_item :: "item \<Rightarrow> tz \<Rightarrow> tz" where
  "add_item x s =
     (case x of
        Rule_Item name r \<Rightarrow> add_rule name r s
      | Zone_Item name ls \<Rightarrow> set_zone name (Lines ls) s
      | Link_Item target name \<Rightarrow> set_zone name (Link_To target) s)"

definition item_ok :: "item \<Rightarrow> bool" where
  "item_ok x \<longleftrightarrow>
     (case x of
        Rule_Item name r \<Rightarrow> word name \<and> rule_ok r
      | Zone_Item name ls \<Rightarrow> word name \<and> ls \<noteq> [] \<and> (\<forall>z \<in> set ls. zone_line_ok z)
      | Link_Item target name \<Rightarrow> word target \<and> word name)"

definition zone_names :: "item list \<Rightarrow> string list" where
  "zone_names xs = concat (map (\<lambda>x. case x of Rule_Item _ _ \<Rightarrow> [] | Zone_Item n _ \<Rightarrow> [n] | Link_Item _ n \<Rightarrow> [n]) xs)"

lemma parse_more_lines:
  assumes "word name"
  shows "\<forall>z \<in> set zs. zone_line_ok z \<Longrightarrow> \<nexists>l. map_of (tz_zones s) name = Some (Link_To l) \<Longrightarrow> zs \<noteq> [] \<Longrightarrow>
    parse_lines (map (\<lambda>z. tab # tabbed (zone_fields z)) zs @ ms) name s
      = parse_lines ms name (set_zone name (Lines (zone_lines s name @ zs)) s)"
proof (induction zs arbitrary: s)
  case (Cons z zs)
  let ?s = "set_zone name (Lines (zone_lines s name @ [z])) s"
  have p: "parse_line (tab # tabbed (zone_fields z)) name s = ((name, Inr ()), ?s)"
    using parse_print_zone_line(2) [OF assms _ Cons.prems(2)] Cons.prems(1) by simp
  have m: "map_of (tz_zones ?s) name = Some (Lines (zone_lines s name @ [z]))" by (simp add: set_zone_def)
  show ?case
  proof (cases "zs = []")
    case False
    have "\<nexists>l. map_of (tz_zones ?s) name = Some (Link_To l)" using m by simp
    from Cons.IH [OF _ this False] have "parse_lines (map (\<lambda>z. tab # tabbed (zone_fields z)) zs @ ms) name ?s
        = parse_lines ms name (set_zone name (Lines ((zone_lines s name @ [z]) @ zs)) ?s)"
      using Cons.prems(1) m by (simp add: zone_lines_def)
    moreover have "set_zone name (Lines ((zone_lines s name @ [z]) @ zs)) ?s = set_zone name (Lines (zone_lines s name @ z # zs)) s"
      by (simp add: set_zone_def)
    ultimately show ?thesis by (simp add: p)
  qed (simp add: p)
qed simp

lemma parse_item:
  assumes "item_ok x" "\<forall>n \<in> set (zone_names [x]). map_of (tz_zones s) n = None"
  shows "\<exists>z'. parse_lines (print_item x @ ms) z s = parse_lines ms z' (add_item x s)"
proof (cases x)
  case (Rule_Item name r)
  then show ?thesis using assms parse_print_rule [of name r z s]
    by (intro exI [of _ z]) (simp add: print_item_def add_item_def item_ok_def)
next
  case (Zone_Item name ls)
  then obtain l zs where ls: "ls = l # zs" "zone_line_ok l" "\<forall>z \<in> set zs. zone_line_ok z" "word name"
    using assms(1) by (cases ls) (auto simp: item_ok_def)
  have n: "map_of (tz_zones s) name = None" using assms(2) by (simp add: Zone_Item zone_names_def)
  let ?s = "set_zone name (Lines [l]) s"
  have p: "parse_line (tabbed (''Zone'' # name # zone_fields l)) z s = ((name, Inr ()), ?s)"
    using parse_print_zone_line(1) [OF ls(4,2), of s z] n by (simp add: zone_lines_def)
  have "parse_lines (map (\<lambda>z. tab # tabbed (zone_fields z)) zs @ ms) name ?s = parse_lines ms name (set_zone name (Lines ls) s)"
  proof (cases "zs = []")
    case False
    have "parse_lines (map (\<lambda>z. tab # tabbed (zone_fields z)) zs @ ms) name ?s
        = parse_lines ms name (set_zone name (Lines (zone_lines ?s name @ zs)) ?s)"
      by (rule parse_more_lines [OF ls(4,3) _ False]) (simp add: set_zone_def)
    then show ?thesis by (simp add: zone_lines_def set_zone_def ls(1))
  qed (simp add: ls(1))
  then show ?thesis by (intro exI [of _ name]) (simp add: Zone_Item print_item_def print_zone_def add_item_def ls(1) p)
next
  case (Link_Item target name)
  then have w: "\<forall>w \<in> set [''Link'', target, name]. word w" using assms(1) word_keys by (simp add: item_ok_def)
  have n: "map_of (tz_zones s) name = None" using assms(2) by (simp add: Link_Item zone_names_def)
  have "parse_line (tabbed [''Link'', target, name]) z s = ((z, Inr ()), set_zone name (Link_To target) s)"
    using parse_words [OF w] n by (simp add: parse_link_def undef_text_def truthy_entry_def)
  then show ?thesis by (intro exI [of _ z]) (simp add: Link_Item print_item_def add_item_def)
qed

lemma add_item_names:
  "map_of (tz_zones (add_item x s)) n = None \<longleftrightarrow> map_of (tz_zones s) n = None \<and> n \<notin> set (zone_names [x])"
  by (cases x) (auto simp: add_item_def add_rule_def set_zone_def zone_names_def)

lemma zone_names_Cons: "zone_names (x # xs) = zone_names [x] @ zone_names xs"
  by (simp add: zone_names_def)

lemma parse_items:
  "\<forall>x \<in> set xs. item_ok x \<Longrightarrow> distinct (zone_names xs) \<Longrightarrow> \<forall>n \<in> set (zone_names xs). map_of (tz_zones s) n = None \<Longrightarrow>
   parse_lines (concat (map print_item xs)) z s = (Inr (), fold add_item xs s)"
proof (induction xs arbitrary: z s)
  case (Cons x xs)
  have n: "distinct (zone_names xs)" "set (zone_names [x]) \<inter> set (zone_names xs) = {}"
    "\<forall>n \<in> set (zone_names [x]). map_of (tz_zones s) n = None" "\<forall>n \<in> set (zone_names xs). map_of (tz_zones s) n = None"
    using Cons.prems(2,3) unfolding zone_names_Cons [of x xs] by auto
  obtain z' where z': "parse_lines (print_item x @ concat (map print_item xs)) z s
      = parse_lines (concat (map print_item xs)) z' (add_item x s)"
    using parse_item [OF _ n(3), of "concat (map print_item xs)" z] Cons.prems(1) by auto
  have "\<forall>n \<in> set (zone_names xs). map_of (tz_zones (add_item x s)) n = None"
    unfolding add_item_names using n(2,4) by auto
  from Cons.IH [OF _ n(1) this, of z'] show ?case using z' Cons.prems(1) by simp
qed simp

lemma item_lines:
  assumes "item_ok x"
  shows "print_item x \<noteq> []" "l \<in> set (print_item x) \<Longrightarrow> CHR 0x0A \<notin> set l"
proof -
  show "print_item x \<noteq> []" using assms by (auto simp: print_item_def item_ok_def print_zone_def split: item.splits list.splits)
  have r: "CHR 0x0A \<notin> set (print_rule name r)" if "word name" "rule_ok r" for name r
    unfolding print_rule_def by (rule tabbed_no_newline) (use that rule_fields_words word_keys in simp)
  have z: "CHR 0x0A \<notin> set (tabbed (''Zone'' # name # zone_fields z))" "CHR 0x0A \<notin> set (tab # tabbed (zone_fields z))"
    if "word name" "zone_line_ok z" for name z
    using tabbed_no_newline [of "''Zone'' # name # zone_fields z"] tabbed_no_newline [of "zone_fields z"]
      zone_fields_words [OF that(2)] that(1) word_keys by simp_all
  have k: "CHR 0x0A \<notin> set (tabbed [''Link'', a, b])" if "word a" "word b" for a b
    by (rule tabbed_no_newline) (use that word_keys in simp)
  show "CHR 0x0A \<notin> set l" if "l \<in> set (print_item x)"
    using that assms r z k
    by (cases x) (auto simp: print_item_def item_ok_def print_zone_def split: list.splits)
qed

text \<open>C9: a file printed from rules, zones and links is read without an error, and the tables then hold what was
  printed: every rule at the end of its set, for every zone its lines with their offsets, formats and ends, and the
  target of every link, provided that no name is used twice or known already.\<close>

theorem zone_file_roundtrip:
  assumes "\<forall>x \<in> set xs. item_ok x" "distinct (zone_names xs)" "\<forall>n \<in> set (zone_names xs). map_of (tz_zones s) n = None"
  shows "parseZones (print_file xs) s = (Inr (), fold add_item xs s)"
proof (cases "xs = []")
  case True
  then show ?thesis by (simp add: print_file_def parseZones_def split.simps parse_line_def)
next
  case False
  then have ne: "concat (map print_item xs) \<noteq> []" using assms(1) item_lines(1) by (cases xs) simp_all
  have "split (print_file xs) [CHR 0x0A] = concat (map print_item xs)"
    unfolding print_file_def by (rule split_join [OF ne]) (use assms(1) item_lines(2) in auto)
  then show ?thesis using parse_items [OF assms, of "''null''"] by (simp add: parseZones_def)
qed

definition new_york_file :: "item list" where
  "new_york_file =
     [Rule_Item ''US'' us_march, Rule_Item ''US'' us_november,
      Zone_Item ''America/New_York''
        [\<lparr>z_off = 17762000, z_rules = ''-'', z_format = ''LMT'', z_until = Some (Date_UTC 1883 10 18 12 3 58)\<rparr>, ny_line],
      Link_Item ''America/New_York'' ''US/Eastern'']"

theorem zone_file_roundtrip_witness:
  "parseZones (print_file new_york_file) new_tz = (Inr (), fold add_item new_york_file new_tz)
    \<and> map_of (tz_rules (fold add_item new_york_file new_tz)) ''US'' = Some [us_march, us_november]"
proof -
  have "\<forall>x \<in> set new_york_file. item_ok x" by code_simp
  moreover have "distinct (zone_names new_york_file)" by code_simp
  ultimately show ?thesis using zone_file_roundtrip [of new_york_file new_tz]
    by (simp add: new_tz_def) (simp add: new_york_file_def add_item_def add_rule_def set_zone_def new_tz_def)
qed

end
