(* ===== verification/Dropdowns.thy ===== *)
theory Dropdowns
  imports Js_Prelude
begin

text \<open>
  Drop-downs whose options depend on another field: \<open>getDependentDropdownValues\<close> of \<open>miscAjaxFunctions.js\<close> and
  \<open>getAssociatedStateList\<close> of \<open>geoAutoCompleter.js\<close>.  The mark-up of an option is given by its parts; texts are
  free of mark-up characters.  The effects on elements are listed in the order in which they are started.
\<close>

section \<open>The page\<close>

record dropdown_option =
  opt_value :: string
  opt_text :: string
  opt_selected :: bool

datatype effect = Fade_In | Fade_Out | Show | Hide | Click | Change | Unbind_Blur | Bind_Blur string string

text \<open>An entry of the list that the server sends: a text, or an object.\<close>

datatype entry = Text_Entry string | Object_Entry "string \<Rightarrow> string option"

text \<open>The global variable \<open>list\<close> is undeclared until the first answer; an answer without a list sets it to
  \<open>undefined\<close>.\<close>

record dd_page =
  field_val :: "string \<Rightarrow> string option"
  is_visible :: "string \<Rightarrow> bool"
  dd_options :: "string \<Rightarrow> dropdown_option list"
  dd_disabled :: "string \<Rightarrow> bool"
  global_list :: "entry list option option"
  effects :: "(string \<times> effect) list"
  callbacks :: "string list"

definition add_effects :: "(string \<times> effect) list \<Rightarrow> dd_page \<Rightarrow> dd_page" where
  "add_effects es s = s\<lparr>effects := effects s @ es\<rparr>"

section \<open>Dependent drop-downs\<close>

text \<open>The optional arguments of the function.\<close>

record dd_args =
  paramKey :: string
  paramField :: string
  targetField :: string
  keyName :: string
  descName :: string
  selected :: "string option"
  callback :: "string option"
  allowEmpty :: bool
  hide :: bool
  hideTitle :: bool
  inputField :: "string option"

definition param_data :: "dd_args \<Rightarrow> dd_page \<Rightarrow> (string \<times> string option) list" where
  "param_data a s =
     (if occurs '','' (paramKey a) then
        let paramKeyArr = split (paramKey a) '',''; paramFieldArr = split (paramField a) '',''
        in map (\<lambda>i. (paramKeyArr ! i,
              field_val s (undef_text (if i < length paramFieldArr then Some (paramFieldArr ! i) else None))))
             [0..<length paramKeyArr]
      else [(paramKey a, field_val s (paramField a))])"

definition empty_option :: "dd_args \<Rightarrow> dropdown_option list" where
  "empty_option a =
     (if allowEmpty a
      then [\<lparr>opt_value = [], opt_text = [], opt_selected = (selected a = None \<or> selected a = Some ''_none_'')\<rparr>]
      else [])"

text \<open>Looking for \<open>undefined\<close> in a text looks for its name; its length throws.\<close>

definition entry_option :: "dd_args \<Rightarrow> entry \<Rightarrow> dropdown_option result" where
  "entry_option a e =
     (case e of
        Text_Entry t \<Rightarrow>
          let values = split t '': ''
          in if length values < 2 then Inl TypeError
             else (case selected a of
                     None \<Rightarrow>
                       if occurs ''undefined'' (values ! 1) then Inl TypeError
                       else Inr \<lparr>opt_value = values ! 1, opt_text = values ! 0, opt_selected = False\<rparr>
                   | Some sel \<Rightarrow>
                       Inr \<lparr>opt_value = values ! 1, opt_text = values ! 0,
                            opt_selected = (occurs sel (values ! 1) \<and> length sel > 0 \<and> sel = values ! 1)\<rparr>)
      | Object_Entry ob \<Rightarrow>
          Inr \<lparr>opt_value = undef_text (ob (keyName a)), opt_text = undef_text (ob (descName a)),
               opt_selected = (ob (keyName a) = selected a)\<rparr>)"

fun option_list :: "dd_args \<Rightarrow> entry list \<Rightarrow> dropdown_option list result" where
  "option_list a [] = Inr []"
| "option_list a (e # es) = and_then (entry_option a e) (\<lambda>p. and_then (option_list a es) (\<lambda>ps. Inr (p # ps)))"

definition title_of :: "dd_args \<Rightarrow> string" where
  "title_of a = targetField a @ ''_title''"

definition titled :: "dd_args \<Rightarrow> effect \<Rightarrow> (string \<times> effect) list" where
  "titled a e = (targetField a, e) # (if hideTitle a then [(title_of a, e)] else [])"

definition no_choice :: "entry list option \<Rightarrow> bool" where
  "no_choice l = (case l of None \<Rightarrow> True | Some es \<Rightarrow> length es < 1 \<or> length es = 1 \<and> Text_Entry ''_NA_'' \<in> set es)"

definition hide_or_show :: "dd_args \<Rightarrow> entry list option \<Rightarrow> dd_page \<Rightarrow> dd_page" where
  "hide_or_show a l s =
     (let tgt = targetField a
      in if no_choice l then
           let s1 = s\<lparr>dd_disabled := (dd_disabled s)(tgt := True)\<rparr>
           in if hide a then
                (if is_visible s tgt then add_effects (titled a Fade_Out) s1
                 else add_effects (titled a Fade_In @ titled a Fade_Out) s1)
              else s1
         else
           let s1 = s\<lparr>dd_disabled := (dd_disabled s)(tgt := False)\<rparr>
           in if hide a \<and> \<not> is_visible s tgt then add_effects (titled a Fade_In) s1 else s1)"

text \<open>The answer gives the text of the options, or nothing when an entry throws; the global variable has
  been set by then.\<close>

definition dd_success :: "dd_args \<Rightarrow> entry list option \<Rightarrow> dd_page \<Rightarrow> (dd_page \<times> dropdown_option list) result" where
  "dd_success a l s =
     and_then (case l of None \<Rightarrow> Inr [] | Some es \<Rightarrow> and_then (option_list a es) (\<lambda>ps. Inr (empty_option a @ ps)))
       (\<lambda>ps. Inr (hide_or_show a l (s\<lparr>global_list := Some l\<rparr>), ps))"

definition dd_complete :: "dd_args \<Rightarrow> dropdown_option list \<Rightarrow> dd_page \<Rightarrow> dd_page result" where
  "dd_complete a optionList s =
     (let tgt = targetField a
      in case global_list s of
           None \<Rightarrow> Inl ReferenceError
         | Some l \<Rightarrow>
             let swap = (case inputField a of
                           None \<Rightarrow> []
                         | Some i \<Rightarrow> if i = [] then [] else if l = None then [(tgt, Hide), (i, Show)] else [(i, Hide), (tgt, Show)]);
                 s1 = add_effects (swap @ [(tgt, Click), (tgt, Change)]) s
             in Inr (s1\<lparr>dd_options := (dd_options s)(tgt := optionList),
                       callbacks := callbacks s @ (case callback a of None \<Rightarrow> [] | Some c \<Rightarrow> [c])\<rparr>))"

text \<open>The request is synchronous; \<open>complete\<close> runs after the answer and after a failure.\<close>

datatype dd_answer = Answer "entry list option" | Failure

definition getDependentDropdownValues :: "dd_args \<Rightarrow> dd_answer \<Rightarrow> dd_page \<Rightarrow> dd_page result" where
  "getDependentDropdownValues a r s =
     (case r of
        Failure \<Rightarrow> dd_complete a [] s
      | Answer l \<Rightarrow> and_then (dd_success a l s) (\<lambda>(s, ps). dd_complete a ps s))"

section \<open>The states of a country\<close>

text \<open>The value of an option is written without quotes: white space before it is skipped, and it ends at the next one.\<close>

definition html_space :: "char \<Rightarrow> bool" where
  "html_space c \<longleftrightarrow> of_char c \<in> {9, 10, 12, 13, 32 :: nat}"

definition unquoted :: "string \<Rightarrow> string" where
  "unquoted t = takeWhile (\<lambda>c. \<not> html_space c) (dropWhile html_space t)"

definition state_option :: "string \<Rightarrow> dropdown_option" where
  "state_option t =
     (let geoValues = split t '': ''
      in \<lparr>opt_value = unquoted (undef_text (if 1 < length geoValues then Some (geoValues ! 1) else None)),
          opt_text = geoValues ! 0, opt_selected = False\<rparr>)"

text \<open>The request goes out with the address of the order application when the page has the form \<open>orderViewed\<close>.
  The elements that are faded are the ones called \<open>divId\<close>, \<open>errorId\<close> and \<open>stateId\<close>.\<close>

definition state_request :: "bool \<Rightarrow> string \<Rightarrow> dd_page \<Rightarrow> string \<times> string option" where
  "state_request viewed countryId s =
     ((if viewed then ''/ordermgr/control/getAssociatedStateList'' else ''getAssociatedStateList''), field_val s countryId)"

definition state_answer :: "string \<Rightarrow> string \<Rightarrow> string \<Rightarrow> bool \<Rightarrow> string list \<Rightarrow> dd_page \<Rightarrow> dd_page" where
  "state_answer stateId errorId divId failed stateList s =
     (if failed then s
      else let s1 = s\<lparr>dd_options := (dd_options s)(stateId := map state_option stateList)\<rparr>
           in if length stateList \<le> 1 then
                (if is_visible s divId \<or> is_visible s errorId
                 then add_effects [(''divId'', Fade_Out), (''errorId'', Fade_Out), (''stateId'', Unbind_Blur)] s1 else s1)
              else add_effects [(''divId'', Fade_In), (''stateId'', Bind_Blur stateId ''errorId'')] s1)"


section \<open>Lemmas\<close>



lemma add_effects_simps [simp]:
  "dd_options (add_effects es s) = dd_options s" "dd_disabled (add_effects es s) = dd_disabled s"
  "global_list (add_effects es s) = global_list s" "callbacks (add_effects es s) = callbacks s"
  "is_visible (add_effects es s) = is_visible s" "effects (add_effects es s) = effects s @ es"
  by (simp_all add: add_effects_def)

lemma hide_or_show_simps [simp]:
  "dd_options (hide_or_show a l s) = dd_options s" "global_list (hide_or_show a l s) = global_list s"
  "callbacks (hide_or_show a l s) = callbacks s"
  "dd_disabled (hide_or_show a l s) = (dd_disabled s)(targetField a := no_choice l)"
  by (simp_all add: hide_or_show_def Let_def)











text \<open>The entry \<open>_NA_\<close>, for which the code disables the field, has no key: reading it throws before that.\<close>

lemma na_entry_throws: "getDependentDropdownValues a (Answer (Some [Text_Entry ''_NA_''])) s = Inl TypeError"
proof -
  have "split ''_NA_'' '': '' = [''_NA_'']" by (simp add: split.simps)
  then show ?thesis by (simp add: getDependentDropdownValues_def dd_success_def entry_option_def)
qed

text \<open>After a failed request the choice between the drop-down and the input field is made from the answer to
  another request, or the page throws when there was none.\<close>

lemma dd_complete_list: "dd_complete a ps s = Inr s' \<Longrightarrow> global_list s' = global_list s"
  by (auto simp: dd_complete_def Let_def split: option.splits)

lemma failure_uses_last_answer:
  assumes "getDependentDropdownValues a' (Answer l) s = Inr s1" "inputField a = Some i" "i \<noteq> []"
  shows "\<exists>s2. getDependentDropdownValues a Failure s1 = Inr s2 \<and> dd_options s2 (targetField a) = []
    \<and> effects s2 = effects s1 @ (if l = None then [(targetField a, Hide), (i, Show)] else [(i, Hide), (targetField a, Show)])
        @ [(targetField a, Click), (targetField a, Change)]"
proof -
  obtain t ps where t: "dd_success a' l s = Inr (t, ps)" "dd_complete a' ps t = Inr s1"
    using assms(1) by (auto simp: getDependentDropdownValues_def and_then_Inr)
  have "global_list t = Some l" using t(1) by (auto simp: dd_success_def and_then_Inr)
  then have "global_list s1 = Some l" using dd_complete_list [OF t(2)] by simp
  then show ?thesis using assms(2,3) by (simp add: getDependentDropdownValues_def dd_complete_def Let_def)
qed

lemma failure_first_throws: "global_list s = None \<Longrightarrow> getDependentDropdownValues a Failure s = Inl ReferenceError"
  by (simp add: getDependentDropdownValues_def dd_complete_def)

text \<open>The list of states is filled in, but the elements that the page names for the message and for the
  field are never shown or hidden.\<close>

lemma state_elements_untouched:
  "i \<notin> {''divId'', ''errorId'', ''stateId''} \<Longrightarrow>
    filter (\<lambda>e. fst e = i) (effects (state_answer stateId errorId divId failed stateList s)) = filter (\<lambda>e. fst e = i) (effects s)"
  by (auto simp: state_answer_def Let_def)

end
