(* ===== verification/Order_Pages.thy ===== *)
theory Order_Pages
  imports Dropdowns
begin

text \<open>
  Small scripts of the order pages: the completers of \<open>geoAutoCompleter.js\<close>, the statuses of \<open>return.js\<close>, the prices of
  \<open>ConvertUom.js\<close> and the mark of \<open>order.js\<close>.  Some of them call methods of arrays that only the library Prototype
  adds; whether a page has loaded it is a part of the state.  An exception in the handler of an answer is reported by
  the browser and stops that handler only.
\<close>

section \<open>Countries and states\<close>

text \<open>\<open>countryHidden\<close> and \<open>stateHidden\<close> are the property \<open>value\<close> that the code sets on the global jQuery objects of the
  two hidden fields; the objects are new in every call.  A source is missing as long as the completer is not attached.\<close>

record geo_page =
  geo_vals :: "string \<rightharpoonup> string"
  geo_form :: "(string \<times> string) list"
  prototype_js :: bool
  countryHidden :: "string option option"
  stateHidden :: "string option option"
  countrySource :: "string list option"
  stateSource :: "string list option"
  blur_handlers :: nat
  geo_fades :: "(string \<times> effect) list"
  geo_requests :: "(string \<times> (string \<times> string) list) list"
  uncaught :: "js_error list"

abbreviation country_field :: string where "country_field \<equiv> ''shipToCountryGeo''"
abbreviation state_field :: string where "state_field \<equiv> ''shipToStateProvinceGeo''"
abbreviation state_advice :: string where "state_advice \<equiv> ''advice-required-shipToStateProvinceGeo''"

text \<open>The fields of the form \<open>shippingForm\<close> by name and id.\<close>

definition serialize_form :: "geo_page \<Rightarrow> (string \<times> string) list" where
  "serialize_form s =
     concat (map (\<lambda>(n, i). case geo_vals s i of None \<Rightarrow> [] | Some v \<Rightarrow> [(n, v)]) (geo_form s))"

definition callCountryAutocompleter :: "string list \<Rightarrow> geo_page \<Rightarrow> geo_page" where
  "callCountryAutocompleter countryList s =
     (if geo_vals s country_field = None then s else s\<lparr>countrySource := Some countryList\<rparr>)"

definition getCountryList :: "string list option \<Rightarrow> geo_page \<Rightarrow> geo_page" where
  "getCountryList answer s =
     (let s1 = s\<lparr>countryHidden := Some None, geo_requests := geo_requests s @ [(''getCountryList'', [])]\<rparr>
      in case answer of None \<Rightarrow> s1 | Some l \<Rightarrow> callCountryAutocompleter l s1)"

text \<open>The values that the code gives to fresh jQuery objects reach no field.\<close>

definition callStateAutocompleter :: "string list option \<Rightarrow> geo_page \<Rightarrow> geo_page" where
  "callStateAutocompleter stateList s =
     (case stateList of
        None \<Rightarrow> s\<lparr>uncaught := uncaught s @ [TypeError]\<rparr>
      | Some l \<Rightarrow>
          if \<not> prototype_js s then s\<lparr>uncaught := uncaught s @ [TypeError]\<rparr>
          else
            let present = geo_vals s state_field \<noteq> None;
                s1 = (if length l \<le> 1
                      then s\<lparr>geo_fades := geo_fades s @ [(''shipStates'', Fade_Out), (state_advice, Fade_Out)],
                             blur_handlers := 0\<rparr>
                      else s\<lparr>geo_fades := geo_fades s @ [(''shipStates'', Fade_In)],
                             blur_handlers := (if present then Suc (blur_handlers s) else blur_handlers s)\<rparr>)
            in if present then s1\<lparr>stateSource := Some l\<rparr> else s1)"

text \<open>The handler of a successful answer; a failed request has none.\<close>

definition getAssociatedStateListForAutoComplete :: "string list option option \<Rightarrow> geo_page \<Rightarrow> geo_page" where
  "getAssociatedStateListForAutoComplete answer s =
     (let s1 = s\<lparr>stateHidden := Some None, geo_requests := geo_requests s @ [(''getAssociatedStateList'', serialize_form s)]\<rparr>
      in case answer of None \<Rightarrow> s1 | Some l \<Rightarrow> callStateAutocompleter l s1)"

text \<open>Before the first request the global variables are not declared.\<close>

definition setKeyAsParameterAndGetStateList :: "string \<Rightarrow> string list option option \<Rightarrow> geo_page \<Rightarrow> geo_page result" where
  "setKeyAsParameterAndGetStateList item answer s =
     (case countryHidden s of
        None \<Rightarrow> Inl ReferenceError
      | Some _ \<Rightarrow> Inr (getAssociatedStateListForAutoComplete answer (s\<lparr>countryHidden := Some (Some item)\<rparr>)))"

definition setKeyAsParameter :: "string \<Rightarrow> geo_page \<Rightarrow> geo_page result" where
  "setKeyAsParameter item s =
     (case stateHidden s of None \<Rightarrow> Inl ReferenceError | Some _ \<Rightarrow> Inr (s\<lparr>stateHidden := Some (Some item)\<rparr>))"

text \<open>The completer calls the handler of a choice and then puts the chosen text into the field.\<close>

definition set_field :: "string \<Rightarrow> string \<Rightarrow> geo_page \<Rightarrow> geo_page" where
  "set_field i v s = (if geo_vals s i = None then s else s\<lparr>geo_vals := (geo_vals s)(i \<mapsto> v)\<rparr>)"

definition choose_country :: "string \<Rightarrow> string list option option \<Rightarrow> geo_page \<Rightarrow> geo_page result" where
  "choose_country item answer s =
     and_then (setKeyAsParameterAndGetStateList item answer s) (\<lambda>s. Inr (set_field country_field item s))"

definition choose_state :: "string \<Rightarrow> geo_page \<Rightarrow> geo_page result" where
  "choose_state item s = and_then (setKeyAsParameter item s) (\<lambda>s. Inr (set_field state_field item s))"

definition blur_state :: "geo_page \<Rightarrow> geo_page" where
  "blur_state s =
     (if geo_vals s state_field = Some []
      then s\<lparr>geo_fades := geo_fades s @ replicate (blur_handlers s) (state_advice, Fade_In)\<rparr> else s)"

inductive geo_step :: "geo_page \<Rightarrow> geo_page \<Rightarrow> bool" where
  countries: "geo_step s (getCountryList answer s)"
| typing: "i = country_field \<or> i = state_field \<Longrightarrow> geo_step s (set_field i v s)"
| country: "countrySource s = Some l \<Longrightarrow> item \<in> set l \<Longrightarrow> choose_country item answer s = Inr s' \<Longrightarrow> geo_step s s'"
| state: "stateSource s = Some l \<Longrightarrow> item \<in> set l \<Longrightarrow> choose_state item s = Inr s' \<Longrightarrow> geo_step s s'"
| blur: "geo_step s (blur_state s)"

section \<open>Statuses of a return\<close>

record return_page =
  returnHeaderType :: "string option"
  status_options :: "dropdown_option list option"
  has_prototype :: bool
  status_requests :: "string option list"
  status_errors :: "js_error list"

type_synonym status_item = "string option \<times> string option"

definition status_option :: "status_item \<Rightarrow> dropdown_option" where
  "status_option p =
     \<lparr>opt_value = unquoted (undef_text (fst p)), opt_text = '' '' @ undef_text (snd p) @ '' '', opt_selected = False\<rparr>"

definition status_success :: "status_item list option \<Rightarrow> return_page \<Rightarrow> return_page" where
  "status_success statusItems s =
     (let s1 = s\<lparr>status_options := map_option (\<lambda>_. []) (status_options s)\<rparr>
      in case statusItems of
           None \<Rightarrow> s1\<lparr>status_errors := status_errors s @ [TypeError]\<rparr>
         | Some l \<Rightarrow>
             if has_prototype s then s1\<lparr>status_options := map_option (\<lambda>os. os @ map status_option l) (status_options s1)\<rparr>
             else s1\<lparr>status_errors := status_errors s @ [TypeError]\<rparr>)"

definition changeStatusCorrespondingToHeaderType :: "status_item list option option \<Rightarrow> return_page \<Rightarrow> return_page" where
  "changeStatusCorrespondingToHeaderType answer s =
     (let s1 = s\<lparr>status_requests := status_requests s @ [returnHeaderType s]\<rparr>
      in case answer of None \<Rightarrow> s1 | Some l \<Rightarrow> status_success l s1)"

section \<open>Converted prices\<close>

text \<open>A request for a conversion keeps the row and the old prices of its call.  The prices are texts, a converted
  value is the text of its number; zero and a missing value are false.\<close>

record price_call =
  pc_row :: string
  pc_uom :: string
  pc_uom_to :: string
  pc_entered :: string
  pc_order_price :: string
  pc_unit_cost :: string

record price_page =
  price_field :: "string \<rightharpoonup> string"
  price_sent :: "(string \<times> (string \<times> string) list) list"
  price_pending :: "price_call option list"

definition getConvertedPrice :: "string \<Rightarrow> price_call \<Rightarrow> price_page \<Rightarrow> price_page" where
  "getConvertedPrice request c s =
     s\<lparr>price_sent := price_sent s @ [(request, [(''uomId'', pc_uom c), (''uomIdTo'', pc_uom_to c), (''originalValue'', pc_entered c)])],
       price_pending := price_pending s @ [Some c]\<rparr>"

definition set_price :: "string \<Rightarrow> string \<Rightarrow> (string \<rightharpoonup> string) \<Rightarrow> string \<rightharpoonup> string" where
  "set_price i v f = (if f i = None then f else f(i \<mapsto> v))"

definition unit_cost_id :: "string \<Rightarrow> string" where
  "unit_cost_id r = ''unitCost_'' @ r"

definition order_price_id :: "string \<Rightarrow> string" where
  "order_price_id r = ''orderCurrencyUnitPrice_'' @ r"

definition takes_price :: "string option \<Rightarrow> bool \<Rightarrow> bool" where
  "takes_price convertedValue confirmed \<longleftrightarrow>
     (case convertedValue of None \<Rightarrow> False | Some v \<Rightarrow> v \<noteq> [] \<and> v \<noteq> ''0'' \<and> confirmed)"

definition price_success :: "price_call \<Rightarrow> string option \<Rightarrow> bool \<Rightarrow> price_page \<Rightarrow> price_page" where
  "price_success c convertedValue confirmed s =
     s\<lparr>price_field :=
         (if takes_price convertedValue confirmed
          then set_price (unit_cost_id (pc_row c)) (the convertedValue) (price_field s)
          else set_price (unit_cost_id (pc_row c)) (pc_unit_cost c)
                 (set_price (order_price_id (pc_row c)) (pc_order_price c) (price_field s)))\<rparr>"

text \<open>The answers arrive in any order: each one names the pending call it belongs to, and ends it.\<close>

record price_answer =
  pa_call :: nat
  pa_value :: "string option"
  pa_confirmed :: bool

definition price_arrives :: "price_answer \<Rightarrow> price_page \<Rightarrow> price_page" where
  "price_arrives a s =
     (let i = pa_call a
      in if i < length (price_pending s) then
           (case price_pending s ! i of
              None \<Rightarrow> s
            | Some c \<Rightarrow> price_success c (pa_value a) (pa_confirmed a) (s\<lparr>price_pending := (price_pending s)[i := None]\<rparr>))
         else s)"

section \<open>Viewed orders\<close>

text \<open>The request with the fields of the form \<open>orderViewed\<close>, and what its answer does.\<close>

definition markOrderViewed :: "(string \<times> string) list \<Rightarrow> bool \<Rightarrow> (string \<times> (string \<times> string) list) \<times> (string \<times> effect) list" where
  "markOrderViewed orderViewed answered =
     ((''markOrderViewed'', orderViewed), if answered then [(''isViewed'', Fade_Out), (''viewed'', Fade_In)] else [])"

section \<open>What the completers do\<close>

lemma set_field_other: "i \<noteq> j \<Longrightarrow> geo_vals (set_field i v s) j = geo_vals s j"
  by (simp add: set_field_def)

lemma state_list_simps [simp]:
  "geo_vals (callStateAutocompleter l s) = geo_vals s" "geo_requests (callStateAutocompleter l s) = geo_requests s"
  "prototype_js (callStateAutocompleter l s) = prototype_js s"
  by (simp_all add: callStateAutocompleter_def Let_def split: option.splits)

lemma get_states_simps [simp]:
  "geo_vals (getAssociatedStateListForAutoComplete a s) = geo_vals s"
  "prototype_js (getAssociatedStateListForAutoComplete a s) = prototype_js s"
  "geo_requests (getAssociatedStateListForAutoComplete a s) = geo_requests s @ [(''getAssociatedStateList'', serialize_form s)]"
  by (simp_all add: getAssociatedStateListForAutoComplete_def Let_def split: option.splits)

lemma countries_simps [simp]:
  "geo_vals (getCountryList a s) = geo_vals s" "prototype_js (getCountryList a s) = prototype_js s"
  "stateSource (getCountryList a s) = stateSource s" "uncaught (getCountryList a s) = uncaught s"
  by (simp_all add: getCountryList_def callCountryAutocompleter_def Let_def split: option.splits)

lemma set_field_simps [simp]:
  "prototype_js (set_field i v s) = prototype_js s" "stateSource (set_field i v s) = stateSource s"
  "uncaught (set_field i v s) = uncaught s" "geo_requests (set_field i v s) = geo_requests s"
  by (simp_all add: set_field_def)

lemma chosen_country:
  "choose_country item answer s = Inr s' \<longleftrightarrow> countryHidden s \<noteq> None
    \<and> s' = set_field country_field item (getAssociatedStateListForAutoComplete answer (s\<lparr>countryHidden := Some (Some item)\<rparr>))"
  by (auto simp: choose_country_def setKeyAsParameterAndGetStateList_def split: option.splits)

lemma chosen_state:
  "choose_state item s = Inr s' \<longleftrightarrow> stateHidden s \<noteq> None \<and> s' = set_field state_field item (s\<lparr>stateHidden := Some (Some item)\<rparr>)"
  by (auto simp: choose_state_def setKeyAsParameter_def split: option.splits)

lemma blur_simps [simp]: "geo_vals (blur_state s) = geo_vals s" "stateSource (blur_state s) = stateSource s"
  by (simp_all add: blur_state_def)

lemma step_keeps_other: "geo_step s s' \<Longrightarrow> i \<notin> {country_field, state_field} \<Longrightarrow> geo_vals s' i = geo_vals s i"
proof (induction rule: geo_step.induct)
  case (country s l item answer s')
  then show ?case using set_field_other [of country_field i] by (auto simp: chosen_country)
next
  case (state s l item s')
  then show ?case using set_field_other [of state_field i] by (auto simp: chosen_state)
qed (auto simp: set_field_other)

text \<open>Whatever the user types and chooses, in any order and whatever the server answers, the two hidden fields for
  the identifiers of the country and the state keep the values that the page was loaded with.\<close>

lemma hidden_ids_never_filled:
  assumes "geo_step\<^sup>*\<^sup>* s s'"
  shows "geo_vals s' ''shipToCountryGeoId'' = geo_vals s ''shipToCountryGeoId''
    \<and> geo_vals s' ''shipToStateProvinceGeoId'' = geo_vals s ''shipToStateProvinceGeoId''"
  using assms
proof (induction rule: rtranclp_induct)
  case (step t u)
  then show ?case using step_keeps_other [OF step.hyps(2)] by simp
qed simp

definition shipping_page :: geo_page where
  "shipping_page = \<lparr>geo_vals = [country_field \<mapsto> ''Ita'', ''shipToCountryGeoId'' \<mapsto> ''USA''],
     geo_form = [(''country'', country_field), (''countryGeoId'', ''shipToCountryGeoId'')], prototype_js = True,
     countryHidden = Some None, stateHidden = None, countrySource = Some [''Italy'', ''Italia''], stateSource = None,
     blur_handlers = 0, geo_fades = [], geo_requests = [], uncaught = []\<rparr>"

definition italy_chosen :: geo_page where
  "italy_chosen = set_field country_field ''Italy''
     (getAssociatedStateListForAutoComplete (Some (Some [''Roma'', ''Milano''])) (shipping_page\<lparr>countryHidden := Some (Some ''Italy'')\<rparr>))"

lemma hidden_ids_never_filled_witness:
  "geo_vals italy_chosen country_field = Some ''Italy'' \<and> geo_vals italy_chosen ''shipToCountryGeoId'' = Some ''USA''"
proof -
  have "choose_country ''Italy'' (Some (Some [''Roma'', ''Milano''])) shipping_page = Inr italy_chosen"
    by (simp add: chosen_country italy_chosen_def) (simp add: shipping_page_def)
  then have "geo_step shipping_page italy_chosen"
    by (rule geo_step.country [rotated 2, where l = "[''Italy'', ''Italia'']"]) (simp_all add: shipping_page_def)
  then have "geo_step\<^sup>*\<^sup>* shipping_page italy_chosen" by simp
  from hidden_ids_never_filled [OF this] show ?thesis
    by (simp add: italy_chosen_def set_field_def) (simp add: shipping_page_def)
qed

text \<open>The request for the states is sent before the chosen country is in its field.\<close>

lemma choice_not_sent:
  "choose_country item answer s = Inr s' \<Longrightarrow> geo_requests s' = geo_requests s @ [(''getAssociatedStateList'', serialize_form s)]"
  by (auto simp: chosen_country serialize_form_def)

text \<open>Without Prototype the completer for the states is never attached, and every list of states is an exception.\<close>

lemma no_states_without_prototype:
  "geo_step\<^sup>*\<^sup>* s s' \<Longrightarrow> \<not> prototype_js s \<Longrightarrow> stateSource s = None \<Longrightarrow> \<not> prototype_js s' \<and> stateSource s' = None"
proof (induction rule: rtranclp_induct)
  case (step t u)
  have t: "\<not> prototype_js t" "stateSource t = None" using step by simp_all
  have states: "stateSource (getAssociatedStateListForAutoComplete a (t\<lparr>countryHidden := h\<rparr>)) = None" for a h
    using t by (simp add: getAssociatedStateListForAutoComplete_def callStateAutocompleter_def Let_def split: option.splits)
  from step.hyps(2) show ?case
    by (cases rule: geo_step.cases) (use t states in \<open>auto simp: chosen_country blur_state_def\<close>)
qed simp

lemma states_throw_without_prototype:
  "\<not> prototype_js s \<Longrightarrow> choose_country item (Some l) s = Inr s' \<Longrightarrow> uncaught s' = uncaught s @ [TypeError]"
  by (auto simp: chosen_country getAssociatedStateListForAutoComplete_def callStateAutocompleter_def Let_def split: option.splits)

section \<open>What the other scripts do\<close>

text \<open>A change of the type of a return empties the list of statuses; it is filled again with Prototype only.\<close>

lemma statuses_lost:
  "status_options s = Some os \<Longrightarrow>
    status_options (changeStatusCorrespondingToHeaderType (Some (Some l)) s)
      = Some (if has_prototype s then map status_option l else [])"
  by (simp add: changeStatusCorrespondingToHeaderType_def status_success_def Let_def)

lemma price_ids [simp]:
  "unit_cost_id r = unit_cost_id r' \<longleftrightarrow> r = r'" "unit_cost_id r \<noteq> order_price_id r'" "order_price_id r' \<noteq> unit_cost_id r"
  by (simp_all add: unit_cost_id_def order_price_id_def)

lemma price_success_fields:
  "price_field (price_success c v b s) i =
    (if i = unit_cost_id (pc_row c) \<and> price_field s i \<noteq> None
     then Some (if takes_price v b then the v else pc_unit_cost c)
     else if i = order_price_id (pc_row c) \<and> price_field s i \<noteq> None \<and> \<not> takes_price v b
     then Some (pc_order_price c) else price_field s i)"
  by (auto simp: price_success_def set_price_def)

lemma price_success_pending [simp]: "price_pending (price_success c v b s) = price_pending s"
  by (simp add: price_success_def)

lemma arrives_present: "price_field (price_arrives a s) i = None \<longleftrightarrow> price_field s i = None"
  by (auto simp: price_arrives_def Let_def price_success_fields split: option.splits)

lemma arrives_pending: "j \<noteq> pa_call a \<Longrightarrow> price_pending (price_arrives a s) ! j = price_pending s ! j"
  by (auto simp: price_arrives_def Let_def split: option.splits)

lemma arrives_length [simp]: "length (price_pending (price_arrives a s)) = length (price_pending s)"
  by (auto simp: price_arrives_def Let_def split: option.splits)

lemma arrives_none: "pa_call a < length (price_pending s) \<Longrightarrow> price_pending (price_arrives a s) ! pa_call a = None"
  by (auto simp: price_arrives_def Let_def split: option.splits)

text \<open>The pending calls after an answer are calls that were pending before it.\<close>

lemma arrives_subset:
  assumes "price_pending (price_arrives a s) ! j = Some c" "j < length (price_pending s)"
  shows "price_pending s ! j = Some c"
  using assms arrives_none [of a s] arrives_pending [of j a s] by (cases "j = pa_call a") auto

definition row_answered :: "price_page \<Rightarrow> price_answer \<Rightarrow> string option" where
  "row_answered s a =
     (if pa_call a < length (price_pending s) then map_option pc_row (price_pending s ! pa_call a) else None)"

lemma row_answered_later: "row_answered (price_arrives a s) b = Some r \<Longrightarrow> row_answered s b = Some r"
  using arrives_subset [of a s "pa_call b"] by (auto simp: row_answered_def split: if_splits)

lemma other_row_kept:
  assumes "row_answered s a \<noteq> Some r"
  shows "price_field (price_arrives a s) (unit_cost_id r) = price_field s (unit_cost_id r)"
  using assms by (auto simp: row_answered_def price_arrives_def Let_def price_success_fields split: option.splits)

lemma other_rows_kept:
  "\<forall>a \<in> set as. row_answered s a \<noteq> Some r \<Longrightarrow>
    price_field (fold price_arrives as s) (unit_cost_id r) = price_field s (unit_cost_id r)"
proof (induction as arbitrary: s)
  case (Cons a as)
  have "row_answered (price_arrives a s) b \<noteq> Some r" if "b \<in> set as" for b
    using Cons.prems that row_answered_later [of a s b r] by auto
  then have "price_field (fold price_arrives as (price_arrives a s)) (unit_cost_id r) = price_field (price_arrives a s) (unit_cost_id r)"
    by (intro Cons.IH) simp
  also have "\<dots> = price_field s (unit_cost_id r)" using Cons.prems by (intro other_row_kept) simp
  finally show ?case by simp
qed simp

lemma earlier_answers:
  "\<forall>b \<in> set as. pa_call b \<noteq> i \<Longrightarrow>
    price_pending (fold price_arrives as s) ! i = price_pending s ! i
    \<and> length (price_pending (fold price_arrives as s)) = length (price_pending s)
    \<and> (price_field (fold price_arrives as s) j = None \<longleftrightarrow> price_field s j = None)"
  by (induction as arbitrary: s) (auto simp: arrives_pending arrives_present)

text \<open>C21: when conversions are requested for several rows and the answers arrive in any order, the unit cost of a row
  is set by the last answer that arrives for it: the converted value when it is there and the user confirms it, and
  otherwise the price that was given with that request.\<close>

theorem last_price_answer_counts:
  assumes "i < length (price_pending s)" "price_pending s ! i = Some c" "price_field s (unit_cost_id (pc_row c)) \<noteq> None"
    and "\<forall>b \<in> set before. pa_call b \<noteq> i"
    and "\<forall>b \<in> set after. row_answered s b = Some (pc_row c) \<longrightarrow> pa_call b = i"
  shows "price_field (fold price_arrives (before @ \<lparr>pa_call = i, pa_value = v, pa_confirmed = ok\<rparr> # after) s)
      (unit_cost_id (pc_row c)) = Some (if takes_price v ok then the v else pc_unit_cost c)"
proof -
  let ?a = "\<lparr>pa_call = i, pa_value = v, pa_confirmed = ok\<rparr>" and ?f = "unit_cost_id (pc_row c)"
  let ?t = "fold price_arrives before s"
  have t: "price_pending ?t ! i = Some c" "i < length (price_pending ?t)" "price_field ?t ?f \<noteq> None"
    using earlier_answers [OF assms(4), of s ?f] assms(1-3) by simp_all
  have now: "price_field (price_arrives ?a ?t) ?f = Some (if takes_price v ok then the v else pc_unit_cost c)"
    using t by (simp add: price_arrives_def Let_def price_success_fields)
  have rows: "row_answered (fold price_arrives xs s) b = Some r \<Longrightarrow> row_answered s b = Some r" for xs b r
    by (induction xs arbitrary: s) (auto dest: row_answered_later)
  have "row_answered (price_arrives ?a ?t) b \<noteq> Some (pc_row c)" if b: "b \<in> set after" for b
  proof
    assume r: "row_answered (price_arrives ?a ?t) b = Some (pc_row c)"
    then have "row_answered s b = Some (pc_row c)" using rows row_answered_later by blast
    then have "pa_call b = i" using assms(5) b by blast
    then show False using r arrives_none [of ?a ?t] t(2) by (simp add: row_answered_def)
  qed
  then show ?thesis using other_rows_kept [of after "price_arrives ?a ?t" "pc_row c"] now by simp
qed

definition euro_call :: "string \<Rightarrow> price_call" where
  "euro_call r = \<lparr>pc_row = r, pc_uom = ''USD'', pc_uom_to = ''EUR'', pc_entered = ''10'', pc_order_price = ''10'', pc_unit_cost = ''9''\<rparr>"

definition two_calls :: price_page where
  "two_calls = \<lparr>price_field = [''unitCost_0'' \<mapsto> ''1'', ''unitCost_1'' \<mapsto> ''1''], price_sent = [],
     price_pending = [Some (euro_call ''0''), Some (euro_call ''1'')]\<rparr>"

theorem last_price_answer_counts_witness:
  "price_field (fold price_arrives
      [\<lparr>pa_call = 1, pa_value = None, pa_confirmed = True\<rparr>, \<lparr>pa_call = 0, pa_value = Some ''8.5'', pa_confirmed = True\<rparr>] two_calls)
    (unit_cost_id ''0'') = Some ''8.5''"
proof -
  let ?b = "\<lparr>pa_call = 1, pa_value = None, pa_confirmed = True\<rparr>"
  have "price_field (fold price_arrives ([?b] @ \<lparr>pa_call = 0, pa_value = Some ''8.5'', pa_confirmed = True\<rparr> # []) two_calls)
      (unit_cost_id (pc_row (euro_call ''0'')))
    = Some (if takes_price (Some ''8.5'') True then the (Some ''8.5'') else pc_unit_cost (euro_call ''0''))"
    by (rule last_price_answer_counts) (simp_all add: two_calls_def euro_call_def unit_cost_id_def)
  then show ?thesis by (simp add: euro_call_def takes_price_def)
qed

end
