(* ===== verification/Service_Calls.thy ===== *)
theory Service_Calls
  imports Url_Params
begin

text \<open>
  Calls of services and the small scripts around them: \<open>getServiceResult\<close> and \<open>checkUomConversion\<close> of
  \<open>miscAjaxFunctions.js\<close>, \<open>selectMultipleRelatedValues.js\<close>, \<open>setUserLocale.js\<close>, and the dialogs and confirmations
  that \<open>bindObservers\<close> of \<open>OfbizUtil.js\<close> attaches to the elements of a page.  What the server answers is an argument.
\<close>

section \<open>Results of services\<close>

text \<open>A service as the browser sees it: its answer to a request with the data, if there is one.  The request is
  synchronous; after a failure the variable with the result is \<open>undefined\<close>.\<close>

type_synonym 'd service = "string \<Rightarrow> (string \<times> string option) list \<Rightarrow> 'd option"

definition getServiceResult :: "'d service \<Rightarrow> string list \<Rightarrow> 'd option" where
  "getServiceResult server args = server (undef_text (if args = [] then None else Some (hd args))) (prepareAjaxData args)"

text \<open>The parameters are passed on as one argument; a list of them becomes one text, with commas.\<close>

definition checkUomConversion :: "(string \<Rightarrow> 'v option) service \<Rightarrow> string \<Rightarrow> string list \<Rightarrow> 'v option result" where
  "checkUomConversion server request params =
     (case getServiceResult server [request, join '','' params] of None \<Rightarrow> Inl TypeError | Some data \<Rightarrow> Inr (data ''exist''))"

section \<open>Related values\<close>

record related_page =
  rp_field :: "string \<Rightarrow> string option"
  rp_options :: "string \<Rightarrow> (string \<times> bool) list"
  rp_events :: "string list"

definition related_data :: "string \<Rightarrow> string \<Rightarrow> string \<Rightarrow> string \<Rightarrow> related_page \<Rightarrow> (string \<times> string option) list" where
  "related_data paramKey paramField ty typeValue s = [(paramKey, rp_field s paramField), (ty, Some typeValue)]"

text \<open>A field for several values selects the options whose values are in the list; without a list those with an
  empty value.\<close>

definition select_options :: "string list option \<Rightarrow> (string \<times> bool) list \<Rightarrow> (string \<times> bool) list" where
  "select_options vs os = map (\<lambda>(v, _). (v, v \<in> set (case vs of None \<Rightarrow> [[]] | Some l \<Rightarrow> l))) os"

definition related_success :: "string \<Rightarrow> string list option \<Rightarrow> related_page \<Rightarrow> related_page" where
  "related_success targetField selectedOptions s =
     s\<lparr>rp_options := (rp_options s)(targetField := select_options selectedOptions (rp_options s targetField)),
       rp_events := rp_events s @ [''click'', ''change'']\<rparr>"

definition selectMultipleRelatedValues ::
  "(string \<Rightarrow> string list option) service \<Rightarrow> string \<Rightarrow> string \<Rightarrow> string \<Rightarrow> string \<Rightarrow> string \<Rightarrow> string \<Rightarrow> string \<Rightarrow>
    related_page \<Rightarrow> related_page" where
  "selectMultipleRelatedValues server request paramKey paramField targetField ty typeValue responseName s =
     (case server request (related_data paramKey paramField ty typeValue s) of
        None \<Rightarrow> s
      | Some answer \<Rightarrow> related_success targetField (answer responseName) s)"

section \<open>The locale of the browser\<close>

text \<open>\<open>setUserLocale.js\<close> runs on every page of a session until the server has accepted the time zone.\<close>

record locale_session =
  setLocaleFromBrowser :: "string option"
  locale_requests :: "string list"

record locale_answer =
  error_message :: "string option"
  error_message_list :: "string list option"

definition load_page :: "string \<Rightarrow> locale_answer option \<Rightarrow> locale_session \<Rightarrow> locale_session" where
  "load_page tz answer s =
     (if setLocaleFromBrowser s = None \<or> setLocaleFromBrowser s \<noteq> Some ''done'' then
        let s1 = s\<lparr>locale_requests := locale_requests s @ [''localeName='' @ tz]\<rparr>
        in case answer of
             None \<Rightarrow> s1
           | Some r \<Rightarrow>
               if error_message r = None \<and> error_message_list r = None
               then s1\<lparr>setLocaleFromBrowser := Some ''done''\<rparr> else s1
      else s)"

section \<open>Dialogs and confirmations\<close>

text \<open>A click on an element with \<open>data-dialog-url\<close> adds a dialog to the document; its container is named after the id
  of the element; its size is left out.  Closing a dialog hides it, and removes the dialog around the first container
  with its name.\<close>

record page_dialog =
  pd_number :: nat
  pd_container :: string
  pd_title :: "string option"
  pd_shown :: bool
  pd_content :: string

record dialog_page =
  page_dialogs :: "page_dialog list"
  dialogs_made :: nat
  dialog_requests :: "(string option \<times> string option) list"

definition container_id :: "string option \<Rightarrow> string" where
  "container_id i = ''container_'' @ undef_text i"

definition click_dialog :: "string option \<Rightarrow> string option \<Rightarrow> string option \<Rightarrow> string option \<Rightarrow> dialog_page \<Rightarrow> dialog_page" where
  "click_dialog i url title params s =
     s\<lparr>page_dialogs := page_dialogs s @
         [\<lparr>pd_number = dialogs_made s, pd_container = container_id i, pd_title = title, pd_shown = True, pd_content = []\<rparr>],
       dialogs_made := Suc (dialogs_made s), dialog_requests := dialog_requests s @ [(url, params)]\<rparr>"

definition dialog_success :: "nat \<Rightarrow> string \<Rightarrow> dialog_page \<Rightarrow> dialog_page" where
  "dialog_success n data s =
     s\<lparr>page_dialogs := map (\<lambda>d. if pd_number d = n then d\<lparr>pd_content := data\<rparr> else d) (page_dialogs s)\<rparr>"

fun remove_container :: "string \<Rightarrow> page_dialog list \<Rightarrow> page_dialog list result" where
  "remove_container c [] = Inl TypeError"
| "remove_container c (d # ds) =
     (if pd_container d = c then Inr ds else and_then (remove_container c ds) (\<lambda>ds. Inr (d # ds)))"

definition close_page_dialog :: "page_dialog \<Rightarrow> dialog_page \<Rightarrow> dialog_page result" where
  "close_page_dialog d s =
     and_then
       (remove_container (pd_container d)
          (map (\<lambda>e. if pd_number e = pd_number d then e\<lparr>pd_shown := False\<rparr> else e) (page_dialogs s)))
       (\<lambda>ds. Inr (s\<lparr>page_dialogs := ds\<rparr>))"

text \<open>A click on an element with \<open>data-confirm-message\<close>: whether the browser goes on with it.\<close>

definition click_confirm :: "(string option \<Rightarrow> bool) \<Rightarrow> string option \<Rightarrow> bool \<Rightarrow> bool" where
  "click_confirm confirmed message goes_on = (if \<not> confirmed message then False else goes_on)"

section \<open>Lemmas\<close>

text \<open>The pairs given after the request arrive at the service as they are.\<close>

lemma service_gets_pairs:
  "kvs \<noteq> [] \<Longrightarrow> getServiceResult server (request # concat (map (\<lambda>(n, v). [n, v]) kvs))
    = server request (map (\<lambda>(n, v). (n, Some v)) kvs)"
  by (cases kvs) (auto simp: getServiceResult_def prepareAjaxData_def undef_text_def prepare_pairs_flatten)

text \<open>The check of a conversion never sends a unit under its name.\<close>

lemma conversion_sends_one_name:
  "checkUomConversion server request params =
    (case server request [(join '','' params, None)] of None \<Rightarrow> Inl TypeError | Some data \<Rightarrow> Inr (data ''exist''))"
  by (simp add: checkUomConversion_def getServiceResult_def prepareAjaxData_def undef_text_def)

text \<open>Related values: the options keep their order, and those in the list are selected.\<close>

lemma related_selected:
  "map fst (select_options vs os) = map fst os"
  "set (select_options (Some l) os) = (\<lambda>v. (v, v \<in> set l)) ` fst ` set os"
  by (auto simp: select_options_def split_def)

definition accepted :: "locale_answer option \<Rightarrow> bool" where
  "accepted a \<longleftrightarrow> (case a of None \<Rightarrow> False | Some r \<Rightarrow> error_message r = None \<and> error_message_list r = None)"

lemma load_page_done: "setLocaleFromBrowser s = Some ''done'' \<Longrightarrow> load_page tz a s = s"
  by (simp add: load_page_def)

lemma load_pages_done: "setLocaleFromBrowser s = Some ''done'' \<Longrightarrow> fold (load_page tz) as s = s"
  by (induction as) (simp_all add: load_page_done)

lemma load_page_open:
  "setLocaleFromBrowser s \<noteq> Some ''done'' \<Longrightarrow>
    locale_requests (load_page tz a s) = locale_requests s @ [''localeName='' @ tz]
    \<and> setLocaleFromBrowser (load_page tz a s) = (if accepted a then Some ''done'' else setLocaleFromBrowser s)"
  by (auto simp: load_page_def Let_def accepted_def split: option.splits)

text \<open>In a session that begins without the mark, every page sends the time zone of the browser up to and with the
  first page on which the server accepts it; later pages send nothing, and the session is marked exactly when an
  answer was accepted.\<close>

lemma locale_sent_until_accepted:
  assumes "setLocaleFromBrowser s \<noteq> Some ''done''"
  shows "locale_requests (fold (load_page tz) as s)
      = locale_requests s @ replicate (min (length as) (Suc (length (takeWhile (\<lambda>a. \<not> accepted a) as)))) (''localeName='' @ tz)
    \<and> (setLocaleFromBrowser (fold (load_page tz) as s) = Some ''done'') = (\<exists>a \<in> set as. accepted a)"
  using assms
proof (induction as arbitrary: s)
  case (Cons a as)
  show ?case
  proof (cases "accepted a")
    case True
    then have "setLocaleFromBrowser (load_page tz a s) = Some ''done''" using load_page_open [OF Cons.prems, of tz a] by simp
    then show ?thesis
      using True load_pages_done load_page_open [OF Cons.prems, of tz a] by simp
  next
    case False
    then have "setLocaleFromBrowser (load_page tz a s) \<noteq> Some ''done''"
      using load_page_open [OF Cons.prems, of tz a] Cons.prems by simp
    then show ?thesis using Cons.IH False load_page_open [OF Cons.prems, of tz a] by simp
  qed
qed simp

lemma locale_sent_until_accepted_witness:
  "locale_requests (fold (load_page ''Asia/Seoul'')
      [None, Some \<lparr>error_message = None, error_message_list = None\<rparr>, None] \<lparr>setLocaleFromBrowser = None, locale_requests = []\<rparr>)
    = [''localeName=Asia/Seoul'', ''localeName=Asia/Seoul'']"
  using locale_sent_until_accepted [of "\<lparr>setLocaleFromBrowser = None, locale_requests = []\<rparr>" "''Asia/Seoul''"
      "[None, Some \<lparr>error_message = None, error_message_list = None\<rparr>, None]"]
  by (simp add: accepted_def numeral_2_eq_2)

section \<open>Closing dialogs\<close>

lemma remove_own_container:
  "distinct (map pd_container ds) \<Longrightarrow> d \<in> set ds \<Longrightarrow> remove_container (pd_container d) ds = Inr (filter (\<lambda>e. pd_container e \<noteq> pd_container d) ds)"
proof (induction ds)
  case (Cons e ds)
  show ?case
  proof (cases "pd_container e = pd_container d")
    case True
    then have "filter (\<lambda>e. pd_container e \<noteq> pd_container d) ds = ds"
      using Cons.prems(1) by (intro filter_True ballI) (metis True distinct.simps(2) imageI list.simps(9) list.set_map)
    then show ?thesis using True by simp
  next
    case False
    then show ?thesis using Cons by auto
  qed
qed simp

text \<open>C22: as long as no two open dialogs come from elements with the same id, closing a dialog removes it from the
  document, leaves every other dialog as it is, and throws nothing.\<close>

theorem close_removes_own_dialog:
  assumes "distinct (map pd_container (page_dialogs s))" "distinct (map pd_number (page_dialogs s))" "d \<in> set (page_dialogs s)"
  shows "\<exists>s'. close_page_dialog d s = Inr s' \<and> page_dialogs s' = filter (\<lambda>e. e \<noteq> d) (page_dialogs s)"
proof -
  let ?h = "\<lambda>e. if pd_number e = pd_number d then e\<lparr>pd_shown := False\<rparr> else e"
  let ?ds = "page_dialogs s"
  have c: "pd_container (?h e) = pd_container e" for e by simp
  then have m: "map pd_container (map ?h ?ds) = map pd_container ?ds" by simp
  have "pd_container (?h d) = pd_container d" "?h d \<in> set (map ?h ?ds)" using assms(3) by auto
  then have r: "remove_container (pd_container d) (map ?h ?ds) = Inr (filter (\<lambda>e. pd_container e \<noteq> pd_container d) (map ?h ?ds))"
    using remove_own_container [of "map ?h ?ds" "?h d"] assms(1) unfolding m by simp
  have own: "pd_container e = pd_container d \<longleftrightarrow> e = d" "pd_number e = pd_number d \<longleftrightarrow> e = d" if "e \<in> set ?ds" for e
    using assms that by (auto simp: distinct_map dest: inj_onD)
  have "filter (\<lambda>e. pd_container e \<noteq> pd_container d) (map ?h ?ds) = map ?h (filter (\<lambda>e. e \<noteq> d) ?ds)"
    using own(1) by (auto simp: filter_map comp_def c intro!: arg_cong [of _ _ "map ?h"] filter_cong)
  also have "\<dots> = filter (\<lambda>e. e \<noteq> d) ?ds"
    using own(2) by (intro map_idI) auto
  finally show ?thesis using r by (simp add: close_page_dialog_def)
qed

definition note_dialog :: "string \<Rightarrow> nat \<Rightarrow> page_dialog" where
  "note_dialog i n = \<lparr>pd_number = n, pd_container = container_id (Some i), pd_title = None, pd_shown = True, pd_content = []\<rparr>"

definition two_dialogs :: dialog_page where
  "two_dialogs = \<lparr>page_dialogs = [note_dialog ''a'' 0, note_dialog ''b'' 1], dialogs_made = 2, dialog_requests = []\<rparr>"

theorem close_removes_own_dialog_witness:
  "\<exists>s'. close_page_dialog (note_dialog ''b'' 1) two_dialogs = Inr s' \<and> page_dialogs s' = [note_dialog ''a'' 0]"
proof -
  have "distinct (map pd_container (page_dialogs two_dialogs))" "distinct (map pd_number (page_dialogs two_dialogs))"
    "note_dialog ''b'' 1 \<in> set (page_dialogs two_dialogs)"
    by (simp_all add: two_dialogs_def note_dialog_def container_id_def undef_text_def)
  from close_removes_own_dialog [OF this] show ?thesis by (simp add: two_dialogs_def note_dialog_def)
qed

text \<open>A dialog opened within a dialog by an element without an id, as the first one was: closing the inner dialog
  removes the outer one, and leaves the inner one hidden in the document.\<close>

lemma nested_without_ids:
  assumes "page_dialogs s = []"
  shows "\<exists>s'. close_page_dialog (last (page_dialogs (click_dialog None v t' q (click_dialog None u t p s))))
      (click_dialog None v t' q (click_dialog None u t p s)) = Inr s'
    \<and> map (\<lambda>d. (pd_title d, pd_shown d)) (page_dialogs s') = [(t', False)]"
  using assms by (simp add: click_dialog_def close_page_dialog_def)

text \<open>Opening a dialog for an element that has none open, and closing it, gives the document back.\<close>

lemma click_then_close:
  assumes "container_id i \<notin> pd_container ` set (page_dialogs s)" "\<forall>d \<in> set (page_dialogs s). pd_number d < dialogs_made s"
  shows "\<exists>s'. close_page_dialog (last (page_dialogs (click_dialog i u t p s))) (click_dialog i u t p s) = Inr s'
    \<and> page_dialogs s' = page_dialogs s"
proof -
  let ?d = "\<lparr>pd_number = dialogs_made s, pd_container = container_id i, pd_title = t, pd_shown = False, pd_content = []\<rparr>"
  have own: "map (\<lambda>e. if pd_number e = dialogs_made s then e\<lparr>pd_shown := False\<rparr> else e) (page_dialogs s) = page_dialogs s"
    using assms(2) by (intro map_idI) auto
  have "container_id i \<notin> pd_container ` set ds \<Longrightarrow> remove_container (container_id i) (ds @ [?d]) = Inr ds" for ds
    by (induction ds) auto
  then show ?thesis using assms(1) own by (simp add: click_dialog_def close_page_dialog_def)
qed

end
