(* ===== verification/Inplace_Editor.thy ===== *)
theory Inplace_Editor
  imports Js_Prelude
begin

text \<open>
  Editing a displayed value in its place: \<open>ajaxInPlaceEditDisplayField\<close> of \<open>OfbizUtil.js\<close>.  The value that the user
  leaves is pasted into a JSON text, the text is parsed, and the object that comes out is merged into the parameters of
  the request.  Texts are lists of code units here, since an escape in the JSON text can produce any of them.  The
  plugin \<open>jeditable\<close> calls the function with the value and its settings; only the settings that the code reads are
  kept.
\<close>

section \<open>Parsing JSON\<close>

type_synonym units = "nat list"

definition codes :: "string \<Rightarrow> units" where
  "codes s = map of_char s"

definition hex_val :: "nat \<Rightarrow> nat option" where
  "hex_val c =
     (if 48 \<le> c \<and> c \<le> 57 then Some (c - 48)
      else if 65 \<le> c \<and> c \<le> 70 then Some (c - 55)
      else if 97 \<le> c \<and> c \<le> 102 then Some (c - 87)
      else None)"

text \<open>\<open>JSON.parse\<close> on the part that the code uses: an object whose values are strings.  The escapes of a string
  with one letter, in the order of the standard: quote, backslash, slash, b, f, n, r, t.\<close>

definition short_escapes :: "(nat \<times> nat) list" where
  "short_escapes = [(34, 34), (92, 92), (47, 47), (98, 8), (102, 12), (110, 10), (114, 13), (116, 9)]"

fun hex_escape :: "units \<Rightarrow> (nat \<times> units) option" where
  "hex_escape (a # b # c # d # r) =
     (case (hex_val a, hex_val b, hex_val c, hex_val d) of
        (Some w, Some x, Some y, Some z) \<Rightarrow> Some (((w * 16 + x) * 16 + y) * 16 + z, r)
      | _ \<Rightarrow> None)"
| "hex_escape _ = None"

definition json_escape :: "units \<Rightarrow> (nat \<times> units) option" where
  "json_escape s =
     (case s of
        [] \<Rightarrow> None
      | d # ds \<Rightarrow>
          if d = 117 then hex_escape ds
          else case map_of short_escapes d of None \<Rightarrow> None | Some e \<Rightarrow> Some (e, ds))"

lemma json_escape_shorter: "json_escape s = Some (e, r) \<Longrightarrow> length r < length s"
proof -
  have "hex_escape ds = Some (e, r) \<Longrightarrow> length r < length ds" for ds
    by (cases ds rule: hex_escape.cases) (auto split: option.splits)
  then show "json_escape s = Some (e, r) \<Longrightarrow> ?thesis"
    by (fastforce simp: json_escape_def split: list.splits if_splits option.splits)
qed

text \<open>The characters of a string up to the closing quote, and what follows it.\<close>

function json_chars :: "units \<Rightarrow> (units \<times> units) option" where
  "json_chars [] = None"
| "json_chars (c # cs) =
     (if c = 34 then Some ([], cs)
      else if c < 32 then None
      else if c = 92 then
        (case json_escape cs of
           None \<Rightarrow> None
         | Some (e, r) \<Rightarrow> map_option (\<lambda>(x, r). (e # x, r)) (json_chars r))
      else map_option (\<lambda>(x, r). (c # x, r)) (json_chars cs))"
  by pat_completeness auto
termination
  by (relation "measure length") (auto dest: json_escape_shorter)

definition skip_blank :: "units \<Rightarrow> units" where
  "skip_blank = dropWhile (\<lambda>c. c \<in> {9, 10, 13, 32})"

definition json_string :: "units \<Rightarrow> (units \<times> units) option" where
  "json_string s = (case skip_blank s of [] \<Rightarrow> None | c # cs \<Rightarrow> if c = 34 then json_chars cs else None)"

definition json_member :: "units \<Rightarrow> ((units \<times> units) \<times> units) option" where
  "json_member s =
     (case json_string s of
        None \<Rightarrow> None
      | Some (k, r) \<Rightarrow>
          (case skip_blank r of
             [] \<Rightarrow> None
           | c # cs \<Rightarrow>
               if c = 58 then map_option (\<lambda>(v, r). ((k, v), r)) (json_string cs) else None))"

text \<open>The members after the opening brace; the number bounds how many there are.\<close>

fun json_members :: "nat \<Rightarrow> units \<Rightarrow> (units \<times> units) list option" where
  "json_members 0 s = None"
| "json_members (Suc n) s =
     (case json_member s of
        None \<Rightarrow> None
      | Some (m, r) \<Rightarrow>
          (case skip_blank r of
             [] \<Rightarrow> None
           | c # cs \<Rightarrow>
               if c = 44 then map_option ((#) m) (json_members n cs)
               else if c = 125 \<and> skip_blank cs = [] then Some [m] else None))"

text \<open>Of two members with a name the later one counts.\<close>

definition parseJSON :: "units \<Rightarrow> (units \<rightharpoonup> units) result" where
  "parseJSON s =
     (case skip_blank s of
        [] \<Rightarrow> Inl SyntaxError
      | c # cs \<Rightarrow>
          if c = 123 then
            (case json_members (length cs) cs of None \<Rightarrow> Inl SyntaxError | Some ms \<Rightarrow> Inr (map_of (rev ms)))
          else Inl SyntaxError)"

section \<open>The editor\<close>

datatype fade_step = Fade_Away nat | Fade_Back nat

record editor_settings =
  set_name :: units
  set_method :: string

record inplace =
  submitdata :: "units \<rightharpoonup> units"
  shown_text :: units
  shown_background :: string
  fades :: "fade_step list"
  submissions :: "(string \<times> string \<times> (units \<rightharpoonup> units)) list"

definition editor_mouseover :: "inplace \<Rightarrow> inplace" where
  "editor_mouseover s = s\<lparr>shown_background := ''rgb(255, 255, 153)''\<rparr>"

definition editor_mouseout :: "inplace \<Rightarrow> inplace" where
  "editor_mouseout s = s\<lparr>shown_background := ''transparent''\<rparr>"

text \<open>Line feeds become blanks, and double quotes the entity of HTML.\<close>

definition clean_value :: "units \<Rightarrow> units" where
  "clean_value v = concat (map (\<lambda>c. if c = 10 then [32] else if c = 34 then codes ''&quot;'' else [c]) v)"

definition field_json :: "units \<Rightarrow> units \<Rightarrow> units" where
  "field_json n v = [123, 34] @ n @ [34, 58, 34] @ v @ [34, 125]"

definition editor_submit :: "string \<Rightarrow> editor_settings \<Rightarrow> units \<Rightarrow> inplace \<Rightarrow> inplace result" where
  "editor_submit url cfg v s =
     and_then (parseJSON (field_json (set_name cfg) (clean_value v)))
       (\<lambda>resultField.
          let merged = submitdata s ++ resultField
          in Inr (s\<lparr>submitdata := merged, submissions := submissions s @ [(set_method cfg, url, merged)]\<rparr>))"

text \<open>When the answer arrives, the cleaned value is shown as text and the element blinks.\<close>

definition editor_success :: "units \<Rightarrow> inplace \<Rightarrow> inplace" where
  "editor_success v s =
     s\<lparr>shown_text := clean_value v, fades := fades s @ [Fade_Away 500, Fade_Back 500, Fade_Away 500, Fade_Back 500],
       shown_background := ''transparent''\<rparr>"

section \<open>What is sent\<close>

definition plain_units :: "units \<Rightarrow> bool" where
  "plain_units x \<longleftrightarrow> (\<forall>c \<in> set x. 32 \<le> c \<and> c \<noteq> 34 \<and> c \<noteq> 92)"

lemma plain_units_simps [simp]:
  "plain_units []" "plain_units (c # x) \<longleftrightarrow> 32 \<le> c \<and> c \<noteq> 34 \<and> c \<noteq> 92 \<and> plain_units x"
  by (auto simp: plain_units_def)

lemma json_chars_plain: "plain_units x \<Longrightarrow> json_chars (x @ 34 # r) = Some (x, r)"
  by (induction x) auto

lemma quote_not_hex [simp]: "hex_val 34 = None"
  by (simp add: hex_val_def)

lemma hex_escape_digits: "hex_escape s = Some (e, r) \<Longrightarrow> \<exists>x. s = x @ r \<and> length x = 4 \<and> 34 \<notin> set x"
  by (cases s rule: hex_escape.cases) (auto split: option.splits intro!: exI [of _ "take 4 s"])

lemma hex_escape_within:
  assumes "hex_escape (w @ 34 # t) = Some (e, r)"
  shows "\<exists>w'. r = w' @ 34 # t \<and> set w' \<subseteq> set w \<and> length w' < length w"
proof -
  obtain x where x: "w @ 34 # t = x @ r" "length x = 4" "34 \<notin> set x" using hex_escape_digits [OF assms] by blast
  then obtain us where "w = x @ us \<and> us @ 34 # t = r \<or> w @ us = x \<and> 34 # t = us @ r" by (auto simp: append_eq_append_conv2)
  then have "w = x @ us \<and> us @ 34 # t = r"
  proof
    assume a: "w @ us = x \<and> 34 # t = us @ r"
    then have "us = []" using x(3) by (cases us) auto
    then show ?thesis using a by simp
  qed simp
  then show ?thesis using x(2) by (intro exI [of _ us]) auto
qed

lemma json_escape_within:
  assumes "34 \<notin> set w" "w \<noteq> []" "json_escape (w @ 34 # t) = Some (e, r)"
  shows "\<exists>w'. r = w' @ 34 # t \<and> set w' \<subseteq> set w \<and> length w' < length w"
proof -
  obtain d ds where w: "w = d # ds" using assms(2) by (cases w) auto
  show ?thesis
  proof (cases "d = 117")
    case True
    then have "hex_escape (ds @ 34 # t) = Some (e, r)" using assms(3) w by (simp add: json_escape_def)
    then obtain w' where "r = w' @ 34 # t" "set w' \<subseteq> set ds" "length w' < length ds"
      using hex_escape_within by blast
    then show ?thesis using w by (intro exI [of _ w']) auto
  next
    case False
    then have "r = ds @ 34 # t" using assms(3) w by (auto simp: json_escape_def split: option.splits)
    then show ?thesis using w by auto
  qed
qed

text \<open>Without a quote inside, a string ends at the quote that the code adds, or not at all; an escape makes it shorter.\<close>

lemma json_chars_quoted:
  "34 \<notin> set v \<Longrightarrow> json_chars (v @ [34, 125]) = Some (x, r) \<Longrightarrow>
    r = [125] \<and> length x \<le> length v \<and> (92 \<in> set v \<longrightarrow> length x < length v)"
proof (induction v arbitrary: x r rule: length_induct)
  case (1 v)
  show ?case
  proof (cases v)
    case Nil
    then show ?thesis using 1 by simp
  next
    case (Cons c w)
    note step = 1(3) [unfolded Cons, simplified]
    have c: "c \<noteq> 34" "\<not> c < 32" using 1(2) step by (auto simp: Cons split: if_splits)
    show ?thesis
    proof (cases "c = 92")
      case True
      have w: "w \<noteq> []"
      proof
        assume "w = []"
        then show False using step c True by (simp add: json_escape_def short_escapes_def)
      qed
      obtain e r1 y where e: "json_escape (w @ [34, 125]) = Some (e, r1)" "json_chars r1 = Some (y, r)" "x = e # y"
        using step c True by (auto split: option.splits)
      obtain w' where w': "r1 = w' @ [34, 125]" "set w' \<subseteq> set w" "length w' < length w"
        using json_escape_within [OF _ w, of "[125]"] e(1) 1(2) Cons by auto
      have "r = [125] \<and> length y \<le> length w'" using 1(1) [rule_format, of w' y r] w' e(2) 1(2) Cons by auto
      then show ?thesis using w'(3) e(3) Cons by simp
    next
      case False
      then obtain y where y: "json_chars (w @ [34, 125]) = Some (y, r)" "x = c # y"
        using step c by auto
      have "r = [125] \<and> length y \<le> length w \<and> (92 \<in> set w \<longrightarrow> length y < length w)"
        using 1(1) [rule_format, of w y r] y(1) 1(2) Cons by auto
      then show ?thesis using y(2) Cons False by auto
    qed
  qed
qed

lemma json_chars_no_control: "92 \<notin> set v \<Longrightarrow> 34 \<notin> set v \<Longrightarrow> json_chars (v @ 34 # t) = Some (x, r) \<Longrightarrow> plain_units v"
  by (induction v arbitrary: x) (auto split: if_splits)

text \<open>A backslash at the end of a value takes the closing quote for itself.\<close>

lemma json_chars_open: "plain_units v \<Longrightarrow> json_chars (v @ [92, 34, 125]) = None"
  by (induction v) (auto simp: json_escape_def short_escapes_def)

lemma clean_value_simps [simp]:
  "clean_value [] = []" "clean_value (c # v) = (if c = 10 then [32] else if c = 34 then codes ''&quot;'' else [c]) @ clean_value v"
  "clean_value (v @ w) = clean_value v @ clean_value w"
  by (simp_all add: clean_value_def)

lemma quot_units: "codes ''&quot;'' = [38, 113, 117, 111, 116, 59]"
  by (simp add: codes_def)

lemma clean_no_quote: "34 \<notin> set (clean_value v)"
  by (induction v) (auto simp: quot_units)

lemma clean_backslash: "92 \<in> set (clean_value v) \<longleftrightarrow> 92 \<in> set v"
  by (induction v) (auto simp: quot_units)

lemma clean_plain: "plain_units (clean_value v) \<longleftrightarrow> (\<forall>c \<in> set v. c \<noteq> 92 \<and> (32 \<le> c \<or> c = 10))"
  by (induction v) (auto simp: quot_units plain_units_def)

text \<open>So the text that the code parses has one member at most.\<close>

lemma skip_blank_step [simp]: "c \<notin> {9, 10, 13, 32} \<Longrightarrow> skip_blank (c # r) = c # r" "skip_blank [] = []"
  by (auto simp: skip_blank_def)

lemma parse_field:
  assumes "plain_units n" "34 \<notin> set v"
  shows "parseJSON (field_json n v) =
    (case json_chars (v @ [34, 125]) of None \<Rightarrow> Inl SyntaxError | Some (x, r) \<Rightarrow> Inr [n \<mapsto> x])"
proof -
  have m: "json_member (34 # n @ [34, 58, 34] @ v @ [34, 125]) =
      map_option (\<lambda>(x, r). ((n, x), r)) (json_chars (v @ [34, 125]))"
    using json_chars_plain [OF assms(1), of "[58, 34] @ v @ [34, 125]"] by (simp add: json_member_def json_string_def)
  show ?thesis
  proof (cases "json_chars (v @ [34, 125])")
    case None
    then show ?thesis using m by (simp add: parseJSON_def field_json_def)
  next
    case (Some p)
    obtain x r where p: "p = (x, r)" by (cases p)
    have "r = [125]" using json_chars_quoted [OF assms(2)] Some p by blast
    then show ?thesis using m Some p by (simp add: parseJSON_def field_json_def)
  qed
qed

lemma submit_result:
  assumes "plain_units (set_name cfg)"
  shows "editor_submit url cfg v s =
    (case json_chars (clean_value v @ [34, 125]) of
       None \<Rightarrow> Inl SyntaxError
     | Some (x, r) \<Rightarrow>
         let merged = (submitdata s)(set_name cfg \<mapsto> x)
         in Inr (s\<lparr>submitdata := merged, submissions := submissions s @ [(set_method cfg, url, merged)]\<rparr>))"
  using parse_field [OF assms clean_no_quote]
  by (auto simp: editor_submit_def Let_def split: option.splits)

text \<open>C10: whatever the user enters, quotes, braces and commas included, the submission changes no parameter but the
  one of the edited field: the parameters that were set before are sent as they are, in one request.\<close>

theorem value_stays_in_field:
  assumes "plain_units (set_name cfg)" "editor_submit url cfg v s = Inr s'"
  shows "\<exists>x. submitdata s' = (submitdata s)(set_name cfg \<mapsto> x)
    \<and> submissions s' = submissions s @ [(set_method cfg, url, submitdata s')]
    \<and> shown_text s' = shown_text s"
  using assms(2) by (auto simp: submit_result [OF assms(1)] Let_def split: option.splits)

definition note_settings :: editor_settings where
  "note_settings = \<lparr>set_name = codes ''note'', set_method = ''POST''\<rparr>"

definition note_editor :: inplace where
  "note_editor = \<lparr>submitdata = [codes ''id'' \<mapsto> codes ''7''], shown_text = [], shown_background = '''', fades = [],
     submissions = []\<rparr>"

lemma note_codes:
  "codes ''note'' = [110, 111, 116, 101]" "codes ''id'' = [105, 100]" "codes ''7'' = [55]"
  by (simp_all add: codes_def)

lemma note_plain: "plain_units (set_name note_settings)"
  by (simp add: note_settings_def note_codes)

theorem value_stays_in_field_witness:
  "\<exists>s'. editor_submit ''update'' note_settings (codes [CHR 0x22, CHR '','', CHR 0x22]) note_editor = Inr s'
    \<and> submitdata s' (codes ''id'') = Some (codes ''7'')"
proof -
  let ?v = "codes [CHR 0x22, CHR '','', CHR 0x22]"
  have "\<exists>s'. editor_submit ''update'' note_settings ?v note_editor = Inr s'"
    by (simp add: submit_result [OF note_plain] Let_def codes_def)
  then obtain s' where s: "editor_submit ''update'' note_settings ?v note_editor = Inr s'" by blast
  from value_stays_in_field [OF note_plain s] s show ?thesis
    by (auto simp: note_settings_def note_editor_def note_codes)
qed

text \<open>C20: the field is sent as the cleaned value exactly when the value holds no backslash and no control character
  other than a line feed; with a backslash it is sent as something else, or the submission throws.\<close>

theorem sent_as_entered:
  assumes "plain_units (set_name cfg)"
  shows "(\<exists>s'. editor_submit url cfg v s = Inr s' \<and> submitdata s' (set_name cfg) = Some (clean_value v))
    = (\<forall>c \<in> set v. c \<noteq> 92 \<and> (32 \<le> c \<or> c = 10))"
proof (cases "plain_units (clean_value v)")
  case True
  then show ?thesis
    using json_chars_plain [OF True, of "[125]"] clean_plain [of v] by (simp add: submit_result [OF assms] Let_def)
next
  case False
  have "x \<noteq> clean_value v" if x: "json_chars (clean_value v @ [34, 125]) = Some (x, r)" for x r
  proof (cases "92 \<in> set (clean_value v)")
    case True
    then show ?thesis using json_chars_quoted [OF clean_no_quote x] by auto
  next
    case no: False
    then show ?thesis using json_chars_no_control [OF no clean_no_quote, of "[125]"] x False by auto
  qed
  then show ?thesis
    using False clean_plain [of v] by (auto simp: submit_result [OF assms] Let_def split: option.splits)
qed

theorem sent_as_entered_witness:
  "\<exists>s'. editor_submit ''update'' note_settings (codes ''ok'') note_editor = Inr s'
    \<and> submitdata s' (codes ''note'') = Some (codes ''ok'')"
proof -
  have n: "set_name note_settings = codes ''note''" by (simp add: note_settings_def)
  have v: "codes ''ok'' = [111, 107]" by (simp add: codes_def)
  then have "clean_value (codes ''ok'') = codes ''ok''" by simp
  then show ?thesis
    using sent_as_entered [OF note_plain, of "''update''" "codes ''ok''" note_editor] v n by auto
qed

text \<open>A value that ends with a backslash, and is plain before it, cannot be submitted: the JSON text has no end
  and parsing it throws.\<close>

lemma last_backslash_throws:
  assumes "plain_units (set_name cfg)" "\<forall>c \<in> set v. c \<noteq> 92 \<and> (32 \<le> c \<or> c = 10)"
  shows "editor_submit url cfg (v @ [92]) s = Inl SyntaxError"
  using json_chars_open [of "clean_value v"] clean_plain [of v] assms by (simp add: submit_result)

lemma last_backslash_throws_witness:
  "editor_submit ''update'' note_settings (codes ''C:'' @ [92]) note_editor = Inl SyntaxError"
  by (rule last_backslash_throws [OF note_plain]) (simp add: codes_def)

text \<open>What a user typed as backslash and n arrives as a line feed; the line feeds of the value arrive as blanks.\<close>

lemma backslash_n_is_line_feed:
  "\<exists>s'. editor_submit url note_settings (codes ''a'' @ [92] @ codes ''nb'') note_editor = Inr s'
    \<and> submitdata s' (codes ''note'') = Some (codes ''a'' @ [10] @ codes ''b'')"
proof -
  have c: "json_chars (clean_value (codes ''a'' @ [92] @ codes ''nb'') @ [34, 125]) = Some ([97, 10, 98], [125])"
    by (simp add: codes_def json_escape_def short_escapes_def)
  show ?thesis
    unfolding submit_result [OF note_plain] c
    by (simp add: Let_def note_settings_def) (simp add: codes_def)
qed

text \<open>After the answer a quote is shown as the name of its entity.\<close>

lemma quote_shown_as_entity: "shown_text (editor_success [34] s) = codes ''&quot;''"
  by (simp add: editor_success_def)

end
