(* ===== verification/Form_Fields.thy ===== *)
theory Form_Fields
  imports Js_Prelude
begin

text \<open>
  The form of a field and the fields of a form: \<open>getForm\<close> and \<open>getFormFields\<close> of \<open>OfbizUtil.js\<close>, by which the
  select-all boxes find the boxes they belong to.  They are compared with the form owner of HTML: the form that the
  attribute \<open>form\<close> names, or else the form around the field.
\<close>

section \<open>The page\<close>

text \<open>A field is known by its number; \<open>inside\<close> is the place of the form around it.  Forms do not nest; the ids belong
  to forms and are free of the special characters of selectors.\<close>

record form_field =
  ff_number :: nat
  form_attr :: "string option"
  inside :: "nat option"

record forms_page =
  form_ids :: "string option list"
  all_fields :: "form_field list"

definition form_with_id :: "forms_page \<Rightarrow> string \<Rightarrow> nat option" where
  "form_with_id p i = find (\<lambda>k. form_ids p ! k = Some i) [0..<length (form_ids p)]"

section \<open>The functions\<close>

text \<open>The functions work on sets of elements, here of no form or of one.  An empty text is no selector: looking for the
  id \<open>#\<close>, or for an attribute without a value, throws.\<close>

definition getForm :: "forms_page \<Rightarrow> form_field \<Rightarrow> nat option result" where
  "getForm p f =
     (case form_attr f of
        None \<Rightarrow> Inr (inside f)
      | Some i \<Rightarrow> if i = [] then Inl Thrown else Inr (form_with_id p i))"

definition getFormFields :: "forms_page \<Rightarrow> nat option \<Rightarrow> form_field list result" where
  "getFormFields p form =
     (case form of
        None \<Rightarrow> Inr []
      | Some k \<Rightarrow>
          let found = filter (\<lambda>f. inside f = Some k) (all_fields p)
          in case form_ids p ! k of
               None \<Rightarrow> Inr found
             | Some i \<Rightarrow>
                 if i = [] then Inl Thrown else Inr (found @ filter (\<lambda>f. form_attr f = Some i) (all_fields p)))"

definition fields_with :: "forms_page \<Rightarrow> form_field \<Rightarrow> form_field list result" where
  "fields_with p f = and_then (getForm p f) (getFormFields p)"

section \<open>The form owner\<close>

definition form_owner :: "forms_page \<Rightarrow> form_field \<Rightarrow> nat option" where
  "form_owner p f = (case form_attr f of None \<Rightarrow> inside f | Some i \<Rightarrow> form_with_id p i)"

text \<open>Ids are not empty and no two forms share one, and a field inside a form names no other form.\<close>

definition tidy_forms :: "forms_page \<Rightarrow> bool" where
  "tidy_forms p \<longleftrightarrow>
     Some [] \<notin> set (form_ids p)
     \<and> (\<forall>j < length (form_ids p). \<forall>k < length (form_ids p). form_ids p ! j \<noteq> None \<longrightarrow> form_ids p ! j = form_ids p ! k \<longrightarrow> j = k)
     \<and> (\<forall>f \<in> set (all_fields p). form_attr f \<noteq> Some []
          \<and> (\<forall>k. inside f = Some k \<longrightarrow> k < length (form_ids p) \<and> (form_attr f = None \<or> form_attr f = form_ids p ! k)))"

lemma form_with_idD: "form_with_id p i = Some k \<Longrightarrow> k < length (form_ids p) \<and> form_ids p ! k = Some i"
  by (auto simp: form_with_id_def find_Some_iff)

lemma tidy_id:
  assumes "tidy_forms p" "k < length (form_ids p)"
  shows "form_with_id p i = Some k \<longleftrightarrow> form_ids p ! k = Some i"
proof
  assume i: "form_ids p ! k = Some i"
  then obtain j where j: "form_with_id p i = Some j"
    using assms(2) by (cases "form_with_id p i") (auto simp: form_with_id_def find_None_iff)
  then have "form_ids p ! j = form_ids p ! k" "j < length (form_ids p)" using form_with_idD i by auto
  then have "j = k" using assms i unfolding tidy_forms_def by (metis option.distinct(1))
  then show "form_with_id p i = Some k" using j by simp
qed (use form_with_idD in blast)

lemma tidy_field:
  assumes "tidy_forms p" "f \<in> set (all_fields p)"
  shows "form_attr f \<noteq> Some []" "inside f = Some k \<Longrightarrow> k < length (form_ids p)"
    "inside f = Some k \<Longrightarrow> form_attr f = None \<or> form_attr f = form_ids p ! k"
  using assms by (auto simp: tidy_forms_def)

lemma tidy_owner:
  assumes "tidy_forms p" "f \<in> set (all_fields p)" "k < length (form_ids p)"
  shows "form_owner p f = Some k \<longleftrightarrow> inside f = Some k \<or> form_ids p ! k \<noteq> None \<and> form_attr f = form_ids p ! k"
proof (cases "form_attr f")
  case None
  then show ?thesis by (auto simp: form_owner_def)
next
  case (Some i)
  then have "form_owner p f = Some k \<longleftrightarrow> form_ids p ! k = Some i" using tidy_id [OF assms(1,3)] by (simp add: form_owner_def)
  then show ?thesis using Some tidy_field(3) [OF assms(1,2), of k] by auto
qed

text \<open>C23: on a page where no two forms share an id and no field inside a form names another form, the fields found for
  a field are exactly those that have its form owner in HTML, itself among them; for a field without an owner there are
  none.\<close>

theorem fields_of_same_owner:
  assumes "tidy_forms p" "f \<in> set (all_fields p)"
  shows "\<exists>fs. fields_with p f = Inr fs
    \<and> set fs = {g \<in> set (all_fields p). form_owner p f \<noteq> None \<and> form_owner p g = form_owner p f}"
proof -
  have get: "getForm p f = Inr (form_owner p f)"
    using tidy_field(1) [OF assms] by (auto simp: getForm_def form_owner_def split: option.splits)
  show ?thesis
  proof (cases "form_owner p f")
    case None
    then show ?thesis using get by (simp add: fields_with_def getFormFields_def)
  next
    case (Some k)
    then have k: "k < length (form_ids p)"
      using tidy_field(2) [OF assms] form_with_idD by (auto simp: form_owner_def split: option.splits)
    then have "form_ids p ! k \<in> set (form_ids p)" by simp
    then have "form_ids p ! k \<noteq> Some []" using assms(1) unfolding tidy_forms_def by metis
    then obtain fs where fs: "getFormFields p (Some k) = Inr fs"
      "set fs = {g \<in> set (all_fields p). inside g = Some k \<or> form_ids p ! k \<noteq> None \<and> form_attr g = form_ids p ! k}"
      by (cases "form_ids p ! k") (auto simp: getFormFields_def Let_def)
    then have "set fs = {g \<in> set (all_fields p). form_owner p g = Some k}" using tidy_owner [OF assms(1) _ k] by blast
    then show ?thesis using get fs(1) Some by (simp add: fields_with_def)
  qed
qed

definition two_forms :: forms_page where
  "two_forms = \<lparr>form_ids = [Some ''a'', None],
     all_fields = [\<lparr>ff_number = 0, form_attr = None, inside = Some 0\<rparr>, \<lparr>ff_number = 1, form_attr = Some ''a'', inside = None\<rparr>,
       \<lparr>ff_number = 2, form_attr = None, inside = Some 1\<rparr>]\<rparr>"

theorem fields_of_same_owner_witness:
  "\<exists>fs. fields_with two_forms \<lparr>ff_number = 1, form_attr = Some ''a'', inside = None\<rparr> = Inr fs \<and> ff_number ` set fs = {0, 1}"
proof -
  have "tidy_forms two_forms" "\<lparr>ff_number = 1, form_attr = Some ''a'', inside = None\<rparr> \<in> set (all_fields two_forms)"
    by (simp_all add: tidy_forms_def two_forms_def All_less_Suc)
  note found = fields_of_same_owner [OF this]
  have "form_with_id two_forms ''a'' = Some 0" by (simp add: two_forms_def form_with_id_def)
  then have own: "form_owner two_forms \<lparr>ff_number = 1, form_attr = Some ''a'', inside = None\<rparr> = Some 0"
    "form_owner two_forms \<lparr>ff_number = 0, form_attr = None, inside = Some 0\<rparr> = Some 0"
    "form_owner two_forms \<lparr>ff_number = 2, form_attr = None, inside = Some 1\<rparr> = Some 1"
    by (simp_all add: form_owner_def)
  have "all_fields two_forms = [\<lparr>ff_number = 0, form_attr = None, inside = Some 0\<rparr>,
      \<lparr>ff_number = 1, form_attr = Some ''a'', inside = None\<rparr>, \<lparr>ff_number = 2, form_attr = None, inside = Some 1\<rparr>]"
    by (simp add: two_forms_def)
  then have n: "ff_number ` set (filter (\<lambda>g. form_owner two_forms g = Some 0) (all_fields two_forms)) = {0, 1}"
    using own by (simp del: set_filter)
  obtain fs where fs: "fields_with two_forms \<lparr>ff_number = 1, form_attr = Some ''a'', inside = None\<rparr> = Inr fs"
    "set fs = {g \<in> set (all_fields two_forms). Some 0 \<noteq> (None :: nat option) \<and> form_owner two_forms g = Some 0}"
    using found unfolding own(1) by blast
  then have "set fs = set (filter (\<lambda>g. form_owner two_forms g = Some 0) (all_fields two_forms))" by simp
  then show ?thesis using fs(1) n by simp
qed

text \<open>A field inside a form that names its own form is found twice; one that names another form is found with the
  fields of both.\<close>

lemma field_found_twice:
  "getFormFields \<lparr>form_ids = [Some ''a''], all_fields = [f\<lparr>form_attr := Some ''a'', inside := Some 0\<rparr>]\<rparr> (Some 0)
    = Inr (replicate 2 (f\<lparr>form_attr := Some ''a'', inside := Some 0\<rparr>))"
  by (simp add: getFormFields_def numeral_2_eq_2)

lemma field_of_other_form_found:
  assumes "f \<in> set (all_fields p)" "inside f = Some k" "getFormFields p (Some k) = Inr fs"
  shows "f \<in> set fs"
  using assms by (auto simp: getFormFields_def Let_def split: option.splits if_splits)

end
