(* ===== verification/Spec2Isabelle.thy ===== *)
theory Spec2Isabelle
  imports Url_Params Ajax_Areas Form_Widgets Select_All Screenlet Shipping_Info Autocompleter Menu_Combobox Lookup_Page
    Gantt_Page Gantt_Valid Portal Messages Timezone_Loading Timezone_Text
    Order_Pages Service_Calls Inplace_Editor Form_Fields
begin

text \<open>
  The scripts that the application ships itself: the common theme's utilities
  (\<open>themes/common/webapp/common/js/util\<close>), its Gantt chart (\<open>plugins/jsgantt/jsgantt.js\<close>) and the scripts of the
  order pages (\<open>applications/commonext/webapp/ordermgr-js\<close>).  They run in the page of a browser, one handler at
  a time; what they share is the page, a few global variables and the requests they have sent.

  \<^bold>\<open>How the code is modelled.\<close>  A handler is a function on the state it works on: the part of the page it reads
  and writes and the global variables it uses, as a record.  Requests are recorded in the state when they are
  sent, and the handlers of their answers are functions of their own, so that the order of answers is the order in
  which these are applied; where it matters, a step relation with reachable states says so (\<open>Ajax_Areas\<close>,
  \<open>Autocompleter\<close>).  A throw is \<open>Inl\<close> of an error (\<open>Js_Prelude\<close>).  Loops and recursions are structural, have a
  measure, or, where the code may not end, take the depth of the stack or a number of rounds as their first
  argument; the properties \<open>chart_levels\<close>, \<open>folder_closes\<close>, \<open>folder_opens\<close> and \<open>draw_ends\<close> say how much is enough:
  a chart of \<open>n\<close> tasks with identifiers of their own needs a stack of \<open>n + 1\<close> calls, and the header loops end in
  every known format.  Numbers are whole numbers except in \<open>Gantt_Draw\<close> and \<open>Gantt_Links\<close>, where fractions are exact;
  dates of the Gantt chart are milliseconds in a fixed time zone, with an invalid date as \<open>None\<close> (\<open>Js_Date\<close>).  What only the browser
  or the server knows is a parameter: the moment of a call (\<open>now\<close>), the text of dates that \<open>Date.parse\<close> reads, the
  answers of requests, the layout of the page.

  \<^bold>\<open>The theories.\<close>

  \<^item> \<open>Js_Prelude\<close>: strings, numbers as text, exceptions and ordered objects of the language.
  \<^item> \<open>Url_Params\<close>: addresses and parameters (\<open>OfbizUtil.js\<close>: \<open>replaceQueryParam\<close>, \<open>submitPagination\<close>;
    \<open>fieldlookup.js\<close>: \<open>lookup_popup1\<close>, \<open>lookup_popup2\<close>; \<open>miscAjaxFunctions.js\<close>: \<open>prepareAjaxData\<close>; \<open>util.js\<close>: the guard
    before JSON data).
  \<^item> \<open>Ajax_Areas\<close>: \<open>ajaxUpdateArea\<close> and its callers, the wait spinner, the messages of a submission, and the global
    variable \<open>updateFunction\<close> that the submissions share.  The property \<open>spinner_never_orphaned\<close> is an invariant over all
    interleavings of requests and answers in which no form request fails and nothing else replaces that variable
    while one is pending (\<open>form_handler_replaced\<close> shows what happens then),
    \<open>area_description_roundtrip\<close> the correctness of the splitting of area descriptions.
  \<^item> \<open>Form_Widgets\<close>: row highlighting, the guard against posting twice, the combo box of \<open>combobox.js\<close>.
    \<open>Select_All\<close>: select-all boxes; \<open>Form_Fields\<close>: the form of a field and its fields.  \<open>Screenlet\<close>: collapsible panels and screenlets.  \<open>Page_Dom\<close> and
    \<open>Shipping_Info\<close>: the shipping page of an order.
  \<^item> \<open>Autocompleter\<close> and \<open>Menu_Combobox\<close>: the two completers of \<open>OfbizUtil.js\<close>; \<open>Descriptions\<close>: the descriptions of the
    values they choose.
  \<^item> \<open>Lookup_Registry\<close>, \<open>Lookup_Dialog\<close>, \<open>Lookup_Page\<close>: \<open>fieldlookup.js\<close>.  The registry is the locale \<open>registry\<close>,
    interpreted on \<open>FieldLookupCounter\<close>; the dialogs refine a stack (\<open>dialogs_refine_stack\<close>), by a simulation proved once
    in a locale and interpreted on the handlers.
  \<^item> \<open>Js_Date\<close>: dates of the language, with the calendar arithmetic behind \<open>setDate\<close> and \<open>setFullYear\<close>.
  \<^item> \<open>Gantt_Task\<close>: tasks and the text of dates.  \<open>Gantt_Rows\<close>: \<open>processRows\<close>, the tree of tasks.  \<open>Gantt_Dates\<close>: first and
    last moment of a chart.  \<open>Gantt_View\<close>: opening and closing groups.  \<open>Gantt_Draw\<close>: the chart and \<open>Draw\<close>.
    \<open>Gantt_Links\<close>: dependency lines.  \<open>Gantt_Xml\<close>: the two readers of documents.  \<open>Draw\<close> calls \<open>processRows\<close>,
    \<open>getMinDate\<close> and \<open>getMaxDate\<close>; \<open>drawn_chart_folds\<close> connects the page it writes with the walks of \<open>folder\<close>.
    \<open>Gantt_Page\<close>: what the drawn page calls back (\<open>changeFormat\<close> draws the chart and its lines again, hovering a row) and
    \<open>parseXML\<close>, which chooses one of the two readers.  The places of the bars on the screen are a parameter,
    which the properties ask to have every bar that is written (\<open>laid_out\<close>); the lines on the page are then exactly
    those that \<open>chart_links\<close> lists.  \<open>Gantt_Valid\<close>: charts built and edited through the methods of tasks and charts.
  \<^item> \<open>Portal\<close>: \<open>myportal.js\<close>, the portlets of a portal page, their columns and the requests that are sent when one is
    moved; what the server does with a request is not modelled.
  \<^item> \<open>Dropdowns\<close>: drop-downs whose options depend on others (\<open>getDependentDropdownValues\<close>, \<open>getAssociatedStateList\<close>).
    \<open>Order_Pages\<close>: the completers for countries and states, the statuses of returns and the converted prices, whose
    answers may arrive in any order (\<open>last_price_answer_counts\<close>); whether a page has the library Prototype, whose array
    methods two of the scripts call, is a part of the state.
  \<^item> \<open>Service_Calls\<close>: \<open>getServiceResult\<close>, \<open>checkUomConversion\<close>, related values, the locale of a session, and the dialogs
    and confirmations that \<open>bindObservers\<close> attaches.  \<open>Inplace_Editor\<close>: the values edited in their place, with a parser of
    the JSON text that the code pastes them into (\<open>value_stays_in_field\<close>, \<open>sent_as_entered\<close>).
  \<^item> \<open>Messages\<close>: questions, pop-ups, labels and error messages of \<open>OfbizUtil.js\<close> and \<open>miscAjaxFunctions.js\<close>, and the
    order of two dates that \<open>FromThruDateCheck.js\<close> demands of the first inputs with their names.

  \<^item> \<open>Timezone_Data\<close>, \<open>Timezone_Rules\<close>, \<open>Timezone_Date\<close>: \<open>date.timezone.js\<close> with \<open>initTimeZone\<close>, behind the clock of
    the server.  The first has the tables of zones, their reader \<open>parseZones\<close> and the loading of files, as runs over the
    tables that end with a result or an error; the second \<open>getRule\<close>, whose table of dates is shown to be harmless
    (\<open>cached_dates_harmless\<close>) and whose choice is compared with a reference (\<open>getRule_in_force\<close>); the third the dates
    in a time zone.  \<open>Timezone_Loading\<close>: the order of requests and answers.  \<open>Timezone_Text\<close>: the reader against a printer
    of its files.  Offsets are in milliseconds, so that the fractions of minutes are exact, and the browser's own clock is
    a parameter (\<open>browser_clock\<close>): its offset may change, and the properties say where it must not.  The depth of the stack bounds \<open>getRegionForTimezone\<close> and \<open>getZone\<close>; where a zone is in the tables
    a depth of one is enough.

  \<^bold>\<open>Not modelled.\<close>  jQuery, its plugins and the other packages under \<open>jquery/\<close> and \<open>plugins/\<close> are third-party code;
  the scripts use them through the documented behaviour of a few calls, which the models write out.  Mark-up
  that the code writes as text is given by its parts.  Pure wiring of events to the handlers, timers and
  the visual effects are left out.
\<close>

end
